(* ===== verification/Btlet_Prelude.thy ===== *)
theory Btlet_Prelude
  imports Main "HOL-Library.Word" "HOL-Library.Char_ord" "HOL-Library.List_Lexorder"
    "HOL-Library.AList"
begin

text \<open>
  The vocabulary the other theories share: Go byte strings, unsigned integers read from and written
  to bytes in big-endian order (\<open>encoding/binary\<close>), association lists as Go maps, and the
  contract \<open>framing\<close> of a self-delimiting wire format with the facts that follow from it.
\<close>

section \<open>Byte strings\<close>

text \<open>A Go \<open>string\<close> or \<open>[]byte\<close> is a sequence of bytes; a \<^typ>\<open>char\<close> is exactly one byte.\<close>

type_synonym byte = char
type_synonym bytes = string

named_theorems wire \<comment> \<open>how the readers consume what the writers produce\<close>
named_theorems frame \<comment> \<open>which parts of a state an operation leaves alone\<close>

text \<open>The numeric value of a byte, as \<open>uint8\<close>, and the byte of a \<open>uint8\<close>.\<close>

definition u8 :: "byte \<Rightarrow> 8 word" where
  "u8 c = word_of_nat (of_char c)"

definition byte_of :: "8 word \<Rightarrow> byte" where
  "byte_of w = char_of (unat w)"

lemma unat_u8 [simp]: "unat (u8 c) = of_char c"
  by (simp add: u8_def unat_of_nat)

lemma byte_of_u8 [simp]: "byte_of (u8 c) = c"
  by (simp add: byte_of_def)

lemma u8_byte_of [simp]: "u8 (byte_of w) = w"
proof -
  have "unat w < 2 ^ 8" using unsigned_less [of w] by simp
  then have "of_char (char_of (unat w)) = unat w"
    by (simp add: of_char_of)
  then show ?thesis by (simp add: u8_def byte_of_def)
qed

section \<open>Big-endian integers\<close>

text \<open>
  \<open>put_be k x\<close> is what \<open>binary.BigEndian.PutUint\<close> writes for a \<open>k\<close>-byte unsigned
  integer, \<open>get_be\<close> what \<open>binary.BigEndian.Uint\<close> reads back.
\<close>

fun put_be :: "nat \<Rightarrow> nat \<Rightarrow> bytes" where
  "put_be 0 x = []"
| "put_be (Suc k) x = put_be k (x div 256) @ [char_of (x mod 256)]"

definition get_be :: "bytes \<Rightarrow> nat" where
  "get_be bs = foldl (\<lambda>a c. a * 256 + of_char c) 0 bs"

lemma length_put_be [simp]: "length (put_be k x) = k"
  by (induction k arbitrary: x) auto

lemma get_be_snoc: "get_be (bs @ [c]) = get_be bs * 256 + of_char c"
  by (simp add: get_be_def)

lemma get_be_put_be [simp]: "get_be (put_be k x) = x mod 256 ^ k"
proof (induction k arbitrary: x)
  case 0
  show ?case by (simp add: get_be_def)
next
  case (Suc k)
  have "get_be (put_be (Suc k) x) = (x div 256) mod 256 ^ k * 256 + x mod 256"
    using Suc.IH by (simp add: get_be_snoc of_char_of)
  also have "\<dots> = x mod (256 * 256 ^ k)"
    by (simp add: mod_mult2_eq)
  finally show ?case by simp
qed

lemma get_be_less: "get_be bs < 256 ^ length bs"
proof (induction bs rule: rev_induct)
  case Nil
  show ?case by (simp add: get_be_def)
next
  case (snoc c bs)
  then have "get_be bs * 256 + of_char c < (get_be bs + 1) * 256"
    using nat_of_char_less_256 [of c] by simp
  also have "\<dots> \<le> 256 ^ length bs * 256"
    using snoc by (intro mult_right_mono) auto
  finally show ?case by (simp add: get_be_snoc)
qed

lemma put_be_get_be: "length bs = k \<Longrightarrow> put_be k (get_be bs) = bs"
proof (induction k arbitrary: bs)
  case 0
  then show ?case by simp
next
  case (Suc k)
  then obtain cs c where bs: "bs = cs @ [c]" and len: "length cs = k"
    by (auto simp: length_Suc_conv_rev)
  have "(get_be cs * 256 + of_char c) div 256 = get_be cs"
    and "(get_be cs * 256 + of_char c) mod 256 = (of_char c :: nat)"
    using nat_of_char_less_256 [of c] by simp_all
  then show ?case
    using Suc.IH [OF len] by (simp add: bs get_be_snoc)
qed

section \<open>Go maps as association lists\<close>

text \<open>
  A Go map is an association list with distinct keys; its order stands for the iteration order,
  which Go leaves open. \<^const>\<open>AList.update\<close> is the assignment \<open>m[k] = v\<close>.
\<close>

type_synonym ('k, 'v) gomap = "('k \<times> 'v) list"

lemma update_fresh: "k \<notin> fst ` set m \<Longrightarrow> AList.update k v m = m @ [(k, v)]"
  by (induction m) auto

lemma set_update_subset: "p \<in> set (AList.update k v m) \<Longrightarrow> p = (k, v) \<or> p \<in> set m"
  by (induction m) (auto split: if_splits)

section \<open>Self-delimiting wire formats\<close>

text \<open>
  \<open>dec_seq dec n\<close> reads \<open>n\<close> consecutive frames of a stream with the reader \<open>dec\<close>, which
  returns a frame and the unread rest.
\<close>

fun dec_seq :: "(bytes \<Rightarrow> ('a \<times> bytes) option) \<Rightarrow> nat \<Rightarrow> bytes \<Rightarrow> ('a list \<times> bytes) option" where
  "dec_seq dec 0 bs = Some ([], bs)"
| "dec_seq dec (Suc n) bs =
     (case dec bs of
        None \<Rightarrow> None
      | Some (x, rest) \<Rightarrow>
          (case dec_seq dec n rest of
             None \<Rightarrow> None
           | Some (xs, rest') \<Rightarrow> Some (x # xs, rest')))"

text \<open>
  The contract of a wire format: what the writer produces for an acceptable value, the reader takes
  back, and it leaves whatever follows on the stream unread.
\<close>

locale framing =
  fixes enc :: "'a \<Rightarrow> bytes"
    and dec :: "bytes \<Rightarrow> ('a \<times> bytes) option"
    and ok :: "'a \<Rightarrow> bool"
  assumes roundtrip: "ok x \<Longrightarrow> dec (enc x @ rest) = Some (x, rest)"
begin

lemma unambiguous: "ok x \<Longrightarrow> ok y \<Longrightarrow> enc x @ r = enc y @ s \<Longrightarrow> x = y \<and> r = s"
  using roundtrip [of x r] roundtrip [of y s] by (metis option.inject prod.inject)

lemma enc_inj: "ok x \<Longrightarrow> ok y \<Longrightarrow> enc x = enc y \<Longrightarrow> x = y"
  using unambiguous [of x y "[]" "[]"] by (metis append_Nil2)

lemma dec_seq_frames:
  "\<forall>x \<in> set xs. ok x \<Longrightarrow> dec_seq dec (length xs) (concat (map enc xs) @ rest) = Some (xs, rest)"
  by (induction xs) (auto simp: roundtrip)

end

end
