(* ===== verification/Go_Values.thy ===== *)
theory Go_Values
  imports Btlet_Prelude
begin

text \<open>
  The part of Go's type system that package \<open>bencode\<close> sees through \<open>reflect\<close>: types, values,
  zero values, the typing judgement, and the errors of \<open>bencode/errors.go\<close>. A pointer owns what
  it points to (the decoder only ever follows pointers it allocated or was handed), so a value is a
  tree. Types are finite trees; a named type carries its underlying type.
\<close>

section \<open>Types and values\<close>

text \<open>What \<open>reflect.StructField\<close> tells the package about a struct field.\<close>

record field_info =
  fld_name :: string
  fld_tag :: "string option"  \<comment> \<open>\<open>f.Tag.Lookup("bencode")\<close>\<close>
  fld_anonymous :: bool        \<comment> \<open>an embedded field\<close>
  fld_exported :: bool         \<comment> \<open>\<open>f.PkgPath == ""\<close>\<close>

datatype gotype =
    TBool
  | TInt nat                                  \<comment> \<open>\<open>int8\<close> to \<open>int64\<close>, by width; \<open>int\<close> is 64 bits\<close>
  | TUint nat
  | TString
  | TSlice gotype
  | TArray nat gotype
  | TMap gotype gotype
  | TStruct "(field_info \<times> gotype) list"
  | TPtr gotype
  | TIface                                    \<comment> \<open>the empty interface\<close>
  | TNamed string gotype
  | TOther string                             \<comment> \<open>floats, channels, functions\<close>

datatype goval =
    VBool bool
  | VInt int
  | VUint int
  | VString bytes
  | VSlice "goval list option"                \<comment> \<open>\<^const>\<open>None\<close> is the nil slice\<close>
  | VArray "goval list"
  | VMap "(bytes \<times> goval) list option"        \<comment> \<open>string keys only\<close>
  | VStruct "goval list"
  | VPtr "goval option"
  | VIface "(gotype \<times> goval) option"          \<comment> \<open>the dynamic type and value\<close>
  | VOther bool                               \<comment> \<open>whether it counts as zero\<close>

text \<open>\<open>reflect.Type.Kind\<close> looks through the name of a type.\<close>

fun under :: "gotype \<Rightarrow> gotype" where
  "under (TNamed nm t) = under t"
| "under t = t"

lemma under_idem [simp]: "under (under t) = under t"
  by (induction t rule: under.induct) auto

lemma under_not_named [simp]: "under t \<noteq> TNamed nm t'"
  by (induction t rule: under.induct) auto

abbreviation byte_slice :: gotype where
  "byte_slice \<equiv> TSlice (TUint 8)"

text \<open>A \<open>[]byte\<close> is a slice of \<open>uint8\<close> values.\<close>

definition of_bytes :: "bytes \<Rightarrow> goval list" where
  "of_bytes bs = map (\<lambda>c. VUint (int (of_char c))) bs"

definition to_byte :: "goval \<Rightarrow> byte" where
  "to_byte v = (case v of VUint n \<Rightarrow> char_of (nat n) | _ \<Rightarrow> CHR 0x00)"

definition to_bytes :: "goval list \<Rightarrow> bytes" where
  "to_bytes vs = map to_byte vs"

lemma to_bytes_of_bytes [simp]: "to_bytes (of_bytes bs) = bs"
  by (simp add: to_bytes_def of_bytes_def to_byte_def o_def)

lemma of_bytes_Nil_iff [simp]: "of_bytes bs = [] \<longleftrightarrow> bs = []"
  by (simp add: of_bytes_def)

lemma length_of_bytes [simp]: "length (of_bytes bs) = length bs"
  by (simp add: of_bytes_def)

lemma length_to_bytes [simp]: "length (to_bytes vs) = length vs"
  by (simp add: to_bytes_def)

section \<open>Zero values and typing\<close>

lemma size_field_type [termination_simp]:
  "(f, t) \<in> set fs \<Longrightarrow> size t < Suc (size_list (size_prod (\<lambda>_. 0) size) fs)"
  by (induction fs) auto

lemma size_elem [termination_simp]: "x \<in> set xs \<Longrightarrow> size x < Suc (size_list size xs)"
  by (induction xs) auto

lemma size_map_elem [termination_simp]:
  "(k, x) \<in> set kvs \<Longrightarrow> size x < Suc (size_list (size_prod (\<lambda>_. 0) size) kvs)"
  by (induction kvs) auto

text \<open>\<open>reflect.New(t).Elem()\<close>: the zero value of a type.\<close>

fun zero :: "gotype \<Rightarrow> goval" where
  "zero TBool = VBool False"
| "zero (TInt w) = VInt 0"
| "zero (TUint w) = VUint 0"
| "zero TString = VString []"
| "zero (TSlice t) = VSlice None"
| "zero (TArray k t) = VArray (replicate k (zero t))"
| "zero (TMap kt t) = VMap None"
| "zero (TStruct fs) = VStruct (map (\<lambda>(f, t). zero t) fs)"
| "zero (TPtr t) = VPtr None"
| "zero TIface = VIface None"
| "zero (TNamed nm t) = zero t"
| "zero (TOther k) = VOther True"

text \<open>
  The named types of the repository that carry methods, with their underlying types: a name stands
  for one declaration. \<open>net.UDPAddr\<close> has the fields the code uses.
\<close>

definition field :: "string \<Rightarrow> field_info" where
  "field nm = \<lparr>fld_name = nm, fld_tag = None, fld_anonymous = False, fld_exported = True\<rparr>"

definition tagged_field :: "string \<Rightarrow> string \<Rightarrow> field_info" where
  "tagged_field nm tag = (field nm)\<lparr>fld_tag := Some tag\<rparr>"

definition hidden_field :: "string \<Rightarrow> field_info" where
  "hidden_field nm = (field nm)\<lparr>fld_exported := False\<rparr>"

definition udpaddr_type :: gotype where
  "udpaddr_type = TStruct [(field ''IP'', byte_slice), (field ''Port'', TInt 64)]"

definition node_type :: gotype where
  "node_type = TStruct [(field ''Addr'', TPtr udpaddr_type), (field ''ID'', TString)]"

definition declared :: "string \<Rightarrow> gotype option" where
  "declared nm =
     (if nm = ''RawMessage'' then Some byte_slice
      else if nm = ''NodePtrSlice'' then Some (TSlice (TPtr node_type))
      else if nm = ''KRPCErr'' then
        Some (TStruct [(hidden_field ''code'', TInt 64), (hidden_field ''describe'', TString)])
      else None)"

text \<open>
  Well-formed types: integers have a width, a name stands for its declaration and, as Go demands of
  a type with methods, names neither a pointer nor an interface, and what a struct embeds (without a
  tag) is a struct or a pointer to one. The tag \<open>bencode:""\<close> on an embedded field is left out: with
  it the code enters the field both by its name and by the fields inside it.
\<close>

definition embedded :: "field_info \<Rightarrow> bool" where
  "embedded f \<longleftrightarrow> fld_exported f \<and> fld_anonymous f \<and> fld_tag f = None"

definition is_struct :: "gotype \<Rightarrow> bool" where
  "is_struct t \<longleftrightarrow> (case under t of TStruct fs \<Rightarrow> True | _ \<Rightarrow> False)"

definition deref :: "gotype \<Rightarrow> gotype" where
  "deref t = (case under t of TPtr t' \<Rightarrow> t' | _ \<Rightarrow> t)"

definition field_ok :: "field_info \<Rightarrow> gotype \<Rightarrow> bool" where
  "field_ok f t \<longleftrightarrow>
     (embedded f \<longrightarrow> is_struct (deref t)) \<and>
     \<not> (fld_exported f \<and> fld_anonymous f \<and> fld_tag f = Some [])"

fun wf_type :: "gotype \<Rightarrow> bool" where
  "wf_type (TInt w) = (0 < w)"
| "wf_type (TSlice t) = wf_type t"
| "wf_type (TArray k t) = wf_type t"
| "wf_type (TMap kt t) = wf_type t"
| "wf_type (TStruct fs) = (\<forall>(f, t) \<in> set fs. wf_type t \<and> field_ok f t)"
| "wf_type (TPtr t) = wf_type t"
| "wf_type (TNamed nm t) =
     (wf_type t \<and> (case declared nm of None \<Rightarrow> True | Some u \<Rightarrow> t = u) \<and>
      (\<forall>t'. under t \<noteq> TPtr t') \<and> under t \<noteq> TIface)"
| "wf_type t = True"

text \<open>
  \<open>has_type t v\<close>: \<open>v\<close> is a value of type \<open>t\<close>. Integers stay within their width, arrays have
  their length, maps have string keys, each once.
\<close>

function has_type :: "gotype \<Rightarrow> goval \<Rightarrow> bool"
  and has_types :: "(field_info \<times> gotype) list \<Rightarrow> goval list \<Rightarrow> bool" where
  "has_type t v =
     (case (t, v) of
        (TNamed nm t', _) \<Rightarrow> has_type t' v
      | (TBool, VBool b) \<Rightarrow> True
      | (TInt w, VInt n) \<Rightarrow> 0 < w \<and> - (2 ^ (w - 1)) \<le> n \<and> n < 2 ^ (w - 1)
      | (TUint w, VUint n) \<Rightarrow> 0 \<le> n \<and> n < 2 ^ w
      | (TString, VString s) \<Rightarrow> True
      | (TSlice t', VSlice None) \<Rightarrow> True
      | (TSlice t', VSlice (Some vs)) \<Rightarrow> list_all (has_type t') vs
      | (TArray k t', VArray vs) \<Rightarrow> length vs = k \<and> list_all (has_type t') vs
      | (TMap kt t', VMap None) \<Rightarrow> True
      | (TMap kt t', VMap (Some kvs)) \<Rightarrow>
          kt = TString \<and> distinct (map fst kvs) \<and> list_all (has_type t') (map snd kvs)
      | (TStruct fs, VStruct vs) \<Rightarrow> has_types fs vs
      | (TPtr t', VPtr None) \<Rightarrow> True
      | (TPtr t', VPtr (Some v')) \<Rightarrow> has_type t' v'
      | (TIface, VIface None) \<Rightarrow> True
      | (TIface, VIface (Some (t', v'))) \<Rightarrow> wf_type t' \<and> has_type t' v'
      | (TOther k, VOther z) \<Rightarrow> True
      | _ \<Rightarrow> False)"
| "has_types fs vs =
     (case (fs, vs) of
        ([], []) \<Rightarrow> True
      | (f # fs', v # vs') \<Rightarrow> has_type (snd f) v \<and> has_types fs' vs'
      | _ \<Rightarrow> False)"
  by pat_completeness auto
termination
  by (relation "measures [case_sum (\<lambda>(t, v). size v) (\<lambda>(fs, vs). size_list size vs),
        case_sum (\<lambda>(t, v). size t) (\<lambda>(fs, vs). size_list (size_prod (\<lambda>_. 0) size) fs)]")
    (auto dest!: size_elem size_map_elem)

declare has_type.simps [simp del] has_types.simps [simp del]

lemma has_type_iff [simp]:
  "has_type (TNamed nm t) v \<longleftrightarrow> has_type t v"
  "has_type TBool v \<longleftrightarrow> (\<exists>b. v = VBool b)"
  "has_type (TInt w) v \<longleftrightarrow> (\<exists>n. v = VInt n \<and> 0 < w \<and> - (2 ^ (w - 1)) \<le> n \<and> n < 2 ^ (w - 1))"
  "has_type (TUint w) v \<longleftrightarrow> (\<exists>n. v = VUint n \<and> 0 \<le> n \<and> n < 2 ^ w)"
  "has_type TString v \<longleftrightarrow> (\<exists>s. v = VString s)"
  "has_type (TSlice t) v \<longleftrightarrow>
     (\<exists>vs. v = VSlice vs \<and> (case vs of None \<Rightarrow> True | Some xs \<Rightarrow> list_all (has_type t) xs))"
  "has_type (TArray k t) v \<longleftrightarrow> (\<exists>vs. v = VArray vs \<and> length vs = k \<and> list_all (has_type t) vs)"
  "has_type (TMap kt t) v \<longleftrightarrow>
     (\<exists>m. v = VMap m \<and> (case m of None \<Rightarrow> True | Some kvs \<Rightarrow>
        kt = TString \<and> distinct (map fst kvs) \<and> list_all (has_type t) (map snd kvs)))"
  "has_type (TStruct fs) v \<longleftrightarrow> (\<exists>vs. v = VStruct vs \<and> has_types fs vs)"
  "has_type (TPtr t) v \<longleftrightarrow>
     (\<exists>p. v = VPtr p \<and> (case p of None \<Rightarrow> True | Some x \<Rightarrow> has_type t x))"
  "has_type TIface v \<longleftrightarrow>
     (\<exists>i. v = VIface i \<and> (case i of None \<Rightarrow> True | Some (t', x) \<Rightarrow> wf_type t' \<and> has_type t' x))"
  "has_type (TOther oth) v \<longleftrightarrow> (\<exists>z. v = VOther z)"
  by (subst has_type.simps; cases v; simp split: option.splits prod.splits; fail)+

lemma has_types_iff [simp]:
  "has_types [] vs \<longleftrightarrow> vs = []"
  "has_types (f # fs) vs \<longleftrightarrow> (\<exists>v vs'. vs = v # vs' \<and> has_type (snd f) v \<and> has_types fs vs')"
  by (subst has_types.simps; cases vs; simp)+

lemma has_types_length: "has_types fs vs \<Longrightarrow> length vs = length fs"
  by (induction fs arbitrary: vs) auto

lemma has_types_nth: "has_types fs vs \<Longrightarrow> i < length fs \<Longrightarrow> has_type (snd (fs ! i)) (vs ! i)"
  by (induction fs arbitrary: vs i) (auto simp: nth_Cons split: nat.split)

lemma has_types_update:
  "has_types fs vs \<Longrightarrow> i < length fs \<Longrightarrow> has_type (snd (fs ! i)) x \<Longrightarrow> has_types fs (vs[i := x])"
  by (induction fs arbitrary: vs i) (auto simp: nth_Cons list_update_append split: nat.splits)

lemma has_type_under: "has_type (under t) v = has_type t v"
  by (induction t rule: under.induct) auto

lemma wf_type_under: "wf_type t \<Longrightarrow> wf_type (under t)"
  by (induction t rule: under.induct) auto

lemma has_types_zero: "\<forall>f \<in> set fs. has_type (snd f) (zero (snd f)) \<Longrightarrow> has_types fs (map (\<lambda>(f, t). zero t) fs)"
  by (induction fs) auto

lemma has_type_zero: "wf_type t \<Longrightarrow> has_type t (zero t)"
  by (induction t rule: zero.induct) (auto simp: list_all_iff intro!: has_types_zero)

lemma has_type_of_bytes [simp]: "list_all (has_type (TUint 8)) (of_bytes bs)"
  by (auto simp: of_bytes_def list_all_iff)

section \<open>Errors\<close>

text \<open>
  \<open>bencode/errors.go\<close>, the errors of the standard library the package passes on, and the
  anonymous errors of the other packages. A \<open>SyntaxError\<close> keeps what its message was made from.
\<close>

datatype syntax_msg =
    InvalidInput
  | NegativeLength int
  | UnorderedDict bytes bytes
  | UnknownField bytes

datatype num_error = ErrSyntax | ErrRange

datatype gerror =
    EOF
  | UnexpectedEOF
  | NegativeCount                             \<comment> \<open>\<open>bufio.ErrNegativeCount\<close>\<close>
  | NumError num_error
  | SyntaxError syntax_msg int
  | UnmarshalTypeError string gotype int
  | InvalidUnmarshalError "gotype option"
  | UnsupportedTypeError gotype
  | KRPCError int bytes
  | OtherError string                         \<comment> \<open>\<open>errors.New\<close>\<close>

text \<open>
  How a call can end early: with an error value, with a panic, or, in the model only, because the
  fuel of a loop ran out (which the theorems exclude).
\<close>

datatype abort = Err gerror | Panic string | OutOfFuel

end
