(* ===== verification/Strconv.thy ===== *)
theory Strconv
  imports Go_Values
begin

text \<open>
  What \<open>bencode\<close> uses of Go's number formatting: \<open>fmt\<close>'s verb \<open>%d\<close> and \<open>strconv.ParseInt\<close> and
  \<open>ParseUint\<close> in base 10, with the two errors they report, and the round trip between them.
\<close>

section \<open>Printing\<close>

definition digit_char :: "nat \<Rightarrow> byte" where
  "digit_char d = char_of (48 + d)"

fun show_nat :: "nat \<Rightarrow> bytes" where
  "show_nat n = (if n < 10 then [digit_char n] else show_nat (n div 10) @ [digit_char (n mod 10)])"

declare show_nat.simps [simp del]

text \<open>\<open>fmt.Sprintf("%d", n)\<close>\<close>

definition show_int :: "int \<Rightarrow> bytes" where
  "show_int n = (if n < 0 then CHR ''-'' # show_nat (nat (- n)) else show_nat (nat n))"

section \<open>Parsing\<close>

definition is_digit :: "byte \<Rightarrow> bool" where
  "is_digit c \<longleftrightarrow> 48 \<le> (of_char c :: nat) \<and> (of_char c :: nat) \<le> 57"

definition digit_val :: "byte \<Rightarrow> nat" where
  "digit_val c = of_char c - 48"

text \<open>
  The loop of \<open>ParseUint\<close>: \<open>n\<close> is the value so far, \<open>mx\<close> the largest value of the result type.
  A bad character or an overflow stops it where it is met.
\<close>

fun parse_uint_loop :: "nat \<Rightarrow> nat \<Rightarrow> bytes \<Rightarrow> num_error option \<times> nat" where
  "parse_uint_loop mx n [] = (None, n)"
| "parse_uint_loop mx n (c # cs) =
     (if \<not> is_digit c then (Some ErrSyntax, 0)
      else if 10 * n + digit_val c > mx then (Some ErrRange, mx)
      else parse_uint_loop mx (10 * n + digit_val c) cs)"

text \<open>\<open>strconv.ParseUint(s, 10, w)\<close>: the error, if any, and the value returned with it.\<close>

definition parse_uint :: "nat \<Rightarrow> bytes \<Rightarrow> num_error option \<times> int" where
  "parse_uint w s =
     (if s = [] then (Some ErrSyntax, 0)
      else case parse_uint_loop (2 ^ w - 1) 0 s of (e, n) \<Rightarrow> (e, int n))"

text \<open>\<open>strconv.ParseInt(s, 10, w)\<close>\<close>

definition parse_int :: "nat \<Rightarrow> bytes \<Rightarrow> num_error option \<times> int" where
  "parse_int w s =
     (let neg = (case s of [] \<Rightarrow> False | c # _ \<Rightarrow> c = CHR ''-'');
          body = (case s of [] \<Rightarrow> [] | c # cs \<Rightarrow> if c = CHR ''-'' \<or> c = CHR ''+'' then cs else s);
          cutoff = 2 ^ (w - 1)
      in case parse_uint w body of
           (Some ErrSyntax, _) \<Rightarrow> (Some ErrSyntax, 0)
         | (_, un) \<Rightarrow>
             (if \<not> neg \<and> un \<ge> cutoff then (Some ErrRange, cutoff - 1)
              else if neg \<and> un > cutoff then (Some ErrRange, - cutoff)
              else (None, if neg then - un else un)))"

section \<open>Facts\<close>

lemma of_char_digit_char: "d < 10 \<Longrightarrow> of_char (digit_char d) = 48 + d"
  by (simp add: digit_char_def of_char_of)

lemma is_digit_digit_char [simp]: "d < 10 \<Longrightarrow> is_digit (digit_char d)"
  by (simp add: is_digit_def of_char_digit_char)

lemma digit_val_digit_char [simp]: "d < 10 \<Longrightarrow> digit_val (digit_char d) = d"
  by (simp add: digit_val_def of_char_digit_char)

lemma show_nat_nonempty [simp]: "show_nat n \<noteq> []"
  by (subst show_nat.simps) simp

lemma show_nat_digits: "c \<in> set (show_nat n) \<Longrightarrow> is_digit c"
proof (induction n rule: show_nat.induct)
  case (1 n)
  then show ?case by (cases "n < 10") (auto simp: show_nat.simps [of n])
qed

lemma is_digit_neq:
  "is_digit c \<Longrightarrow> c \<noteq> CHR '':''" "is_digit c \<Longrightarrow> c \<noteq> CHR ''e''" "is_digit c \<Longrightarrow> c \<noteq> CHR ''-''"
  "is_digit c \<Longrightarrow> c \<noteq> CHR ''+''" "is_digit c \<Longrightarrow> c \<noteq> CHR ''i''" "is_digit c \<Longrightarrow> c \<noteq> CHR ''l''"
  "is_digit c \<Longrightarrow> c \<noteq> CHR ''d''"
  by (auto simp: is_digit_def)

lemma show_int_no_e: "CHR ''e'' \<notin> set (show_int n)"
  using show_nat_digits [of "CHR ''e''"] by (auto simp: show_int_def is_digit_def)

lemma show_nat_no_colon: "CHR '':'' \<notin> set (show_nat n)"
  using show_nat_digits is_digit_neq(1) by blast

text \<open>Reading on from any prefix value: printing then parsing appends the digits.\<close>

lemma parse_uint_loop_append:
  "parse_uint_loop mx n (xs @ ys) =
     (case parse_uint_loop mx n xs of (None, m) \<Rightarrow> parse_uint_loop mx m ys | r \<Rightarrow> r)"
  by (induction mx n xs rule: parse_uint_loop.induct) auto

lemma parse_uint_loop_show_nat: "n \<le> mx \<Longrightarrow> parse_uint_loop mx 0 (show_nat n) = (None, n)"
proof (induction n rule: show_nat.induct)
  case (1 n)
  show ?case
  proof (cases "n < 10")
    case True
    then show ?thesis using "1.prems" by (simp add: show_nat.simps [of n])
  next
    case False
    moreover have "n div 10 \<le> mx" using "1.prems" by (meson div_le_dividend le_trans)
    ultimately have "parse_uint_loop mx 0 (show_nat (n div 10)) = (None, n div 10)"
      using "1.IH" by simp
    then show ?thesis
      using False "1.prems" by (simp add: show_nat.simps [of n] parse_uint_loop_append)
  qed
qed

lemma parse_uint_show: "n < 2 ^ w \<Longrightarrow> parse_uint w (show_nat n) = (None, int n)"
proof -
  assume "n < 2 ^ w"
  then have "n \<le> 2 ^ w - 1" by linarith
  then show ?thesis by (simp add: parse_uint_def parse_uint_loop_show_nat)
qed

lemma hd_show_nat: "\<exists>c cs. show_nat n = c # cs \<and> is_digit c"
  using show_nat_digits [of "hd (show_nat n)" n] by (cases "show_nat n") auto

lemma parse_int_show:
  assumes "0 < w" and "- (2 ^ (w - 1)) \<le> n" and "n < 2 ^ (w - 1)"
  shows "parse_int w (show_int n) = (None, n)"
proof -
  have "nat \<bar>n\<bar> \<le> 2 ^ (w - 1)"
    using assms by (auto simp: nat_le_iff abs_le_iff)
  also have "\<dots> < (2::nat) ^ w" using assms(1) by simp
  finally have pu: "parse_uint w (show_nat (nat \<bar>n\<bar>)) = (None, \<bar>n\<bar>)"
    by (simp add: parse_uint_show)
  show ?thesis
  proof (cases "n < 0")
    case True
    then show ?thesis using pu assms by (simp add: parse_int_def show_int_def Let_def)
  next
    case False
    obtain c cs where "show_nat (nat n) = c # cs" and "is_digit c"
      using hd_show_nat by blast
    then show ?thesis
      using False pu assms is_digit_neq(3,4) by (auto simp: parse_int_def show_int_def Let_def)
  qed
qed

text \<open>The value a parse yields always fits the width it was asked for.\<close>

lemma parse_uint_loop_bound: "n \<le> mx \<Longrightarrow> snd (parse_uint_loop mx n s) \<le> mx"
  by (induction mx n s rule: parse_uint_loop.induct) auto

lemma parse_uint_bounds: "0 \<le> snd (parse_uint w s) \<and> snd (parse_uint w s) < 2 ^ w"
proof -
  have "snd (parse_uint_loop (2 ^ w - 1) 0 s) \<le> 2 ^ w - 1"
    by (rule parse_uint_loop_bound) simp
  then have "snd (parse_uint_loop (2 ^ w - 1) 0 s) < 2 ^ w"
    by (metis Suc_pred' less_Suc_eq_le zero_less_power zero_less_numeral)
  then show ?thesis by (auto simp: parse_uint_def split: prod.splits)
qed

lemma parse_int_bounds:
  "- (2 ^ (w - 1)) \<le> snd (parse_int w s) \<and> snd (parse_int w s) < 2 ^ (w - 1)"
proof -
  define body where
    "body = (case s of [] \<Rightarrow> [] | c # cs \<Rightarrow> if c = CHR ''-'' \<or> c = CHR ''+'' then cs else s)"
  obtain e un where pu: "parse_uint w body = (e, un)" by fastforce
  then have "0 \<le> un" using parse_uint_bounds [of w body] by simp
  moreover from this have "- un < 2 ^ (w - Suc 0)"
    by (intro le_less_trans [of "- un" 0]) simp_all
  ultimately show ?thesis
    by (cases e) (auto simp: parse_int_def Let_def pu simp flip: body_def split: num_error.splits)
qed

section \<open>Hexadecimal\<close>

text \<open>The verb \<open>%x\<close> of \<open>fmt\<close>, on bytes\<close>

definition hex_digit :: "nat \<Rightarrow> char" where
  "hex_digit n = ''0123456789abcdef'' ! n"

definition hex :: "bytes \<Rightarrow> string" where
  "hex bs = concat (map (\<lambda>c. [hex_digit (of_char c div 16), hex_digit (of_char c mod 16)]) bs)"

text \<open>The hexadecimal form determines the bytes.\<close>

lemma hex_digit_inj: "m < 16 \<Longrightarrow> n < 16 \<Longrightarrow> hex_digit m = hex_digit n \<Longrightarrow> m = n"
proof -
  have "distinct ''0123456789abcdef''" by simp
  moreover have "length ''0123456789abcdef'' = 16" by simp
  ultimately show "m < 16 \<Longrightarrow> n < 16 \<Longrightarrow> hex_digit m = hex_digit n \<Longrightarrow> m = n"
    unfolding hex_digit_def by (metis nth_eq_iff_index_eq)
qed

lemma hex_inj: "hex a = hex b \<Longrightarrow> a = b"
proof (induction a arbitrary: b)
  case Nil
  then show ?case by (cases b) (simp_all add: hex_def)
next
  case (Cons c a)
  then obtain d b' where b: "b = d # b'" by (cases b) (simp_all add: hex_def)
  with Cons.prems have "hex_digit (of_char c div 16) = hex_digit (of_char d div 16)"
    "hex_digit (of_char c mod 16) = hex_digit (of_char d mod 16)" "hex a = hex b'"
    by (simp_all add: hex_def)
  moreover have "(of_char c :: nat) div 16 < 16" "(of_char d :: nat) div 16 < 16"
    by (rule less_mult_imp_div_less, simp)+
  ultimately have "(of_char c :: nat) div 16 = of_char d div 16" "(of_char c :: nat) mod 16 = of_char d mod 16"
    using hex_digit_inj by simp_all
  then have "(of_char c :: nat) = of_char d" by (metis div_mult_mod_eq)
  then show ?case using b Cons.IH \<open>hex a = hex b'\<close> by simp
qed

end
