(* ===== verification/Bencode_Reader.thy ===== *)
theory Bencode_Reader
  imports Strconv
begin

text \<open>
  The \<open>Decoder\<close> of \<open>bencode/docode.go\<close>: its state, the primitive reads over its
  \<open>bufio.Reader\<close>, and \<open>readValueInto\<close>, which copies one encoded value verbatim into a buffer (or
  discards it). The input is a finite byte sequence followed by \<open>io.EOF\<close>, as every caller in the
  repository sets it up with \<open>bytes.NewReader\<close>.
\<close>

section \<open>State\<close>

record decoder =
  dr :: bytes                                \<comment> \<open>the unread input\<close>
  doffset :: int
  disallowUnknownFields :: bool
  disallowUnorderedKeys :: bool
  unknownFieldsErr :: "gerror option"
  unorderedKeysErr :: "gerror option"

definition newDecoder :: "bytes \<Rightarrow> decoder" where
  "newDecoder data = \<lparr>dr = data, doffset = 0, disallowUnknownFields = False,
     disallowUnorderedKeys = False, unknownFieldsErr = None, unorderedKeysErr = None\<rparr>"

definition set_disallowUnknownFields :: "decoder \<Rightarrow> decoder" where
  "set_disallowUnknownFields d = d\<lparr>disallowUnknownFields := True\<rparr>"

definition set_disallowUnorderedKeys :: "decoder \<Rightarrow> decoder" where
  "set_disallowUnorderedKeys d = d\<lparr>disallowUnorderedKeys := True\<rparr>"

definition bytesParsed :: "decoder \<Rightarrow> int" where
  "bytesParsed d = doffset d"

section \<open>Primitive reads\<close>

text \<open>\<open>took c d\<close> is the decoder after the bytes \<open>c\<close> at the front of its input were read.\<close>

definition took :: "bytes \<Rightarrow> decoder \<Rightarrow> decoder" where
  "took c d = d\<lparr>dr := drop (length c) (dr d), doffset := doffset d + int (length c)\<rparr>"

definition readBytes :: "byte \<Rightarrow> decoder \<Rightarrow> (gerror + bytes) \<times> decoder" where
  "readBytes delim d =
     (if delim \<in> set (dr d)
      then let line = takeWhile (\<lambda>c. c \<noteq> delim) (dr d) @ [delim] in (Inr line, took line d)
      else (Inl EOF, took (dr d) d))"

text \<open>\<open>readByte\<close> counts the byte even when there is none.\<close>

definition readByte :: "decoder \<Rightarrow> (gerror + byte) \<times> decoder" where
  "readByte d =
     (case dr d of
        [] \<Rightarrow> (Inl EOF, d\<lparr>doffset := doffset d + 1\<rparr>)
      | b # _ \<Rightarrow> (Inr b, took [b] d))"

text \<open>\<open>io.ReadFull\<close> into a buffer of \<open>l\<close> bytes\<close>

definition readFull :: "nat \<Rightarrow> decoder \<Rightarrow> (gerror + bytes) \<times> decoder" where
  "readFull l d =
     (if l \<le> length (dr d) then (Inr (take l (dr d)), took (take l (dr d)) d)
      else if dr d = [] then (Inl EOF, d)
      else (Inl UnexpectedEOF, took (dr d) d))"

text \<open>\<open>io.CopyN\<close>: a negative count copies nothing and is no error; a short input is \<open>io.EOF\<close>.\<close>

definition readNBytesInto :: "int \<Rightarrow> decoder \<Rightarrow> (gerror option \<times> bytes) \<times> decoder" where
  "readNBytesInto n d =
     (let data = take (nat n) (dr d) in
      ((if int (length data) < n then Some EOF else None, data), took data d))"

definition peekByte :: "decoder \<Rightarrow> gerror + byte" where
  "peekByte d = (case dr d of [] \<Rightarrow> Inl EOF | b # _ \<Rightarrow> Inr b)"

text \<open>\<open>bufio.Reader.Discard\<close>: unlike \<open>io.CopyN\<close> it refuses a negative count.\<close>

definition discard :: "int \<Rightarrow> decoder \<Rightarrow> gerror option \<times> decoder" where
  "discard n d =
     (if n < 0 then (Some NegativeCount, d)
      else let data = take (nat n) (dr d) in
        (if int (length data) < n then Some EOF else None, took data d))"

section \<open>Reading a value verbatim\<close>

text \<open>The buffer, if there is one, and what \<open>buf.Write\<close> does to it.\<close>

type_synonym raw_reader = "bytes option \<Rightarrow> decoder \<Rightarrow> abort option \<times> bytes option \<times> decoder"

definition bufWrite :: "bytes option \<Rightarrow> bytes \<Rightarrow> bytes option" where
  "bufWrite buf s = map_option (\<lambda>b. b @ s) buf"

definition readIntInto :: raw_reader where
  "readIntInto buf d =
     (case readBytes (CHR ''e'') d of
        (Inl e, d1) \<Rightarrow> (Some (Err e), buf, d1)
      | (Inr line, d1) \<Rightarrow> (None, bufWrite buf line, d1))"

text \<open>
  The error of \<open>strconv.ParseInt\<close> is assigned and then overwritten by the next call's, so a length
  that is no number counts as the value \<open>ParseInt\<close> returned with it.
\<close>

definition readStringInto :: raw_reader where
  "readStringInto buf d =
     (case readBytes (CHR '':'') d of
        (Inl e, d1) \<Rightarrow> (Some (Err e), buf, d1)
      | (Inr line, d1) \<Rightarrow>
          (let len = snd (parse_int 64 (butlast line)) in
           case bufWrite buf line of
             Some b \<Rightarrow>
               (case readNBytesInto len d1 of
                  ((e, data), d2) \<Rightarrow> (map_option Err e, Some (b @ data), d2))
           | None \<Rightarrow> (case discard len d1 of (e, d2) \<Rightarrow> (map_option Err e, None, d2))))"

text \<open>
  The loops of \<open>readListInto\<close> and \<open>readDictInto\<close>, with the reader for the elements as an argument
  and a bound on the number of rounds.
\<close>

primrec readListLoop :: "raw_reader \<Rightarrow> nat \<Rightarrow> raw_reader" where
  "readListLoop rd 0 = (\<lambda>buf d. (Some OutOfFuel, buf, d))"
| "readListLoop rd (Suc m) = (\<lambda>buf d.
     (case peekByte d of
        Inl e \<Rightarrow> (Some (Err e), buf, d)
      | Inr ch \<Rightarrow>
          (if ch = CHR ''e'' then
             (case readByte d of
                (Inl e, d1) \<Rightarrow> (Some (Err e), buf, d1)
              | (Inr _, d1) \<Rightarrow> (None, bufWrite buf ''e'', d1))
           else
             (case rd buf d of
                (Some e, buf1, d1) \<Rightarrow> (Some e, buf1, d1)
              | (None, buf1, d1) \<Rightarrow> readListLoop rd m buf1 d1))))"

definition readListInto :: "raw_reader \<Rightarrow> nat \<Rightarrow> raw_reader" where
  "readListInto rd m buf d =
     (case readByte d of
        (Inl e, d1) \<Rightarrow> (Some (Err e), buf, d1)
      | (Inr b, d1) \<Rightarrow>
          (if b \<noteq> CHR ''l'' then (Some (Panic ''got something other than a list head after a peek''), buf, d1)
           else readListLoop rd m (bufWrite buf [b]) d1))"

primrec readDictLoop :: "raw_reader \<Rightarrow> nat \<Rightarrow> raw_reader" where
  "readDictLoop rd 0 = (\<lambda>buf d. (Some OutOfFuel, buf, d))"
| "readDictLoop rd (Suc m) = (\<lambda>buf d.
     (case peekByte d of
        Inl e \<Rightarrow> (Some (Err e), buf, d)
      | Inr ch \<Rightarrow>
          (if ch = CHR ''e'' then
             (case readByte d of
                (Inl e, d1) \<Rightarrow> (Some (Err e), buf, d1)
              | (Inr _, d1) \<Rightarrow> (None, bufWrite buf ''e'', d1))
           else
             (case readStringInto buf d of
                (Some e, buf1, d1) \<Rightarrow> (Some e, buf1, d1)
              | (None, buf1, d1) \<Rightarrow>
                  (case rd buf1 d1 of
                     (Some e, buf2, d2) \<Rightarrow> (Some e, buf2, d2)
                   | (None, buf2, d2) \<Rightarrow> readDictLoop rd m buf2 d2)))))"

definition readDictInto :: "raw_reader \<Rightarrow> nat \<Rightarrow> raw_reader" where
  "readDictInto rd m buf d =
     (case readByte d of
        (Inl e, d1) \<Rightarrow> (Some (Err e), buf, d1)
      | (Inr b, d1) \<Rightarrow>
          (if b \<noteq> CHR ''d'' then (Some (Panic ''got something other than a list head after a peek''), buf, d1)
           else readDictLoop rd m (bufWrite buf [b]) d1))"

text \<open>The fuel bounds the nesting depth and the rounds of each loop.\<close>

primrec readValueInto :: "nat \<Rightarrow> raw_reader" where
  "readValueInto 0 = (\<lambda>buf d. (Some OutOfFuel, buf, d))"
| "readValueInto (Suc n) = (\<lambda>buf d.
     (case peekByte d of
        Inl e \<Rightarrow> (Some (Err e), buf, d)
      | Inr next_ch \<Rightarrow>
          (if next_ch = CHR ''i'' then readIntInto buf d
           else if is_digit next_ch then readStringInto buf d
           else if next_ch = CHR ''l'' then readListInto (readValueInto n) n buf d
           else if next_ch = CHR ''d'' then readDictInto (readValueInto n) n buf d
           else (Some (Err (SyntaxError InvalidInput (doffset d))), buf, d))))"

section \<open>What a read consumes\<close>

text \<open>
  \<open>advance c d d'\<close>: going from \<open>d\<close> to \<open>d'\<close> the decoder read exactly the bytes \<open>c\<close>, counted them,
  and kept its options.
\<close>

definition advance :: "bytes \<Rightarrow> decoder \<Rightarrow> decoder \<Rightarrow> bool" where
  "advance c d d' \<longleftrightarrow>
     dr d = c @ dr d' \<and> doffset d' = doffset d + int (length c) \<and>
     disallowUnknownFields d' = disallowUnknownFields d \<and>
     disallowUnorderedKeys d' = disallowUnorderedKeys d"

lemma advance_refl [simp]: "advance [] d d"
  by (simp add: advance_def)

lemma advance_trans: "advance c d d1 \<Longrightarrow> advance c' d1 d2 \<Longrightarrow> advance (c @ c') d d2"
  by (auto simp: advance_def)

lemma advance_took: "dr d = c @ rest \<Longrightarrow> advance c d (took c d)"
  by (simp add: advance_def took_def)

lemma advance_take: "advance (take k (dr d)) d (took (take k (dr d)) d)"
  by (rule advance_took [of _ _ "drop k (dr d)"]) simp

lemma advance_length: "advance c d d' \<Longrightarrow> length (dr d) = length c + length (dr d')"
  by (simp add: advance_def)

lemma advance_sel:
  "advance c d d' \<Longrightarrow> doffset d' = doffset d + int (length c)"
  "advance c d d' \<Longrightarrow> dr d = c @ dr d'"
  by (auto simp: advance_def)

lemma took_sel [simp]:
  "dr (took c d) = drop (length c) (dr d)" "doffset (took c d) = doffset d + int (length c)"
  "disallowUnknownFields (took c d) = disallowUnknownFields d"
  "disallowUnorderedKeys (took c d) = disallowUnorderedKeys d"
  "unknownFieldsErr (took c d) = unknownFieldsErr d"
  "unorderedKeysErr (took c d) = unorderedKeysErr d"
  by (simp_all add: took_def)

lemma took_took: "took c' (took c d) = took (c @ c') d"
  by (simp add: took_def add.commute)

lemma took_Nil [simp]: "took [] d = d"
  by (simp add: took_def)

lemma line_prefix:
  assumes "delim \<in> set bs"
  shows "takeWhile (\<lambda>c. c \<noteq> delim) bs @ [delim] @ drop (Suc (length (takeWhile (\<lambda>c. c \<noteq> delim) bs))) bs = bs"
  using assms by (induction bs) auto

lemma readBytes_advance:
  assumes "readBytes delim d = (Inr line, d')"
  shows "advance line d d'" and "line \<noteq> []"
proof -
  let ?w = "takeWhile (\<lambda>c. c \<noteq> delim) (dr d)"
  have mem: "delim \<in> set (dr d)" and line: "line = ?w @ [delim]" and d': "d' = took line d"
    using assms by (auto simp: readBytes_def Let_def split: if_splits)
  show "line \<noteq> []" using line by simp
  have "dr d = line @ drop (Suc (length ?w)) (dr d)"
    using line_prefix [OF mem] line by simp
  then show "advance line d d'"
    unfolding d' by (rule advance_took)
qed

lemma readByte_advance: "readByte d = (Inr b, d') \<Longrightarrow> advance [b] d d'"
  by (auto simp: readByte_def advance_def split: list.splits)

lemma readFull_advance: "readFull l d = (Inr data, d') \<Longrightarrow> advance data d d' \<and> length data = l"
  by (auto simp: readFull_def advance_def split: if_splits)

lemma readNBytesInto_advance: "readNBytesInto n d = ((e, data), d') \<Longrightarrow> advance data d d'"
  by (auto simp: readNBytesInto_def Let_def advance_take)

lemma discard_advance: "discard n d = (None, d') \<Longrightarrow> \<exists>c. advance c d d'"
  by (auto simp: discard_def Let_def split: if_splits intro: advance_take)

lemma peekByte_advance: "peekByte d = Inr b \<Longrightarrow> \<exists>rest. dr d = b # rest"
  by (auto simp: peekByte_def split: list.splits)

lemma bufWrite_bufWrite [simp]: "bufWrite (bufWrite buf s) s' = bufWrite buf (s @ s')"
  by (cases buf) (auto simp: bufWrite_def)

lemma bufWrite_simps [simp]: "bufWrite None s = None" "bufWrite (Some b) s = Some (b @ s)"
  by (simp_all add: bufWrite_def)

section \<open>The contract of a value reader\<close>

text \<open>
  What the loops rely on when they call the reader for an element, and what they promise in turn: a
  successful read consumes at least one byte and puts exactly the consumed bytes into the buffer.
\<close>

locale value_reader =
  fixes rd :: raw_reader
  assumes reads: "rd buf d = (None, buf', d') \<Longrightarrow> \<exists>c. c \<noteq> [] \<and> advance c d d' \<and> buf' = bufWrite buf c"
    and no_panic: "fst (rd buf d) \<noteq> Some (Panic msg)"

lemma readIntInto_reads:
  "readIntInto buf d = (None, buf', d') \<Longrightarrow> \<exists>c. c \<noteq> [] \<and> advance c d d' \<and> buf' = bufWrite buf c"
  by (auto simp: readIntInto_def split: prod.splits sum.splits dest: readBytes_advance)

lemma readStringInto_reads:
  assumes "readStringInto buf d = (None, buf', d')"
  shows "\<exists>c. c \<noteq> [] \<and> advance c d d' \<and> buf' = bufWrite buf c"
proof -
  obtain line d1 where line: "readBytes (CHR '':'') d = (Inr line, d1)"
    using assms by (auto simp: readStringInto_def split: prod.splits sum.splits)
  note adv = readBytes_advance [OF line]
  let ?n = "snd (parse_int 64 (butlast line))"
  show ?thesis
  proof (cases buf)
    case None
    then have "discard ?n d1 = (None, d')" and "buf' = None"
      using assms line by (auto simp: readStringInto_def Let_def split: prod.splits)
    then obtain c where "advance c d1 d'" using discard_advance by blast
    with adv show ?thesis
      using advance_trans [OF adv(1)] None \<open>buf' = None\<close> by (intro exI [of _ "line @ c"]) auto
  next
    case (Some b)
    then obtain data where data: "readNBytesInto ?n d1 = ((None, data), d')"
      and buf': "buf' = Some (b @ line @ data)"
      using assms line by (auto simp: readStringInto_def Let_def split: prod.splits)
    from readNBytesInto_advance [OF data] have "advance (line @ data) d d'"
      by (rule advance_trans [OF adv(1)])
    then show ?thesis using Some buf' adv(2) by (intro exI [of _ "line @ data"]) auto
  qed
qed

lemma readIntInto_no_panic: "fst (readIntInto buf d) \<noteq> Some (Panic msg)"
  by (auto simp: readIntInto_def split: sum.splits prod.splits)

lemma readStringInto_no_panic: "fst (readStringInto buf d) \<noteq> Some (Panic msg)"
  by (auto simp: readStringInto_def Let_def split: sum.splits prod.splits option.splits)

context value_reader begin

lemma readListLoop_no_panic: "fst (readListLoop rd m buf d) \<noteq> Some (Panic msg)"
proof (induction m arbitrary: buf d)
  case (Suc m)
  then show ?case
    using no_panic [of buf d msg] by (auto split: sum.splits prod.splits option.splits)
qed simp

lemma readDictLoop_no_panic: "fst (readDictLoop rd m buf d) \<noteq> Some (Panic msg)"
proof (induction m arbitrary: buf d)
  case (Suc m)
  have "fst (rd b d1) \<noteq> Some (Panic msg)" for b d1 by (rule no_panic)
  then show ?case
    using Suc readStringInto_no_panic [of buf d]
    by (auto split: sum.splits prod.splits option.splits; metis fst_conv)
qed simp

lemma readListInto_no_panic:
  "peekByte d = Inr (CHR ''l'') \<Longrightarrow> fst (readListInto rd m buf d) \<noteq> Some (Panic msg)"
  using readListLoop_no_panic by (auto simp: readListInto_def peekByte_def readByte_def split: list.splits)

lemma readDictInto_no_panic:
  "peekByte d = Inr (CHR ''d'') \<Longrightarrow> fst (readDictInto rd m buf d) \<noteq> Some (Panic msg)"
  using readDictLoop_no_panic by (auto simp: readDictInto_def peekByte_def readByte_def split: list.splits)

lemma readListLoop_reads:
  "readListLoop rd m buf d = (None, buf', d') \<Longrightarrow> \<exists>c. c \<noteq> [] \<and> advance c d d' \<and> buf' = bufWrite buf c"
proof (induction m arbitrary: buf d)
  case 0
  then show ?case by simp
next
  case (Suc m)
  then obtain ch where ch: "peekByte d = Inr ch"
    by (auto split: sum.splits)
  show ?case
  proof (cases "ch = CHR ''e''")
    case True
    then have "advance ''e'' d d' \<and> buf' = bufWrite buf ''e''"
      using Suc.prems ch by (auto simp: peekByte_def readByte_def advance_def split: list.splits)
    then show ?thesis by blast
  next
    case False
    then obtain buf1 d1 where 1: "rd buf d = (None, buf1, d1)"
      and 2: "readListLoop rd m buf1 d1 = (None, buf', d')"
      using Suc.prems ch by (auto split: prod.splits option.splits)
    obtain c1 where c1: "c1 \<noteq> []" "advance c1 d d1" "buf1 = bufWrite buf c1"
      using reads [OF 1] by blast
    obtain c2 where c2: "advance c2 d1 d'" "buf' = bufWrite buf1 c2"
      using Suc.IH [OF 2] by blast
    show ?thesis
      using advance_trans [OF c1(2) c2(1)] c1 c2 by (intro exI [of _ "c1 @ c2"]) auto
  qed
qed

lemma readDictLoop_reads:
  "readDictLoop rd m buf d = (None, buf', d') \<Longrightarrow> \<exists>c. c \<noteq> [] \<and> advance c d d' \<and> buf' = bufWrite buf c"
proof (induction m arbitrary: buf d)
  case 0
  then show ?case by simp
next
  case (Suc m)
  then obtain ch where ch: "peekByte d = Inr ch"
    by (auto split: sum.splits)
  show ?case
  proof (cases "ch = CHR ''e''")
    case True
    then have "advance ''e'' d d' \<and> buf' = bufWrite buf ''e''"
      using Suc.prems ch by (auto simp: peekByte_def readByte_def advance_def split: list.splits)
    then show ?thesis by blast
  next
    case False
    then obtain buf1 d1 buf2 d2 where 0: "readStringInto buf d = (None, buf1, d1)"
      and 1: "rd buf1 d1 = (None, buf2, d2)"
      and 2: "readDictLoop rd m buf2 d2 = (None, buf', d')"
      using Suc.prems ch by (auto split: prod.splits option.splits)
    obtain c0 where c0: "c0 \<noteq> []" "advance c0 d d1" "buf1 = bufWrite buf c0"
      using readStringInto_reads [OF 0] by blast
    obtain c1 where c1: "advance c1 d1 d2" "buf2 = bufWrite buf1 c1"
      using reads [OF 1] by blast
    obtain c2 where c2: "advance c2 d2 d'" "buf' = bufWrite buf2 c2"
      using Suc.IH [OF 2] by blast
    show ?thesis
      using advance_trans [OF advance_trans [OF c0(2) c1(1)] c2(1)] c0 c1 c2
      by (intro exI [of _ "(c0 @ c1) @ c2"]) auto
  qed
qed

lemma readListInto_reads:
  assumes "readListInto rd m buf d = (None, buf', d')"
  shows "\<exists>c. c \<noteq> [] \<and> advance c d d' \<and> buf' = bufWrite buf c"
proof -
  obtain d1 where 1: "readByte d = (Inr (CHR ''l''), d1)"
    and 2: "readListLoop rd m (bufWrite buf ''l'') d1 = (None, buf', d')"
    using assms by (auto simp: readListInto_def split: prod.splits sum.splits if_splits)
  from readListLoop_reads [OF 2] obtain c where "advance c d1 d'" "buf' = bufWrite (bufWrite buf ''l'') c"
    by blast
  then show ?thesis
    using advance_trans [OF readByte_advance [OF 1]] by (intro exI [of _ "''l'' @ c"]) auto
qed

lemma readDictInto_reads:
  assumes "readDictInto rd m buf d = (None, buf', d')"
  shows "\<exists>c. c \<noteq> [] \<and> advance c d d' \<and> buf' = bufWrite buf c"
proof -
  obtain d1 where 1: "readByte d = (Inr (CHR ''d''), d1)"
    and 2: "readDictLoop rd m (bufWrite buf ''d'') d1 = (None, buf', d')"
    using assms by (auto simp: readDictInto_def split: prod.splits sum.splits if_splits)
  from readDictLoop_reads [OF 2] obtain c where "advance c d1 d'" "buf' = bufWrite (bufWrite buf ''d'') c"
    by blast
  then show ?thesis
    using advance_trans [OF readByte_advance [OF 1]] by (intro exI [of _ "''d'' @ c"]) auto
qed

end

lemma value_reader_readValueInto: "value_reader (readValueInto n)"
proof (induction n)
  case 0
  show ?case by unfold_locales simp_all
next
  case (Suc n)
  show ?case
  proof unfold_locales
    fix buf d buf' d'
    assume ok: "readValueInto (Suc n) buf d = (None, buf', d')"
    then show "\<exists>c. c \<noteq> [] \<and> advance c d d' \<and> buf' = bufWrite buf c"
      by (auto split: sum.splits if_splits
          intro: readIntInto_reads readStringInto_reads value_reader.readListInto_reads [OF Suc.IH]
            value_reader.readDictInto_reads [OF Suc.IH])
  next
    fix buf d msg
    show "fst (readValueInto (Suc n) buf d) \<noteq> Some (Panic msg)"
      using value_reader.readListInto_no_panic [OF Suc.IH, of d]
        value_reader.readDictInto_no_panic [OF Suc.IH, of d]
      by (auto simp: readIntInto_no_panic readStringInto_no_panic split: sum.splits)
  qed
qed

text \<open>
  The other half of the contract: a reader with enough fuel for inputs of up to \<open>L\<close> bytes. The
  loops then never run out of rounds, since every round consumes a byte.
\<close>

lemma readIntInto_no_fuel: "fst (readIntInto buf d) \<noteq> Some OutOfFuel"
  by (auto simp: readIntInto_def split: sum.splits prod.splits)

lemma readStringInto_no_fuel: "fst (readStringInto buf d) \<noteq> Some OutOfFuel"
  by (auto simp: readStringInto_def Let_def split: sum.splits prod.splits option.splits)

locale fuelled_reader = value_reader +
  fixes L :: nat
  assumes enough: "length (dr d) \<le> L \<Longrightarrow> fst (rd buf d) \<noteq> Some OutOfFuel"
begin

lemma readListLoop_enough:
  "length (dr d) \<le> L \<Longrightarrow> length (dr d) < m \<Longrightarrow> fst (readListLoop rd m buf d) \<noteq> Some OutOfFuel"
proof (induction m arbitrary: buf d)
  case 0
  then show ?case by simp
next
  case (Suc m)
  have "fst (readListLoop rd m buf1 d1) \<noteq> Some OutOfFuel" if r: "rd buf d = (None, buf1, d1)" for buf1 d1
  proof -
    obtain c where "c \<noteq> []" "advance c d d1" using reads [OF r] by blast
    then have "length (dr d1) < length (dr d)"
      by (simp add: advance_length)
    then show ?thesis using Suc by simp
  qed
  moreover have "fst (rd buf d) \<noteq> Some OutOfFuel" using enough Suc.prems by blast
  ultimately show ?case
    by (auto split: sum.splits prod.splits option.splits)
qed

lemma readDictLoop_enough:
  "length (dr d) \<le> L \<Longrightarrow> length (dr d) < m \<Longrightarrow> fst (readDictLoop rd m buf d) \<noteq> Some OutOfFuel"
proof (induction m arbitrary: buf d)
  case 0
  then show ?case by simp
next
  case (Suc m)
  have *: "fst (rd buf1 d1) \<noteq> Some OutOfFuel \<and>
      (\<forall>buf2 d2. rd buf1 d1 = (None, buf2, d2) \<longrightarrow> fst (readDictLoop rd m buf2 d2) \<noteq> Some OutOfFuel)"
    if s: "readStringInto buf d = (None, buf1, d1)" for buf1 d1
  proof -
    obtain c where c: "c \<noteq> []" "advance c d d1" using readStringInto_reads [OF s] by blast
    then have len: "length (dr d1) < length (dr d)" by (simp add: advance_length)
    then have "fst (rd buf1 d1) \<noteq> Some OutOfFuel" using enough Suc.prems by simp
    moreover have "fst (readDictLoop rd m buf2 d2) \<noteq> Some OutOfFuel"
      if r: "rd buf1 d1 = (None, buf2, d2)" for buf2 d2
    proof -
      obtain c' where "advance c' d1 d2" using reads [OF r] by blast
      then have "length (dr d2) \<le> length (dr d1)" by (simp add: advance_length)
      then show ?thesis using len Suc by simp
    qed
    ultimately show ?thesis by blast
  qed
  then show ?case
    using readStringInto_no_fuel [of buf d] by (auto split: sum.splits prod.splits option.splits)
qed

lemma readListInto_enough:
  assumes "length (dr d) \<le> Suc L" and "length (dr d) \<le> m"
  shows "fst (readListInto rd m buf d) \<noteq> Some OutOfFuel"
proof (cases "dr d")
  case Nil
  then show ?thesis by (simp add: readListInto_def readByte_def)
next
  case (Cons b rest)
  then show ?thesis
    using assms readListLoop_enough [of "took [b] d" m "bufWrite buf [b]"]
    by (auto simp: readListInto_def readByte_def)
qed

lemma readDictInto_enough:
  assumes "length (dr d) \<le> Suc L" and "length (dr d) \<le> m"
  shows "fst (readDictInto rd m buf d) \<noteq> Some OutOfFuel"
proof (cases "dr d")
  case Nil
  then show ?thesis by (simp add: readDictInto_def readByte_def)
next
  case (Cons b rest)
  then show ?thesis
    using assms readDictLoop_enough [of "took [b] d" m "bufWrite buf [b]"]
    by (auto simp: readDictInto_def readByte_def)
qed

end

lemma fuelled_readValueInto: "fuelled_reader (readValueInto (Suc n)) n"
proof (induction n)
  case 0
  show ?case
    by (intro fuelled_reader.intro value_reader_readValueInto fuelled_reader_axioms.intro)
      (simp add: peekByte_def)
next
  case (Suc n)
  have "fst (readValueInto (Suc (Suc n)) buf d) \<noteq> Some OutOfFuel" if "length (dr d) \<le> Suc n" for buf d
    using that fuelled_reader.readListInto_enough [OF Suc.IH that]
      fuelled_reader.readDictInto_enough [OF Suc.IH that]
    by (subst readValueInto.simps)
      (auto simp: readIntInto_no_fuel readStringInto_no_fuel simp del: readValueInto.simps split: sum.splits)
  then show ?case
    by (intro fuelled_reader.intro value_reader_readValueInto fuelled_reader_axioms.intro)
qed

interpretation raw: value_reader "readValueInto n" for n
  by (rule value_reader_readValueInto)

interpretation raw_total: fuelled_reader "readValueInto (Suc n)" n for n
  by (rule fuelled_readValueInto)

end
