(* ===== verification/Bencode_Spec.thy ===== *)
theory Bencode_Spec
  imports Bencode_Reader
begin

text \<open>
  The abstract specification of the format: a bencode value as a tree and its encoding. The readers
  of \<open>bencode/docode.go\<close> are shown to take exactly such an encoding from the front of the input.
\<close>

section \<open>Abstract values and their encoding\<close>

datatype bval = BInt int | BStr bytes | BList "bval list" | BDict "(bytes \<times> bval) list"

definition bstr :: "bytes \<Rightarrow> bytes" where
  "bstr s = show_nat (length s) @ '':'' @ s"

fun benc :: "bval \<Rightarrow> bytes" where
  "benc (BInt n) = ''i'' @ show_int n @ ''e''"
| "benc (BStr s) = bstr s"
| "benc (BList bs) = ''l'' @ concat (map benc bs) @ ''e''"
| "benc (BDict kvs) = ''d'' @ concat (map (\<lambda>(k, b). bstr k @ benc b) kvs) @ ''e''"

text \<open>
  The values both sides can represent: integers of \<open>int64\<close>, strings whose length the decoder can
  read back (it parses it as an \<open>int32\<close>), and dictionaries with each key once.
\<close>

definition len_ok :: "bytes \<Rightarrow> bool" where
  "len_ok s \<longleftrightarrow> length s < 2 ^ 31"

fun bval_ok :: "bval \<Rightarrow> bool" where
  "bval_ok (BInt n) \<longleftrightarrow> - (2 ^ 63) \<le> n \<and> n < 2 ^ 63"
| "bval_ok (BStr s) \<longleftrightarrow> len_ok s"
| "bval_ok (BList bs) \<longleftrightarrow> list_all bval_ok bs"
| "bval_ok (BDict kvs) \<longleftrightarrow>
     distinct (map fst kvs) \<and> list_all (\<lambda>(k, b). len_ok k \<and> bval_ok b) kvs"

text \<open>Canonical values also have their dictionary keys in order.\<close>

fun canonical :: "bval \<Rightarrow> bool" where
  "canonical (BList bs) \<longleftrightarrow> list_all canonical bs"
| "canonical (BDict kvs) \<longleftrightarrow>
     sorted_wrt (<) (map fst kvs) \<and> list_all (\<lambda>(k, b). canonical b) kvs"
| "canonical b \<longleftrightarrow> True"

section \<open>Where encodings start\<close>

lemma bstr_head: "\<exists>c cs. bstr s = c # cs \<and> is_digit c"
  using hd_show_nat [of "length s"] by (auto simp: bstr_def)

lemma bstr_nonempty [simp]: "bstr s \<noteq> []"
  by (simp add: bstr_def)

lemma benc_nonempty [simp]: "benc b \<noteq> []"
  by (cases b) auto

lemma benc_head: "\<exists>c cs. benc b = c # cs \<and> c \<noteq> CHR ''e''"
  using bstr_head is_digit_neq(2) by (cases b) fastforce+

lemma bstr_append_head: "\<exists>c cs. bstr s @ rest = c # cs \<and> is_digit c \<and> c \<noteq> CHR ''e''"
  using bstr_head [of s] is_digit_neq(2) by fastforce

section \<open>Reading back\<close>

lemma takeWhile_line: "delim \<notin> set l \<Longrightarrow> takeWhile (\<lambda>c. c \<noteq> delim) (l @ delim # rest) = l"
  by (induction l) auto

lemma readBytes_line [wire]:
  "delim \<notin> set l \<Longrightarrow> dr d = l @ delim # rest \<Longrightarrow>
   readBytes delim d = (Inr (l @ [delim]), took (l @ [delim]) d)"
  by (simp add: readBytes_def takeWhile_line Let_def)

lemma peekByte_Cons [wire]: "dr d = c # cs \<Longrightarrow> peekByte d = Inr c"
  by (simp add: peekByte_def)

lemma readByte_Cons [wire]: "dr d = c # cs \<Longrightarrow> readByte d = (Inr c, took [c] d)"
  by (simp add: readByte_def)

lemma readFull_append [wire]:
  "dr d = s @ rest \<Longrightarrow> readFull (length s) d = (Inr s, took s d)"
  by (simp add: readFull_def)

lemma readStringInto_bstr:
  assumes "dr d = bstr s @ rest" and "length s < 2 ^ 63"
  shows "readStringInto buf d = (None, bufWrite buf (bstr s), took (bstr s) d)"
proof -
  let ?l = "show_nat (length s) @ '':''"
  have line: "readBytes (CHR '':'') d = (Inr ?l, took ?l d)"
    using assms(1) show_nat_no_colon by (intro readBytes_line) (simp_all add: bstr_def)
  have "parse_int 64 (show_int (int (length s))) = (None, int (length s))"
    using assms(2) by (intro parse_int_show) simp_all
  then have num: "parse_int 64 (show_nat (length s)) = (None, int (length s))"
    by (simp add: show_int_def)
  have rest: "drop (Suc (length (show_nat (length s)))) (dr d) = s @ rest"
    using assms(1) by (simp add: bstr_def)
  show ?thesis
    by (cases buf) (simp_all add: readStringInto_def line num Let_def readNBytesInto_def discard_def
        rest took_took bstr_def)
qed

lemma readListLoop_frames:
  assumes "\<forall>b \<in> set bs. \<forall>buf d rest. dr d = benc b @ rest \<longrightarrow>
      rd buf d = (None, bufWrite buf (benc b), took (benc b) d)"
    and "dr d = concat (map benc bs) @ ''e'' @ rest" and "length bs < m"
  shows "readListLoop rd m buf d =
    (None, bufWrite buf (concat (map benc bs) @ ''e''), took (concat (map benc bs) @ ''e'') d)"
  using assms
proof (induction bs arbitrary: m buf d)
  case Nil
  then obtain m' where "m = Suc m'" by (cases m) auto
  with Nil show ?case by (simp add: wire)
next
  case (Cons b bs)
  then obtain m' where m: "m = Suc m'" by (cases m) auto
  obtain c cs where head: "benc b = c # cs" "c \<noteq> CHR ''e''" using benc_head by blast
  then have peek: "peekByte d = Inr c" using Cons.prems(2) by (simp add: peekByte_def)
  have rd: "rd buf d = (None, bufWrite buf (benc b), took (benc b) d)"
    using Cons.prems(1,2) by auto
  have "readListLoop rd m' (bufWrite buf (benc b)) (took (benc b) d) =
      (None, bufWrite (bufWrite buf (benc b)) (concat (map benc bs) @ ''e''),
       took (concat (map benc bs) @ ''e'') (took (benc b) d))"
    using Cons.prems m by (intro Cons.IH) auto
  then show ?case using head peek rd by (simp add: m took_took)
qed

lemma readDictLoop_frames:
  assumes "\<forall>(k, b) \<in> set kvs. length k < 2 ^ 63 \<and> (\<forall>buf d rest. dr d = benc b @ rest \<longrightarrow>
      rd buf d = (None, bufWrite buf (benc b), took (benc b) d))"
    and "dr d = concat (map (\<lambda>(k, b). bstr k @ benc b) kvs) @ ''e'' @ rest" and "length kvs < m"
  shows "readDictLoop rd m buf d =
    (None, bufWrite buf (concat (map (\<lambda>(k, b). bstr k @ benc b) kvs) @ ''e''),
     took (concat (map (\<lambda>(k, b). bstr k @ benc b) kvs) @ ''e'') d)"
  using assms
proof (induction kvs arbitrary: m buf d)
  case Nil
  then obtain m' where "m = Suc m'" by (cases m) auto
  with Nil show ?case by (simp add: wire)
next
  case (Cons kv kvs)
  obtain k b where kv: "kv = (k, b)" by fastforce
  obtain m' where m: "m = Suc m'" using Cons.prems by (cases m) auto
  let ?r = "concat (map (\<lambda>(k, b). bstr k @ benc b) kvs) @ ''e''"
  have inp: "dr d = bstr k @ benc b @ ?r @ rest" using Cons.prems(2) kv by simp
  then obtain c where peek: "peekByte d = Inr c" "c \<noteq> CHR ''e''"
    using bstr_append_head [of k "benc b @ ?r @ rest"] by (auto simp: peekByte_def)
  have key: "readStringInto buf d = (None, bufWrite buf (bstr k), took (bstr k) d)"
    using inp Cons.prems(1) kv by (intro readStringInto_bstr) auto
  have "rd (bufWrite buf (bstr k)) (took (bstr k) d) =
      (None, bufWrite (bufWrite buf (bstr k)) (benc b), took (benc b) (took (bstr k) d))"
    using inp Cons.prems(1) kv by auto
  moreover have "readDictLoop rd m' (bufWrite (bufWrite buf (bstr k)) (benc b)) (took (benc b) (took (bstr k) d)) =
      (None, bufWrite (bufWrite (bufWrite buf (bstr k)) (benc b)) ?r,
       took ?r (took (benc b) (took (bstr k) d)))"
    using Cons.prems m inp kv by (intro Cons.IH) auto
  ultimately show ?case using peek key by (simp add: m kv took_took)
qed

lemma length_bs_le: "length bs \<le> length (concat (map benc bs))"
proof (induction bs)
  case (Cons b bs)
  then show ?case by (cases "benc b") auto
qed simp

lemma length_kvs_le: "length kvs \<le> length (concat (map (\<lambda>(k, b). bstr k @ benc b) kvs))"
proof (induction kvs)
  case (Cons kv kvs)
  then show ?case by (cases kv; cases "benc (snd kv)") auto
qed simp

lemma length_elem_le: "x \<in> set xs \<Longrightarrow> length (f x) \<le> length (concat (map f xs))"
  by (induction xs) auto

lemma length_benc_elem: "b \<in> set bs \<Longrightarrow> Suc (length (benc b)) < length (benc (BList bs))"
  using length_elem_le [of b bs benc] by simp

lemma length_benc_entry:
  assumes "(k, b) \<in> set kvs"
  shows "Suc (length (benc b)) < length (benc (BDict kvs))"
  using length_elem_le [OF assms, of "\<lambda>(k, b). bstr k @ benc b"] by simp

text \<open>
  The verbatim reader on a valid encoding: it copies exactly the encoding and stops right behind it,
  whatever follows.
\<close>

lemma readValueInto_benc:
  "bval_ok b \<Longrightarrow> dr d = benc b @ rest \<Longrightarrow> length (benc b) \<le> n \<Longrightarrow>
   readValueInto n buf d = (None, bufWrite buf (benc b), took (benc b) d)"
proof (induction b arbitrary: n buf d rest)
  case (BInt i)
  then obtain m where n: "n = Suc m" by (cases n) auto
  have "readBytes (CHR ''e'') d = (Inr (benc (BInt i)), took (benc (BInt i)) d)"
    using readBytes_line [of "CHR ''e''" "CHR ''i'' # show_int i" d rest] BInt show_int_no_e [of i]
    by simp
  then show ?case using BInt by (simp add: n peekByte_def readIntInto_def)
next
  case (BStr s)
  then obtain m where n: "n = Suc m" by (cases n) auto
  obtain c cs where head: "dr d = c # cs" "is_digit c"
    using bstr_append_head [of s rest] BStr.prems(2) by auto
  have "readStringInto buf d = (None, bufWrite buf (bstr s), took (bstr s) d)"
    using BStr by (intro readStringInto_bstr) (auto simp: len_ok_def)
  then show ?case using head is_digit_neq(5) [of c] by (auto simp: n peekByte_def)
next
  case (BList bs)
  then obtain m where n: "n = Suc m" by (cases n) auto
  have inp: "dr (took ''l'' d) = concat (map benc bs) @ ''e'' @ rest" using BList.prems by simp
  have "readListLoop (readValueInto m) m (bufWrite buf ''l'') (took ''l'' d) =
      (None, bufWrite (bufWrite buf ''l'') (concat (map benc bs) @ ''e''),
       took (concat (map benc bs) @ ''e'') (took ''l'' d))"
  proof (rule readListLoop_frames [OF _ inp])
    show "length bs < m" using BList.prems(3) length_bs_le [of bs] n by simp
    show "\<forall>b \<in> set bs. \<forall>buf d rest. dr d = benc b @ rest \<longrightarrow>
        readValueInto m buf d = (None, bufWrite buf (benc b), took (benc b) d)"
      using BList.IH BList.prems(1,3) length_benc_elem n by (fastforce simp: list_all_iff)
  qed
  then show ?case
    using BList.prems(2) by (simp add: n peekByte_def readListInto_def readByte_def is_digit_def took_took)
next
  case (BDict kvs)
  then obtain m where n: "n = Suc m" by (cases n) auto
  let ?body = "concat (map (\<lambda>(k, b). bstr k @ benc b) kvs)"
  have inp: "dr (took ''d'' d) = ?body @ ''e'' @ rest" using BDict.prems by simp
  have "readDictLoop (readValueInto m) m (bufWrite buf ''d'') (took ''d'' d) =
      (None, bufWrite (bufWrite buf ''d'') (?body @ ''e''), took (?body @ ''e'') (took ''d'' d))"
  proof (rule readDictLoop_frames [OF _ inp])
    show "length kvs < m" using BDict.prems(3) length_kvs_le [of kvs] n by simp
    show "\<forall>(k, b) \<in> set kvs. length k < 2 ^ 63 \<and> (\<forall>buf d rest. dr d = benc b @ rest \<longrightarrow>
        readValueInto m buf d = (None, bufWrite buf (benc b), took (benc b) d))"
      using BDict.IH BDict.prems(1,3) length_benc_entry n
      by (fastforce simp: list_all_iff len_ok_def)
  qed
  then show ?case
    using BDict.prems(2) by (simp add: n peekByte_def readDictInto_def readByte_def is_digit_def took_took)
qed

text \<open>The verbatim reader as a reader of frames on a stream.\<close>

definition raw_frame :: "bytes \<Rightarrow> (bytes \<times> bytes) option" where
  "raw_frame bs =
     (case readValueInto (Suc (length bs)) (Some []) (newDecoder bs) of
        (None, Some b, d) \<Rightarrow> Some (b, dr d)
      | _ \<Rightarrow> None)"

definition valid_frame :: "bytes \<Rightarrow> bool" where
  "valid_frame bs \<longleftrightarrow> (\<exists>b. bval_ok b \<and> bs = benc b)"

lemma raw_frame_benc: "bval_ok b \<Longrightarrow> raw_frame (benc b @ rest) = Some (benc b, rest)"
  using readValueInto_benc [of b "newDecoder (benc b @ rest)" rest "Suc (length (benc b @ rest))" "Some []"]
  by (simp add: raw_frame_def newDecoder_def del: readValueInto.simps)

interpretation raw_frames: framing id raw_frame valid_frame
  by unfold_locales (auto simp: valid_frame_def raw_frame_benc)

lemma benc_unambiguous:
  "bval_ok b \<Longrightarrow> bval_ok b' \<Longrightarrow> benc b @ r = benc b' @ s \<Longrightarrow> benc b = benc b' \<and> r = s"
  using raw_frames.unambiguous [of "benc b" "benc b'" r s] by (auto simp: valid_frame_def)

end
