(* ===== verification/Bencode_Tags.thy ===== *)
theory Bencode_Tags
  imports Btlet_Prelude
begin

text \<open>\<open>bencode/tags.go\<close>: the struct tag \<open>bencode:"name,opt,..."\<close>.\<close>

text \<open>\<open>strings.Split(tag, ",")\<close>\<close>

fun split_comma :: "string \<Rightarrow> string list" where
  "split_comma [] = [[]]"
| "split_comma (c # cs) =
     (if c = CHR '','' then [] # split_comma cs
      else (case split_comma cs of p # ps \<Rightarrow> (c # p) # ps | [] \<Rightarrow> [[c]]))"

type_synonym tag_options = "string list"

definition parseTag :: "string \<Rightarrow> string \<times> tag_options" where
  "parseTag tag =
     (let x = split_comma tag in
      if length x = 1 then (if x ! 0 = ''-'' then ([], [''-'']) else (x ! 0, []))
      else (x ! 0, drop 1 x))"

fun hasOpt :: "tag_options \<Rightarrow> string \<Rightarrow> bool" where
  "hasOpt [] opt = False"
| "hasOpt (o1 # opts) opt = (if o1 = opt then True else hasOpt opts opt)"

definition ignored :: "tag_options \<Rightarrow> bool" where
  "ignored opts = hasOpt opts ''-''"

definition omitEmpty :: "tag_options \<Rightarrow> bool" where
  "omitEmpty opts = hasOpt opts ''omitempty''"

lemma hasOpt_iff [simp]: "hasOpt opts opt \<longleftrightarrow> opt \<in> set opts"
  by (induction opts) auto

lemma split_comma_nonempty [simp]: "split_comma s \<noteq> []"
  by (induction s) (auto split: list.splits)

lemma split_comma_no_comma: "p \<in> set (split_comma s) \<Longrightarrow> CHR '','' \<notin> set p"
  by (induction s arbitrary: p) (auto split: if_splits list.splits)

text \<open>Joining the parts with commas (\<open>strings.Join\<close>) gives the tag back.\<close>

fun join_with :: "'a list \<Rightarrow> 'a list list \<Rightarrow> 'a list" where
  "join_with sep [] = []"
| "join_with sep [p] = p"
| "join_with sep (p # ps) = p @ sep @ join_with sep ps"

lemma join_split: "join_with '','' (split_comma s) = s"
proof (induction s)
  case (Cons c cs)
  obtain p ps where "split_comma cs = p # ps" by (cases "split_comma cs") auto
  with Cons show ?case by (cases ps) auto
qed simp

lemma split_comma_plain: "CHR '','' \<notin> set s \<Longrightarrow> split_comma s = [s]"
  by (induction s) auto

text \<open>A tag without a comma is a name, except for the tag that hides the field.\<close>

lemma parseTag_plain: "CHR '','' \<notin> set s \<Longrightarrow> s \<noteq> ''-'' \<Longrightarrow> parseTag s = (s, [])"
  by (simp add: parseTag_def split_comma_plain)

lemma parseTag_parts:
  assumes "CHR '','' \<in> set tag"
  shows "join_with '','' (fst (parseTag tag) # snd (parseTag tag)) = tag"
proof -
  have "length (split_comma tag) \<noteq> 1"
  proof
    assume "length (split_comma tag) = 1"
    then obtain p where "split_comma tag = [p]" by (cases "split_comma tag") auto
    with join_split [of tag] split_comma_no_comma [of p tag] assms show False by simp
  qed
  then have "fst (parseTag tag) # snd (parseTag tag) = split_comma tag"
    by (cases "split_comma tag") (auto simp: parseTag_def Let_def)
  then show ?thesis by (simp only: join_split)
qed

end
