(* ===== verification/Bencode_Decode.thy ===== *)
theory Bencode_Decode
  imports Bencode_Spec Bencode_Tags
begin

text \<open>
  \<open>Decoder.Decode\<close> of \<open>bencode/docode.go\<close>: decoding into a Go value of a given type. Every
  operation takes the type and the current value of its target and returns how it ended, the value
  the target has then (also after an error: the code mutates it as it goes), and the decoder.
\<close>

section \<open>The methods of named types\<close>

text \<open>
  The interfaces \<open>Unmarshaler\<close>, \<open>Marshaler\<close>, \<open>encoding.TextUnmarshaler\<close> and
  \<open>encoding.TextMarshaler\<close>: which of their methods a named type has, and whether a marshalling
  method is declared on the pointer type (its receiver is then \<^const>\<open>None\<close> for a nil pointer). User
  types may implement them, so the table is a parameter.
\<close>

record methods =
  unmarshal :: "(goval \<Rightarrow> bytes \<Rightarrow> abort option \<times> goval) option"
  unmarshal_text :: "(goval \<Rightarrow> bytes \<Rightarrow> abort option \<times> goval) option"
  marshal :: "(goval option \<Rightarrow> abort + bytes) option"
  marshal_on_ptr :: bool
  marshal_text :: "(goval option \<Rightarrow> abort + bytes) option"
  marshal_text_on_ptr :: bool

type_synonym env = "string \<Rightarrow> methods"

definition no_methods :: methods where
  "no_methods = \<lparr>unmarshal = None, unmarshal_text = None, marshal = None, marshal_on_ptr = False,
     marshal_text = None, marshal_text_on_ptr = False\<rparr>"

fun method_of :: "(methods \<Rightarrow> 'm option) \<Rightarrow> env \<Rightarrow> gotype \<Rightarrow> 'm option" where
  "method_of sel E (TNamed nm t) = sel (E nm)"
| "method_of sel E t = None"

section \<open>Scalars\<close>

type_synonym dec_fn = "gotype \<Rightarrow> goval \<Rightarrow> decoder \<Rightarrow> abort option \<times> goval \<times> decoder"

definition type_error :: "string \<Rightarrow> gotype \<Rightarrow> decoder \<Rightarrow> abort option" where
  "type_error what t d = Some (Err (UnmarshalTypeError what t (doffset d)))"

text \<open>
  The switch on \<open>val.Kind()\<close> in \<open>decodeInt\<close>. \<open>SetInt\<close> and \<open>SetUint\<close> keep the low bits
  that fit the width of the target.
\<close>

definition setInt :: "gotype \<Rightarrow> goval \<Rightarrow> bytes \<Rightarrow> decoder \<Rightarrow> abort option \<times> goval" where
  "setInt t v digits d =
     (case under t of
        TIface \<Rightarrow>
          (case parse_int 64 digits of
             (Some e, _) \<Rightarrow> (Some (Err (NumError e)), v)
           | (None, n) \<Rightarrow> (None, VIface (Some (TInt 64, VInt n))))
      | TInt w \<Rightarrow>
          (case parse_int 64 digits of
             (Some e, _) \<Rightarrow> (Some (Err (NumError e)), v)
           | (None, n) \<Rightarrow> (None, VInt (signed_take_bit (w - 1) n)))
      | TUint w \<Rightarrow>
          (case parse_uint 64 digits of
             (Some e, _) \<Rightarrow> (Some (Err (NumError e)), v)
           | (None, n) \<Rightarrow> (None, VUint (take_bit w n)))
      | TBool \<Rightarrow>
          (case parse_uint 64 digits of
             (Some e, _) \<Rightarrow> (Some (Err (NumError e)), v)
           | (None, n) \<Rightarrow> (None, VBool (n \<noteq> 0)))
      | _ \<Rightarrow> (type_error ''integer'' t d, v))"

definition decodeInt :: dec_fn where
  "decodeInt t v d =
     (case readByte d of
        (Inl e, d1) \<Rightarrow> (Some (Err e), v, d1)
      | (Inr ch, d1) \<Rightarrow>
          (if ch \<noteq> CHR ''i'' then (Some (Panic ''got not an i when peek returned an i''), v, d1)
           else (case readBytes (CHR ''e'') d1 of
              (Inl e, d2) \<Rightarrow> (Some (Err e), v, d2)
            | (Inr line, d2) \<Rightarrow> (case setInt t v (butlast line) d2 of (r, x) \<Rightarrow> (r, x, d2)))))"

text \<open>The switch on \<open>val.Kind()\<close> in \<open>decodeString\<close>: of the slices only \<open>[]byte\<close> itself will do.\<close>

definition setString :: "gotype \<Rightarrow> goval \<Rightarrow> bytes \<Rightarrow> decoder \<Rightarrow> abort option \<times> goval" where
  "setString t v buf d =
     (case under t of
        TSlice t' \<Rightarrow>
          (if t \<noteq> byte_slice then (type_error ''string'' t d, v)
           else (None, VSlice (Some (of_bytes buf))))
      | TString \<Rightarrow> (None, VString buf)
      | TIface \<Rightarrow> (None, VIface (Some (TString, VString buf)))
      | _ \<Rightarrow> (type_error ''string'' t d, v))"

definition decodeString :: dec_fn where
  "decodeString t v d =
     (case readBytes (CHR '':'') d of
        (Inl e, d1) \<Rightarrow> (Some (Err e), v, d1)
      | (Inr line, d1) \<Rightarrow>
          (case parse_int 32 (butlast line) of
             (Some e, _) \<Rightarrow> (Some (Err (NumError e)), v, d1)
           | (None, l) \<Rightarrow>
               (if l < 0 then (Some (Err (SyntaxError (NegativeLength l) (doffset d1))), v, d1)
                else (case readFull (nat l) d1 of
                   (Inl e, d2) \<Rightarrow> (Some (Err e), v, d2)
                 | (Inr buf, d2) \<Rightarrow> (case setString t v buf d2 of (r, x) \<Rightarrow> (r, x, d2))))))"

section \<open>Lists\<close>

text \<open>
  The loop of \<open>decodeList\<close>: \<open>dec\<close> decodes an element, \<open>skip\<close> reads over one that no longer fits
  an array, \<open>m\<close> bounds the rounds, \<open>i\<close> is the loop counter. A slice is only cut to length 0 when
  there is a first element.
\<close>

primrec decodeListLoop :: "dec_fn \<Rightarrow> raw_reader \<Rightarrow> nat \<Rightarrow> nat \<Rightarrow> dec_fn" where
  "decodeListLoop dec skip 0 = (\<lambda>i t v d. (Some OutOfFuel, v, d))"
| "decodeListLoop dec skip (Suc m) = (\<lambda>i t v d.
     (case peekByte d of
        Inl e \<Rightarrow> (Some (Err e), v, d)
      | Inr ch \<Rightarrow>
          (if ch = CHR ''e'' then
             (case readByte d of
                (Inl e, d1) \<Rightarrow> (Some (Err e), v, d1)
              | (Inr _, d1) \<Rightarrow> (None, v, d1))
           else
             (case (under t, v) of
                (TArray k t', VArray vs) \<Rightarrow>
                  (if i < k then
                     (case dec t' (vs ! i) d of
                        (Some e, x, d1) \<Rightarrow> (Some e, VArray (vs[i := x]), d1)
                      | (None, x, d1) \<Rightarrow>
                          decodeListLoop dec skip m (Suc i) t (VArray (vs[i := x])) d1)
                   else
                     (case skip None d of
                        (Some e, _, d1) \<Rightarrow> (Some e, v, d1)
                      | (None, _, d1) \<Rightarrow> decodeListLoop dec skip m (Suc i) t v d1))
              | (TSlice t', VSlice vs) \<Rightarrow>
                  (let vs0 = (if i = 0 then map_option (\<lambda>_. []) vs else vs) in
                   case dec t' (zero t') d of
                     (Some e, _, d1) \<Rightarrow> (Some e, VSlice vs0, d1)
                   | (None, x, d1) \<Rightarrow>
                       decodeListLoop dec skip m (Suc i) t
                         (VSlice (Some ((case vs0 of None \<Rightarrow> [] | Some xs \<Rightarrow> xs) @ [x]))) d1)
              | _ \<Rightarrow> (Some (Panic ''reflect: value of another type''), v, d)))))"

definition decodeSeq :: "dec_fn \<Rightarrow> raw_reader \<Rightarrow> nat \<Rightarrow> dec_fn" where
  "decodeSeq dec skip m t v d =
     (if (case under t of TArray k t' \<Rightarrow> False | TSlice t' \<Rightarrow> False | _ \<Rightarrow> True)
      then (type_error ''list'' t d, v, d)
      else (case readByte d of
              (Inl e, d1) \<Rightarrow> (Some (Err e), v, d1)
            | (Inr ch, d1) \<Rightarrow>
                (if ch \<noteq> CHR ''l''
                 then (Some (Panic ''got something other than a list head after a peek''), v, d1)
                 else decodeListLoop dec skip m 0 t v d1)))"

text \<open>
  An interface target is replaced by a fresh \<open>[]interface{}\<close>, which the deferred \<open>p.Set(val)\<close>
  stores on every way out.
\<close>

definition decodeList :: "dec_fn \<Rightarrow> raw_reader \<Rightarrow> nat \<Rightarrow> dec_fn" where
  "decodeList dec skip m t v d =
     (if under t = TIface then
        (case decodeSeq dec skip m (TSlice TIface) (VSlice None) d of
           (r, x, d1) \<Rightarrow> (r, VIface (Some (TSlice TIface, x)), d1))
      else decodeSeq dec skip m t v d)"

section \<open>Struct fields\<close>

text \<open>
  A place inside a struct value: field indices from the outside in, through the pointers of embedded
  structs. \<open>wrapStruct2Map\<close> collects the place and type of every field a key may name.
\<close>

type_synonym place = "nat list"
type_synonym field_map = "(string, place \<times> gotype) gomap"

fun get_at :: "place \<Rightarrow> goval \<Rightarrow> goval" where
  "get_at [] v = v"
| "get_at (i # is) (VStruct vs) = get_at is (vs ! i)"
| "get_at (i # is) (VPtr (Some v)) = get_at (i # is) v"
| "get_at (i # is) v = v"

fun set_at :: "place \<Rightarrow> goval \<Rightarrow> goval \<Rightarrow> goval" where
  "set_at [] x v = x"
| "set_at (i # is) x (VStruct vs) = VStruct (vs[i := set_at is x (vs ! i)])"
| "set_at (i # is) x (VPtr (Some v)) = VPtr (Some (set_at (i # is) x v))"
| "set_at (i # is) x v = v"

text \<open>The second loop of \<open>wrapStruct2Map\<close>: the fields of this struct, by tag or name.\<close>

fun wrapFields :: "(field_info \<times> gotype) list \<Rightarrow> nat \<Rightarrow> place \<Rightarrow> field_map \<Rightarrow> field_map" where
  "wrapFields [] i p m = m"
| "wrapFields ((f, t) # fs) i p m =
     wrapFields fs (Suc i) p
       (if \<not> fld_exported f then m
        else if fld_anonymous f \<and> fld_tag f = None then m
        else (case fld_tag f of
                None \<Rightarrow> AList.update (fld_name f) (p @ [i], t) m
              | Some tag \<Rightarrow>
                  (case parseTag tag of
                     (key, opts) \<Rightarrow>
                       (if ignored opts then m
                        else AList.update (if key \<noteq> [] then key else fld_name f) (p @ [i], t) m))))"

lemma size_under: "size (under t) \<le> size t"
  by (induction t rule: under.induct) auto

lemma size_deref: "size (deref t) \<le> size t"
  using size_under [of t] by (auto simp: deref_def split: gotype.splits)

lemma size_under_struct: "under t = TStruct fs \<Longrightarrow> size_list (size_prod (\<lambda>_. 0) size) fs < size t"
  using size_under [of t] by simp

text \<open>
  \<open>wrapStruct2Map\<close> and its first loop, over the embedded structs. A nil pointer to one is
  allocated, and \<open>v = v.Elem()\<close> goes on behind the pointer. An embedded field that is no struct
  makes \<open>NumField\<close> panic.
\<close>

definition pointee :: "gotype \<Rightarrow> goval \<Rightarrow> goval" where
  "pointee t v =
     (case under t of
        TPtr t' \<Rightarrow> (case v of VPtr (Some x) \<Rightarrow> x | _ \<Rightarrow> zero t')
      | _ \<Rightarrow> v)"

definition repoint :: "gotype \<Rightarrow> goval \<Rightarrow> goval" where
  "repoint t x = (case under t of TPtr t' \<Rightarrow> VPtr (Some x) | _ \<Rightarrow> x)"

function wrapStruct2Map :: "gotype \<Rightarrow> goval \<Rightarrow> place \<Rightarrow> field_map \<Rightarrow> string + goval \<times> field_map"
  and wrapEmbedded :: "(field_info \<times> gotype) list \<Rightarrow> goval list \<Rightarrow> nat \<Rightarrow> place \<Rightarrow> field_map \<Rightarrow>
    string + goval list \<times> field_map" where
  "wrapStruct2Map t v p m =
     (case under t of
        TStruct fs \<Rightarrow>
          (case v of
             VStruct vs \<Rightarrow>
               (case wrapEmbedded fs vs 0 p m of
                  Inl msg \<Rightarrow> Inl msg
                | Inr (vs', m') \<Rightarrow> Inr (VStruct vs', wrapFields fs 0 p m'))
           | _ \<Rightarrow> Inl ''reflect: value of another type'')
      | _ \<Rightarrow> Inl ''reflect: call of NumField on a value that is no struct'')"
| "wrapEmbedded [] vs i p m = Inr (vs, m)"
| "wrapEmbedded (ft # fs) [] i p m = Inr ([], m)"
| "wrapEmbedded (ft # fs) (v # vs) i p m =
     (if fld_exported (fst ft) \<and> fld_anonymous (fst ft) \<and>
         (fld_tag (fst ft) = None \<or> fld_tag (fst ft) = Some [])
      then (case wrapStruct2Map (deref (snd ft)) (pointee (snd ft) v) (p @ [i]) m of
              Inl msg \<Rightarrow> Inl msg
            | Inr (x, m') \<Rightarrow>
                (case wrapEmbedded fs vs (Suc i) p m' of
                   Inl msg \<Rightarrow> Inl msg
                 | Inr (vs', m'') \<Rightarrow> Inr (repoint (snd ft) x # vs', m'')))
      else (case wrapEmbedded fs vs (Suc i) p m of
              Inl msg \<Rightarrow> Inl msg
            | Inr (vs', m') \<Rightarrow> Inr (v # vs', m')))"
  by pat_completeness auto
termination
  by (relation "measure (case_sum (\<lambda>(t, v, p, m). size t)
        (\<lambda>(fs, vs, i, p, m). size_list (size_prod (\<lambda>_. 0) size) fs))")
    (auto simp: size_under_struct less_Suc_eq_le intro: trans_le_add1 le_trans [OF size_deref])

declare wrapStruct2Map.simps [simp del]

section \<open>Dictionaries\<close>

text \<open>Where the entries go: into a map with elements of a type, or into the fields of a struct.\<close>

datatype dict_target = IntoMap gotype | IntoStruct field_map

definition note_unordered :: "bytes \<Rightarrow> bytes \<Rightarrow> decoder \<Rightarrow> decoder" where
  "note_unordered lastKey key d =
     (if disallowUnorderedKeys d \<and> lastKey > key \<and> unorderedKeysErr d = None
      then d\<lparr>unorderedKeysErr := Some (SyntaxError (UnorderedDict lastKey key) (doffset d))\<rparr>
      else d)"

definition note_unknown :: "bytes \<Rightarrow> decoder \<Rightarrow> decoder" where
  "note_unknown key d =
     (if disallowUnknownFields d \<and> unknownFieldsErr d = None
      then d\<lparr>unknownFieldsErr := Some (SyntaxError (UnknownField key) (doffset d))\<rparr>
      else d)"

definition map_set :: "bytes \<Rightarrow> goval \<Rightarrow> goval \<Rightarrow> goval" where
  "map_set key x v =
     (case v of VMap (Some kvs) \<Rightarrow> VMap (Some (AList.update key x kvs)) | _ \<Rightarrow> v)"

primrec decodeDictLoop :: "dec_fn \<Rightarrow> raw_reader \<Rightarrow> dict_target \<Rightarrow> nat \<Rightarrow> bytes \<Rightarrow> goval \<Rightarrow> decoder \<Rightarrow>
    abort option \<times> goval \<times> decoder" where
  "decodeDictLoop dec skip tgt 0 = (\<lambda>lastKey v d. (Some OutOfFuel, v, d))"
| "decodeDictLoop dec skip tgt (Suc m) = (\<lambda>lastKey v d.
     (case peekByte d of
        Inl e \<Rightarrow> (Some (Err e), v, d)
      | Inr ch \<Rightarrow>
          (if ch = CHR ''e'' then
             (case readByte d of
                (Inl e, d1) \<Rightarrow> (Some (Err e), v, d1)
              | (Inr _, d1) \<Rightarrow> (None, v, d1))
           else
             (case decodeString TString (VString []) d of
                (Some e, _, d1) \<Rightarrow> (Some e, v, d1)
              | (None, k, d1) \<Rightarrow>
                  (let key = (case k of VString s \<Rightarrow> s | _ \<Rightarrow> []);
                       d2 = note_unordered lastKey key d1
                   in case tgt of
                        IntoMap t' \<Rightarrow>
                          (case dec t' (zero t') d2 of
                             (Some e, _, d3) \<Rightarrow> (Some e, v, d3)
                           | (None, x, d3) \<Rightarrow>
                               decodeDictLoop dec skip tgt m key (map_set key x v) d3)
                      | IntoStruct fm \<Rightarrow>
                          (case map_of fm key of
                             None \<Rightarrow>
                               (case skip None (note_unknown key d2) of
                                  (Some e, _, d3) \<Rightarrow> (Some e, v, d3)
                                | (None, _, d3) \<Rightarrow> decodeDictLoop dec skip tgt m key v d3)
                           | Some (p, t') \<Rightarrow>
                               (case dec t' (get_at p v) d2 of
                                  (Some e, x, d3) \<Rightarrow> (Some e, set_at p x v, d3)
                                | (None, x, d3) \<Rightarrow>
                                    decodeDictLoop dec skip tgt m key (set_at p x v) d3)))))))"

definition decodeObj :: "dec_fn \<Rightarrow> raw_reader \<Rightarrow> nat \<Rightarrow> dec_fn" where
  "decodeObj dec skip m t v d =
     (case readByte d of
        (Inl e, d1) \<Rightarrow> (Some (Err e), v, d1)
      | (Inr ch, d1) \<Rightarrow>
          (if ch \<noteq> CHR ''d''
           then (Some (Panic ''got an incorrect token when it was checked already''), v, d1)
           else (case under t of
                   TMap kt t' \<Rightarrow>
                     (if kt \<noteq> TString then (type_error ''dict'' t d1, v, d1)
                      else decodeDictLoop dec skip (IntoMap t') m []
                             (case v of VMap (Some kvs) \<Rightarrow> v | _ \<Rightarrow> VMap (Some [])) d1)
                 | TStruct fs \<Rightarrow>
                     (case wrapStruct2Map t v [] [] of
                        Inl msg \<Rightarrow> (Some (Panic msg), v, d1)
                      | Inr (v', fm) \<Rightarrow> decodeDictLoop dec skip (IntoStruct fm) m [] v' d1)
                 | _ \<Rightarrow> (type_error ''dict'' t d1, v, d1))))"

definition decodeDict :: "dec_fn \<Rightarrow> raw_reader \<Rightarrow> nat \<Rightarrow> dec_fn" where
  "decodeDict dec skip m t v d =
     (if under t = TIface then
        (case decodeObj dec skip m (TMap TString TIface) (VMap None) d of
           (r, x, d1) \<Rightarrow> (r, VIface (Some (TMap TString TIface, x)), d1))
      else decodeObj dec skip m t v d)"

section \<open>Values\<close>

text \<open>
  The loop at the head of \<open>decode\<close>: it follows pointers, also one held by an interface, and
  allocates where it meets nil. \<open>k\<close> decodes into what it arrives at.
\<close>

fun follow_new :: "dec_fn \<Rightarrow> gotype \<Rightarrow> decoder \<Rightarrow> abort option \<times> goval \<times> decoder" where
  "follow_new k (TPtr t) d = (case follow_new k t d of (r, x, d1) \<Rightarrow> (r, VPtr (Some x), d1))"
| "follow_new k t d = k t (zero t) d"

function follow :: "dec_fn \<Rightarrow> dec_fn" where
  "follow k t v d =
     (case (t, v) of
        (TPtr t', VPtr (Some x)) \<Rightarrow>
          (case follow k t' x d of (r, y, d1) \<Rightarrow> (r, VPtr (Some y), d1))
      | (TPtr t', _) \<Rightarrow> follow_new k t d
      | (TIface, VIface (Some (TPtr t', VPtr (Some x)))) \<Rightarrow>
          (case follow k t' x d of (r, y, d1) \<Rightarrow> (r, VIface (Some (TPtr t', VPtr (Some y))), d1))
      | _ \<Rightarrow> k t v d)"
  by pat_completeness auto
termination
  by (relation "measure (\<lambda>(k, t, v, d). size v)") auto

declare follow.simps [simp del]

lemma follow_simps [simp]:
  "follow k (TPtr t) (VPtr (Some v)) d =
     (case follow k t v d of (r, x, d1) \<Rightarrow> (r, VPtr (Some x), d1))"
  "follow k (TPtr t) (VPtr None) d = follow_new k (TPtr t) d"
  "follow k TIface (VIface (Some (TPtr t, VPtr (Some v)))) d =
     (case follow k t v d of (r, x, d1) \<Rightarrow> (r, VIface (Some (TPtr t, VPtr (Some x))), d1))"
  "follow k TIface (VIface None) d = k TIface (VIface None) d"
  by (simp_all add: follow.simps)

lemma follow_direct [simp]:
  "(\<forall>t'. t \<noteq> TPtr t') \<Longrightarrow> t \<noteq> TIface \<Longrightarrow> follow k t v d = k t v d"
  by (cases t) (simp_all add: follow.simps)

text \<open>
  The rest of \<open>decode\<close>, at a target that is no pointer: its own \<open>UnmarshalBencode\<close> or
  \<open>UnmarshalText\<close>, or by the first byte of the value.
\<close>

definition decodeAt :: "env \<Rightarrow> dec_fn \<Rightarrow> nat \<Rightarrow> dec_fn" where
  "decodeAt E dec n t v d =
     (case method_of unmarshal E t of
        Some f \<Rightarrow>
          (case readValueInto (Suc n) (Some []) d of
             (Some e, _, d1) \<Rightarrow> (Some e, v, d1)
           | (None, buf, d1) \<Rightarrow>
               (case f v (case buf of Some b \<Rightarrow> b | None \<Rightarrow> []) of (r, x) \<Rightarrow> (r, x, d1)))
      | None \<Rightarrow>
     (case method_of unmarshal_text E t of
        Some f \<Rightarrow>
          (case decodeString byte_slice (VSlice None) d of
             (Some e, _, d1) \<Rightarrow> (Some e, v, d1)
           | (None, buf, d1) \<Rightarrow>
               (case f v (case buf of VSlice (Some b) \<Rightarrow> to_bytes b | _ \<Rightarrow> []) of (r, x) \<Rightarrow> (r, x, d1)))
      | None \<Rightarrow>
     (case peekByte d of
        Inl e \<Rightarrow> (Some (Err e), v, d)
      | Inr next_ch \<Rightarrow>
          (if next_ch = CHR ''i'' then decodeInt t v d
           else if is_digit next_ch then decodeString t v d
           else if next_ch = CHR ''l'' then decodeList dec (readValueInto n) n t v d
           else if next_ch = CHR ''d'' then decodeDict dec (readValueInto n) n t v d
           else (Some (Err (SyntaxError InvalidInput (doffset d))), v, d)))))"

primrec decode :: "env \<Rightarrow> nat \<Rightarrow> dec_fn" where
  "decode E 0 = (\<lambda>t v d. (Some OutOfFuel, v, d))"
| "decode E (Suc n) = follow (decodeAt E (decode E n) n)"

text \<open>
  \<open>Decode\<close> and \<open>Unmarshal\<close>. The argument is an interface value, normally a pointer; the fuel is the
  length of the input, which every level of nesting and every round of a loop shortens.
\<close>

definition late_error :: "decoder \<Rightarrow> abort option" where
  "late_error d =
     (case unknownFieldsErr d of Some e \<Rightarrow> Some (Err e)
      | None \<Rightarrow> (case unorderedKeysErr d of Some e \<Rightarrow> Some (Err e) | None \<Rightarrow> None))"

definition decodeInto :: "env \<Rightarrow> dec_fn" where
  "decodeInto E t v d =
     (case decode E (Suc (length (dr d))) t v d of
        (Some e, x, d1) \<Rightarrow> (Some e, x, d1)
      | (None, x, d1) \<Rightarrow> (late_error d1, x, d1))"

definition Decode :: "env \<Rightarrow> (gotype \<times> goval) option \<Rightarrow> decoder \<Rightarrow>
    abort option \<times> (gotype \<times> goval) option \<times> decoder" where
  "Decode E arg d =
     (case arg of
        Some (TPtr t, VPtr (Some v)) \<Rightarrow>
          (case decodeInto E t v d of (r, x, d1) \<Rightarrow> (r, Some (TPtr t, VPtr (Some x)), d1))
      | _ \<Rightarrow> (Some (Err (InvalidUnmarshalError (map_option fst arg))), arg, d))"

definition Unmarshal :: "env \<Rightarrow> bytes \<Rightarrow> (gotype \<times> goval) option \<Rightarrow>
    abort option \<times> (gotype \<times> goval) option" where
  "Unmarshal E data arg = (case Decode E arg (newDecoder data) of (r, arg', d) \<Rightarrow> (r, arg'))"

text \<open>\<open>Unmarshal(data, &x)\<close> for a variable \<open>x\<close> of type \<open>t\<close>.\<close>

definition unmarshal_var :: "env \<Rightarrow> bytes \<Rightarrow> gotype \<Rightarrow> goval \<Rightarrow> abort option \<times> goval" where
  "unmarshal_var E data t v = (case decodeInto E t v (newDecoder data) of (r, x, d) \<Rightarrow> (r, x))"

lemma Unmarshal_var:
  "Unmarshal E data (Some (TPtr t, VPtr (Some v))) =
     (case unmarshal_var E data t v of (r, x) \<Rightarrow> (r, Some (TPtr t, VPtr (Some x))))"
  by (simp add: Unmarshal_def Decode_def unmarshal_var_def split: prod.splits)

end
