(* ===== verification/Decode_Facts.thy ===== *)
theory Decode_Facts
  imports Bencode_Decode
begin

text \<open>
  What \<open>decode\<close> promises whatever the input: it counts exactly the bytes it consumes, it always
  ends (the fuel \<open>Decode\<close> passes is enough), and its target keeps its type. The loops of
  \<open>decodeList\<close> and \<open>decodeDict\<close> are proved against contracts of the decoder they call for an
  element; \<open>decode\<close> is then shown to meet the contracts itself.
\<close>

section \<open>Consumption\<close>

lemma decodeInt_advance:
  assumes "decodeInt t v d = (None, v', d')"
  shows "\<exists>c. c \<noteq> [] \<and> advance c d d'"
proof -
  obtain ch d1 line where 1: "readByte d = (Inr ch, d1)" and 2: "readBytes (CHR ''e'') d1 = (Inr line, d')"
    using assms
    by (auto simp: decodeInt_def split: prod.splits sum.splits if_splits)
  from advance_trans [OF readByte_advance [OF 1] readBytes_advance(1) [OF 2]]
  show ?thesis by blast
qed

lemma decodeString_advance:
  assumes "decodeString t v d = (None, v', d')"
  shows "\<exists>c. c \<noteq> [] \<and> advance c d d'"
proof -
  obtain line d1 l data where 1: "readBytes (CHR '':'') d = (Inr line, d1)"
    and 2: "readFull l d1 = (Inr data, d')"
    using assms
    by (auto simp: decodeString_def split: prod.splits sum.splits if_splits option.splits)
  show ?thesis
    using advance_trans [OF readBytes_advance(1) [OF 1]] readFull_advance [OF 2] readBytes_advance(2) [OF 1]
    by blast
qed

lemma note_unordered_sel [simp]:
  "dr (note_unordered l k d) = dr d" "doffset (note_unordered l k d) = doffset d"
  "disallowUnknownFields (note_unordered l k d) = disallowUnknownFields d"
  "disallowUnorderedKeys (note_unordered l k d) = disallowUnorderedKeys d"
  "unknownFieldsErr (note_unordered l k d) = unknownFieldsErr d"
  by (simp_all add: note_unordered_def)

lemma note_unknown_sel [simp]:
  "dr (note_unknown k d) = dr d" "doffset (note_unknown k d) = doffset d"
  "disallowUnknownFields (note_unknown k d) = disallowUnknownFields d"
  "disallowUnorderedKeys (note_unknown k d) = disallowUnorderedKeys d"
  "unorderedKeysErr (note_unknown k d) = unorderedKeysErr d"
  by (simp_all add: note_unknown_def)

lemma advance_note [simp]:
  "advance c (note_unordered l k d) d' = advance c d d'"
  "advance c (note_unknown k d) d' = advance c d d'"
  by (simp_all add: advance_def)

locale value_decoder = value_reader skip for skip :: raw_reader +
  fixes dec :: dec_fn
  assumes consumes: "dec t v d = (None, v', d') \<Longrightarrow> \<exists>c. c \<noteq> [] \<and> advance c d d'"
begin

lemma loop_end: "dr d = CHR ''e'' # rest \<Longrightarrow> readByte d = (Inr b, d') \<Longrightarrow> \<exists>c. c \<noteq> [] \<and> advance c d d'"
  using readByte_advance by blast

lemma decodeListLoop_advance:
  "decodeListLoop dec skip m i t v d = (None, v', d') \<Longrightarrow> \<exists>c. c \<noteq> [] \<and> advance c d d'"
proof (induction m arbitrary: i v d)
  case 0
  then show ?case by simp
next
  case (Suc m)
  then consider (stop) b where "readByte d = (Inr b, d')"
    | (elem) t' x y d1 j w where "dec t' x d = (None, y, d1)" "decodeListLoop dec skip m j t w d1 = (None, v', d')"
    | (skip) b d1 j w where "skip None d = (None, b, d1)" "decodeListLoop dec skip m j t w d1 = (None, v', d')"
    by (auto simp: Let_def split: sum.splits prod.splits if_splits option.splits gotype.splits goval.splits)
  then show ?case
  proof cases
    case stop
    then show ?thesis using readByte_advance by blast
  next
    case elem
    from consumes [OF elem(1)] Suc.IH [OF elem(2)] show ?thesis
      using advance_trans by blast
  next
    case skip
    from reads [OF skip(1)] Suc.IH [OF skip(2)] show ?thesis
      using advance_trans by blast
  qed
qed

lemma decodeDictLoop_advance:
  "decodeDictLoop dec skip tgt m lk v d = (None, v', d') \<Longrightarrow> \<exists>c. c \<noteq> [] \<and> advance c d d'"
proof (induction m arbitrary: lk v d)
  case 0
  then show ?case by simp
next
  case (Suc m)
  then consider (stop) b where "readByte d = (Inr b, d')"
    | (elem) k d1 l t' x y d2 l' w where "decodeString TString (VString []) d = (None, k, d1)"
        "dec t' x (note_unordered lk l d1) = (None, y, d2)"
        "decodeDictLoop dec skip tgt m l' w d2 = (None, v', d')"
    | (skip) k d1 l b d2 l' w where "decodeString TString (VString []) d = (None, k, d1)"
        "skip None (note_unknown l (note_unordered lk l d1)) = (None, b, d2)"
        "decodeDictLoop dec skip tgt m l' w d2 = (None, v', d')"
    by (auto simp: Let_def split: sum.splits prod.splits if_splits option.splits dict_target.splits)
  then show ?case
  proof cases
    case stop
    then show ?thesis using readByte_advance by blast
  next
    case elem
    obtain c0 where c0: "c0 \<noteq> []" "advance c0 d d1" using decodeString_advance [OF elem(1)] by blast
    obtain c1 where "advance c1 d1 d2" using consumes [OF elem(2)] by auto
    moreover obtain c2 where "advance c2 d2 d'" using Suc.IH [OF elem(3)] by blast
    ultimately show ?thesis using advance_trans [OF c0(2)] advance_trans c0(1) by blast
  next
    case skip
    obtain c0 where c0: "c0 \<noteq> []" "advance c0 d d1" using decodeString_advance [OF skip(1)] by blast
    obtain c1 where "advance c1 d1 d2" using reads [OF skip(2)] by auto
    moreover obtain c2 where "advance c2 d2 d'" using Suc.IH [OF skip(3)] by blast
    ultimately show ?thesis using advance_trans [OF c0(2)] advance_trans c0(1) by blast
  qed
qed

lemma decodeSeq_advance:
  assumes "decodeSeq dec skip m t v d = (None, v', d')"
  shows "\<exists>c. c \<noteq> [] \<and> advance c d d'"
proof -
  obtain b d1 where 1: "readByte d = (Inr b, d1)"
    and 2: "decodeListLoop dec skip m 0 t v d1 = (None, v', d')"
    using assms
    by (auto simp: decodeSeq_def type_error_def split: sum.splits prod.splits if_splits)
  show ?thesis
    using advance_trans [OF readByte_advance [OF 1]] decodeListLoop_advance [OF 2] by blast
qed

lemma decodeList_advance:
  "decodeList dec skip m t v d = (None, v', d') \<Longrightarrow> \<exists>c. c \<noteq> [] \<and> advance c d d'"
  by (auto simp: decodeList_def split: prod.splits if_splits dest: decodeSeq_advance)

lemma decodeObj_advance:
  assumes "decodeObj dec skip m t v d = (None, v', d')"
  shows "\<exists>c. c \<noteq> [] \<and> advance c d d'"
proof -
  obtain b d1 tgt w where 1: "readByte d = (Inr b, d1)"
    and 2: "decodeDictLoop dec skip tgt m [] w d1 = (None, v', d')"
    using assms
    by (auto simp: decodeObj_def type_error_def split: sum.splits prod.splits if_splits gotype.splits)
  show ?thesis
    using advance_trans [OF readByte_advance [OF 1]] decodeDictLoop_advance [OF 2] by blast
qed

lemma decodeDict_advance:
  "decodeDict dec skip m t v d = (None, v', d') \<Longrightarrow> \<exists>c. c \<noteq> [] \<and> advance c d d'"
  by (auto simp: decodeDict_def split: prod.splits if_splits dest: decodeObj_advance)

end

text \<open>
  Following pointers ends at one target: the outcome and the decoder are those of \<open>k\<close> there.
\<close>

lemma follow_new_direct: "\<forall>t'. t \<noteq> TPtr t' \<Longrightarrow> follow_new k t d = k t (zero t) d"
  by (cases t) auto

lemma follow_new_target:
  "\<exists>t1. fst (follow_new k t d) = fst (k t1 (zero t1) d) \<and>
        snd (snd (follow_new k t d)) = snd (snd (k t1 (zero t1) d))"
proof (induction "size t" arbitrary: t rule: less_induct)
  case less
  show ?case
  proof (cases "\<exists>t'. t = TPtr t'")
    case True
    then obtain t' where t: "t = TPtr t'" by blast
    with less [of t'] show ?thesis by (simp add: split_beta)
  next
    case False
    then have "follow_new k t d = k t (zero t) d" by (simp add: follow_new_direct)
    then show ?thesis by auto
  qed
qed

lemma follow_shape:
  obtains (ptr) t' x where "t = TPtr t'" "v = VPtr (Some x)"
  | (nil) t' where "t = TPtr t'" "\<And>k d. follow k t v d = follow_new k t d"
  | (iface) t' x where "t = TIface" "v = VIface (Some (TPtr t', VPtr (Some x)))"
  | (direct) "\<forall>t'. t \<noteq> TPtr t'" "\<And>k d. follow k t v d = k t v d"
proof (cases t)
  case (TPtr t')
  show ?thesis
  proof (cases "\<exists>x. v = VPtr (Some x)")
    case True
    then show ?thesis using ptr TPtr by blast
  next
    case False
    then have "follow k t v d = follow_new k t d" for k d
      by (subst follow.simps) (auto simp: TPtr split: goval.splits option.splits)
    then show ?thesis using nil TPtr by blast
  qed
next
  case TIface
  show ?thesis
  proof (cases "\<exists>t' x. v = VIface (Some (TPtr t', VPtr (Some x)))")
    case True
    then show ?thesis using iface TIface by blast
  next
    case False
    then have "follow k t v d = k t v d" for k d
      by (subst follow.simps) (auto simp: TIface split: goval.splits option.splits gotype.splits)
    then show ?thesis using direct TIface by blast
  qed
qed (use direct in \<open>simp_all\<close>)

lemma follow_target:
  "\<exists>t1 v1. fst (follow k t v d) = fst (k t1 v1 d) \<and>
        snd (snd (follow k t v d)) = snd (snd (k t1 v1 d))"
proof (induction "size v" arbitrary: t v rule: less_induct)
  case less
  show ?case
  proof (cases t v rule: follow_shape)
    case (ptr t' x)
    with less [of x t'] show ?thesis by (simp add: split_beta)
  next
    case (nil t')
    then show ?thesis using follow_new_target [of k t d] by auto
  next
    case (iface t' x)
    with less [of x t'] show ?thesis by (simp add: split_beta)
  next
    case direct
    then have "follow k t v d = k t v d" by blast
    then show ?thesis by auto
  qed
qed

lemma value_decoder_decode: "value_decoder (readValueInto m) (decode E n)"
proof (induction n arbitrary: m)
  case 0
  show ?case
    by (intro value_decoder.intro value_reader_readValueInto value_decoder_axioms.intro) simp
next
  case (Suc n)
  have at: "\<exists>c. c \<noteq> [] \<and> advance c d d'"
    if "decodeAt E (decode E n) n t v d = (None, v', d')" for t v d v' d'
    using that value_decoder.decodeList_advance [OF Suc.IH] value_decoder.decodeDict_advance [OF Suc.IH]
      decodeInt_advance decodeString_advance raw.reads
    by (fastforce simp: decodeAt_def simp del: readValueInto.simps
        split: option.splits prod.splits sum.splits if_splits)
  have "\<exists>c. c \<noteq> [] \<and> advance c d d'" if "decode E (Suc n) t v d = (None, v', d')" for t v d v' d'
    using that follow_target [of "decodeAt E (decode E n) n" t v d] at by (auto simp: prod_eq_iff)
  then show ?case
    by (intro value_decoder.intro value_reader_readValueInto value_decoder_axioms.intro)
qed


interpretation dec: value_decoder "readValueInto m" "decode E n" for m E n
  by (rule value_decoder_decode)

section \<open>Termination\<close>

text \<open>
  The methods of user types return; the model's fuel is no value of theirs.
\<close>

definition env_total :: "env \<Rightarrow> bool" where
  "env_total E \<longleftrightarrow>
     (\<forall>nm f v b. unmarshal (E nm) = Some f \<or> unmarshal_text (E nm) = Some f \<longrightarrow>
        fst (f v b) \<noteq> Some OutOfFuel)"

lemma env_totalD:
  assumes "env_total E"
  shows "method_of unmarshal E t = Some f \<Longrightarrow> fst (f v b) \<noteq> Some OutOfFuel"
    and "method_of unmarshal_text E t = Some f \<Longrightarrow> fst (f v b) \<noteq> Some OutOfFuel"
  using assms unfolding env_total_def by (cases t; simp)+

lemma setInt_no_fuel: "fst (setInt t v s d) \<noteq> Some OutOfFuel"
  by (cases "under t") (auto simp: setInt_def type_error_def split: prod.splits option.splits)

lemma decodeInt_no_fuel: "fst (decodeInt t v d) \<noteq> Some OutOfFuel"
  by (simp add: decodeInt_def split_beta setInt_no_fuel split: sum.split)

lemma setString_no_fuel: "fst (setString t v s d) \<noteq> Some OutOfFuel"
  by (cases "under t") (auto simp: setString_def type_error_def)

lemma decodeString_no_fuel: "fst (decodeString t v d) \<noteq> Some OutOfFuel"
  by (simp add: decodeString_def split_beta setString_no_fuel split: sum.split option.split)

locale fuelled_decoder = value_decoder skip dec + fuelled_reader skip L
  for skip :: raw_reader and dec :: dec_fn and L :: nat +
  assumes dec_enough: "length (dr d) \<le> L \<Longrightarrow> fst (dec t v d) \<noteq> Some OutOfFuel"
begin

lemma dec_rest: "dec t v d = (None, v', d') \<Longrightarrow> length (dr d') < length (dr d)"
  using consumes [of t v d v' d'] by (auto simp: advance_length)

lemma skip_rest: "skip b d = (None, b', d') \<Longrightarrow> length (dr d') < length (dr d)"
  using reads [of b d b' d'] by (auto simp: advance_length)

lemma decodeListLoop_enough:
  "length (dr d) \<le> L \<Longrightarrow> length (dr d) < m \<Longrightarrow> fst (decodeListLoop dec skip m i t v d) \<noteq> Some OutOfFuel"
proof (induction m arbitrary: i v d)
  case 0
  then show ?case by simp
next
  case (Suc m)
  show ?case
  proof
    assume "fst (decodeListLoop dec skip (Suc m) i t v d) = Some OutOfFuel"
    then consider (elem_fail) t' x y d1 where "dec t' x d = (Some OutOfFuel, y, d1)"
      | (skip_fail) b d1 where "skip None d = (Some OutOfFuel, b, d1)"
      | (elem) t' x y d1 j w where "dec t' x d = (None, y, d1)"
          "fst (decodeListLoop dec skip m j t w d1) = Some OutOfFuel"
      | (skip) b d1 j w where "skip None d = (None, b, d1)"
          "fst (decodeListLoop dec skip m j t w d1) = Some OutOfFuel"
      by (auto simp: Let_def split: sum.splits prod.splits if_splits option.splits gotype.splits goval.splits)
    then show False
    proof cases
      case elem_fail
      then show ?thesis using dec_enough [of d t' x] Suc.prems by simp
    next
      case skip_fail
      then show ?thesis using enough [of d None] Suc.prems by simp
    next
      case elem
      then show ?thesis using dec_rest [OF elem(1)] Suc by simp
    next
      case skip
      then show ?thesis using skip_rest [OF skip(1)] Suc by simp
    qed
  qed
qed

lemma decodeDictLoop_enough:
  "length (dr d) \<le> L \<Longrightarrow> length (dr d) < m \<Longrightarrow>
   fst (decodeDictLoop dec skip tgt m lk v d) \<noteq> Some OutOfFuel"
proof (induction m arbitrary: lk v d)
  case 0
  then show ?case by simp
next
  case (Suc m)
  show ?case
  proof
    assume "fst (decodeDictLoop dec skip tgt (Suc m) lk v d) = Some OutOfFuel"
    then consider (key_fail) "fst (decodeString TString (VString []) d) = Some OutOfFuel"
      | (key) k d1 d2 where "decodeString TString (VString []) d = (None, k, d1)" "dr d2 = dr d1"
          "(\<exists>t' x. fst (dec t' x d2) = Some OutOfFuel) \<or> fst (skip None d2) = Some OutOfFuel \<or>
           (\<exists>t' x y b d3 lk' w. (dec t' x d2 = (None, y, d3) \<or> skip None d2 = (None, b, d3)) \<and>
              fst (decodeDictLoop dec skip tgt m lk' w d3) = Some OutOfFuel)"
      by (auto simp: Let_def split: sum.splits prod.splits if_splits option.splits dict_target.splits)
        (metis fst_conv note_unordered_sel(1) note_unknown_sel(1))+
    then show False
    proof cases
      case key_fail
      then show ?thesis using decodeString_no_fuel by blast
    next
      case key
      from decodeString_advance [OF key(1)] have "length (dr d2) < length (dr d)"
        using key(2) by (auto simp: advance_length)
      then show ?thesis
        using key(3) dec_enough [of d2] enough [of d2] dec_rest [of _ _ d2] skip_rest [of None d2] Suc
        by fastforce
    qed
  qed
qed

lemma decodeSeq_enough:
  assumes "length (dr d) \<le> Suc L" and "length (dr d) \<le> m"
  shows "fst (decodeSeq dec skip m t v d) \<noteq> Some OutOfFuel"
proof (cases "dr d")
  case Nil
  then show ?thesis by (simp add: decodeSeq_def readByte_def type_error_def)
next
  case (Cons b rest)
  then show ?thesis
    using assms decodeListLoop_enough [of "took [b] d" m 0 t v]
    by (auto simp: decodeSeq_def readByte_def type_error_def)
qed

lemma decodeList_enough:
  assumes "length (dr d) \<le> Suc L" and "length (dr d) \<le> m"
  shows "fst (decodeList dec skip m t v d) \<noteq> Some OutOfFuel"
  using decodeSeq_enough [OF assms] by (simp add: decodeList_def split_beta)

lemma decodeObj_enough:
  assumes "length (dr d) \<le> Suc L" and "length (dr d) \<le> m"
  shows "fst (decodeObj dec skip m t v d) \<noteq> Some OutOfFuel"
proof (cases "dr d")
  case Nil
  then show ?thesis by (simp add: decodeObj_def readByte_def)
next
  case (Cons b rest)
  then have "fst (decodeDictLoop dec skip tgt m lk w (took [b] d)) \<noteq> Some OutOfFuel" for tgt lk w
    using assms by (intro decodeDictLoop_enough) auto
  then show ?thesis
    using Cons by (auto simp: decodeObj_def readByte_def type_error_def split: gotype.split sum.split)
qed

lemma decodeDict_enough:
  assumes "length (dr d) \<le> Suc L" and "length (dr d) \<le> m"
  shows "fst (decodeDict dec skip m t v d) \<noteq> Some OutOfFuel"
  using decodeObj_enough [OF assms] by (simp add: decodeDict_def split_beta)

end

lemma fuelled_decode:
  assumes "env_total E"
  shows "fuelled_decoder (readValueInto (Suc n)) (decode E (Suc n)) n"
proof (induction n)
  case 0
  have "fst (decode E (Suc 0) t v d) \<noteq> Some OutOfFuel" if "length (dr d) \<le> 0" for t v d
    using that follow_target [of "decodeAt E (decode E 0) 0" t v d]
    by (auto simp: decodeAt_def decodeString_def readBytes_def peekByte_def split: option.splits)
  then show ?case
    by (intro fuelled_decoder.intro value_decoder_decode fuelled_readValueInto fuelled_decoder_axioms.intro)
next
  case (Suc n)
  have at: "fst (decodeAt E (decode E (Suc n)) (Suc n) t v d) \<noteq> Some OutOfFuel"
    if len: "length (dr d) \<le> Suc n" for t v d
  proof (cases "method_of unmarshal E t")
    case (Some f)
    then have "fst (f v b) \<noteq> Some OutOfFuel" for b
      by (rule env_totalD(1) [OF assms])
    moreover obtain r b d1 where raw: "readValueInto (Suc (Suc n)) (Some []) d = (r, b, d1)"
      by (metis prod_cases3)
    moreover from this have "r \<noteq> Some OutOfFuel"
      using raw_total.enough [OF len, of "Some []"] by (metis fst_conv)
    ultimately show ?thesis
      using Some by (cases r) (auto simp: decodeAt_def split_beta simp del: readValueInto.simps)
  next
    case no_unmarshal: None
    show ?thesis
    proof (cases "method_of unmarshal_text E t")
      case (Some f)
      then have "fst (f v b) \<noteq> Some OutOfFuel" for b
        by (rule env_totalD(2) [OF assms])
      then show ?thesis
        using Some no_unmarshal decodeString_no_fuel [of byte_slice "VSlice None" d]
        by (auto simp: decodeAt_def split_beta split: option.split)
    next
      case None
      then show ?thesis
        using no_unmarshal fuelled_decoder.decodeList_enough [OF Suc.IH len len]
          fuelled_decoder.decodeDict_enough [OF Suc.IH len len]
        by (auto simp: decodeAt_def decodeInt_no_fuel decodeString_no_fuel
            simp del: readValueInto.simps decode.simps split: sum.split)
    qed
  qed
  have "fst (decode E (Suc (Suc n)) t v d) \<noteq> Some OutOfFuel" if "length (dr d) \<le> Suc n" for t v d
  proof -
    obtain t1 v1 where "fst (follow (decodeAt E (decode E (Suc n)) (Suc n)) t v d) =
        fst (decodeAt E (decode E (Suc n)) (Suc n) t1 v1 d)"
      using follow_target by blast
    with at [OF that] show ?thesis by (simp only: decode.simps(2) [of E "Suc n"] not_False_eq_True)
  qed
  then show ?case
    by (intro fuelled_decoder.intro value_decoder_decode fuelled_readValueInto fuelled_decoder_axioms.intro)
qed

lemma decodeInto_total: "env_total E \<Longrightarrow> fst (decodeInto E t v d) \<noteq> Some OutOfFuel"
  using fuelled_decoder.dec_enough [OF fuelled_decode, of E d "length (dr d)" t v]
  by (auto simp: decodeInto_def late_error_def split: prod.splits option.splits simp del: decode.simps)

end
