(* ===== verification/Decode_Types.thy ===== *)
theory Decode_Types
  imports Decode_Facts
begin

text \<open>
  Type safety of the reflective decoder: on a target that holds a value of its type, \<open>decode\<close> leaves
  one there, whatever the input and also when it fails, and none of the panics of \<open>reflect\<close> or of
  \<open>docode.go\<close> itself can happen.
\<close>

section \<open>Places in structs\<close>

text \<open>
  \<open>leaf_at t p\<close> is the type of the field at \<open>p\<close>, a path through embedded structs; \<open>live p v\<close> says
  that no pointer on the way is nil.
\<close>

fun leaf_at :: "gotype \<Rightarrow> place \<Rightarrow> gotype option" where
  "leaf_at t [] = None"
| "leaf_at t (i # is) =
     (case under t of
        TStruct fs \<Rightarrow>
          (if i < length fs then
             (if embedded (fst (fs ! i))
              then (if is = [] then None else leaf_at (deref (snd (fs ! i))) is)
              else (if is = [] then Some (snd (fs ! i)) else None))
           else None)
      | _ \<Rightarrow> None)"

fun live :: "place \<Rightarrow> goval \<Rightarrow> bool" where
  "live [] v = True"
| "live (i # is) (VStruct vs) = (i < length vs \<and> live is (vs ! i))"
| "live (i # is) (VPtr (Some v)) = live (i # is) v"
| "live (i # is) v = False"

lemma has_type_struct:
  "has_type t v \<Longrightarrow> under t = TStruct fs \<Longrightarrow> \<exists>vs. v = VStruct vs \<and> has_types fs vs \<and> length vs = length fs"
  using has_type_under [of t v] has_types_length by auto

lemma has_type_VStruct: "under t = TStruct fs \<Longrightarrow> has_type t (VStruct vs) = has_types fs vs"
  using has_type_under [of t "VStruct vs"] by simp

text \<open>Stepping through the pointer of an embedded field changes neither reads nor writes.\<close>

lemma through_ptr:
  assumes "has_type t v" and "live (i # is) v"
  obtains w where "has_type (deref t) w" "live (i # is) w" "get_at (i # is) v = get_at (i # is) w"
    "\<And>x. has_type (deref t) (set_at (i # is) x w) \<Longrightarrow> has_type t (set_at (i # is) x v)"
    "\<And>j js x. live (j # js) v = live (j # js) w"
    "\<And>j js x. live (j # js) (set_at (i # is) x v) = live (j # js) (set_at (i # is) x w)"
proof (cases "\<exists>t'. under t = TPtr t'")
  case True
  then obtain t' where t': "under t = TPtr t'" by blast
  then have "has_type (TPtr t') v" using assms(1) by (metis has_type_under)
  then obtain w where v: "v = VPtr (Some w)" and w: "has_type t' w"
    using assms(2) by (cases v) (auto split: option.splits)
  have set: "has_type t (VPtr (Some y)) = has_type t' y" for y
    using t' has_type_under [of t "VPtr (Some y)"] by simp
  show ?thesis
    using that [of w] assms(2) w by (auto simp: v deref_def t' set)
next
  case False
  then have "deref t = t" by (auto simp: deref_def split: gotype.splits)
  then show ?thesis using that [of v] assms by auto
qed

lemma get_at_type:
  "leaf_at t p = Some u \<Longrightarrow> has_type t v \<Longrightarrow> live p v \<Longrightarrow> has_type u (get_at p v)"
proof (induction p arbitrary: t v)
  case Nil
  then show ?case by simp
next
  case (Cons i "is")
  then obtain fs where fs: "under t = TStruct fs" "i < length fs"
    by (auto split: gotype.splits if_splits)
  then obtain vs where vs: "v = VStruct vs" "has_types fs vs"
    using has_type_struct Cons.prems(2) by blast
  then have vi: "has_type (snd (fs ! i)) (vs ! i)" using has_types_nth fs(2) by blast
  show ?case
  proof (cases "is")
    case Nil
    then show ?thesis using Cons.prems fs vs vi by (auto split: if_splits)
  next
    case (Cons j js)
    then have leaf: "leaf_at (deref (snd (fs ! i))) is = Some u" and "live is (vs ! i)"
      using \<open>leaf_at t (i # is) = Some u\<close> \<open>live (i # is) v\<close> fs vs by (auto split: if_splits)
    then obtain w where "has_type (deref (snd (fs ! i))) w" "live is w" "get_at is (vs ! i) = get_at is w"
      using through_ptr [OF vi, of j js] Cons by metis
    then show ?thesis using Cons.IH [OF leaf] vs by simp
  qed
qed

lemma set_at_type:
  "leaf_at t p = Some u \<Longrightarrow> has_type t v \<Longrightarrow> live p v \<Longrightarrow> has_type u x \<Longrightarrow> has_type t (set_at p x v)"
proof (induction p arbitrary: t v)
  case Nil
  then show ?case by simp
next
  case (Cons i "is")
  then obtain fs where fs: "under t = TStruct fs" "i < length fs"
    by (auto split: gotype.splits if_splits)
  then obtain vs where vs: "v = VStruct vs" "has_types fs vs"
    using has_type_struct Cons.prems(2) by blast
  then have vi: "has_type (snd (fs ! i)) (vs ! i)" using has_types_nth fs(2) by blast
  have "has_type (snd (fs ! i)) (set_at is x (vs ! i))"
  proof (cases "is")
    case Nil
    then show ?thesis using Cons.prems fs vs by (auto split: if_splits)
  next
    case (Cons j js)
    then have leaf: "leaf_at (deref (snd (fs ! i))) is = Some u" and "live is (vs ! i)"
      using \<open>leaf_at t (i # is) = Some u\<close> \<open>live (i # is) v\<close> fs vs by (auto split: if_splits)
    then obtain w where "has_type (deref (snd (fs ! i))) w" "live is w"
      and *: "\<And>x. has_type (deref (snd (fs ! i))) (set_at is x w) \<Longrightarrow>
        has_type (snd (fs ! i)) (set_at is x (vs ! i))"
      using through_ptr [OF vi, of j js] Cons by metis
    then show ?thesis using Cons.IH [OF leaf _ _ \<open>has_type u x\<close>] by blast
  qed
  then have "has_types fs (vs[i := set_at is x (vs ! i)])"
    using has_types_update vs(2) fs(2) by blast
  then show ?case using fs vs by (simp add: has_type_VStruct)
qed

text \<open>Writing one leaf keeps the way to every other leaf open.\<close>

lemma set_at_live:
  "leaf_at t p = Some u \<Longrightarrow> leaf_at t q = Some u' \<Longrightarrow> has_type t v \<Longrightarrow> live p v \<Longrightarrow> live q v \<Longrightarrow>
   live q (set_at p x v)"
proof (induction p arbitrary: t v q)
  case Nil
  then show ?case by simp
next
  case (Cons i "is")
  then obtain fs where fs: "under t = TStruct fs" "i < length fs"
    by (auto split: gotype.splits if_splits)
  then obtain vs where vs: "v = VStruct vs" "has_types fs vs"
    using has_type_struct Cons.prems(3) by blast
  then have vi: "has_type (snd (fs ! i)) (vs ! i)" using has_types_nth fs(2) by blast
  obtain j js where q: "q = j # js" using Cons.prems(2) by (cases q) auto
  show ?case
  proof (cases "j = i \<and> is \<noteq> [] \<and> js \<noteq> []")
    case False
    then show ?thesis
      using Cons.prems fs vs q by (auto simp: nth_list_update split: if_splits)
  next
    case True
    then obtain a as b bs where is_js: "is = a # as" "js = b # bs"
      by (cases "is"; cases js) auto
    have leaf: "leaf_at (deref (snd (fs ! i))) is = Some u" "leaf_at (deref (snd (fs ! i))) js = Some u'"
      and lv: "live is (vs ! i)" "live js (vs ! i)"
      using Cons.prems fs vs q True by (auto split: if_splits)
    obtain w where w: "has_type (deref (snd (fs ! i))) w" "live is w"
      and same: "\<And>j js. live (j # js) (vs ! i) = live (j # js) w"
        "\<And>j js. live (j # js) (set_at is x (vs ! i)) = live (j # js) (set_at is x w)"
      using through_ptr [OF vi, of a as] lv(1) is_js(1) by metis
    have "live js (set_at is x w)"
      using Cons.IH [OF leaf w] lv(2) same(1) is_js(2) by blast
    then show ?thesis using same(2) is_js(2) True q vs fs has_types_length [OF vs(2)] by simp
  qed
qed

section \<open>Collecting the fields\<close>

definition entry_ok :: "gotype \<Rightarrow> goval \<Rightarrow> place \<Rightarrow> gotype \<Rightarrow> bool" where
  "entry_ok t v p u \<longleftrightarrow> leaf_at t p = Some u \<and> live p v \<and> wf_type u"

lemma wrapFields_entries:
  "(k, q, u) \<in> set (wrapFields fs i p m) \<Longrightarrow>
   (k, q, u) \<in> set m \<or> (\<exists>j < length fs. q = p @ [i + j] \<and> \<not> embedded (fst (fs ! j)) \<and> u = snd (fs ! j))"
proof (induction fs i p m rule: wrapFields.induct)
  case (1 i p m)
  then show ?case by simp
next
  case (2 f t fs i p m)
  let ?m = "if \<not> fld_exported f then m
        else if fld_anonymous f \<and> fld_tag f = None then m
        else (case fld_tag f of
                None \<Rightarrow> AList.update (fld_name f) (p @ [i], t) m
              | Some tag \<Rightarrow>
                  (case parseTag tag of
                     (key, opts) \<Rightarrow>
                       (if ignored opts then m
                        else AList.update (if key \<noteq> [] then key else fld_name f) (p @ [i], t) m)))"
  have new: "e \<in> set m \<or> (snd e = (p @ [i], t) \<and> \<not> embedded f)" if "e \<in> set ?m" for e
    using that by (auto simp: embedded_def split: if_splits option.splits prod.splits dest!: set_update_subset)
  from "2.prems" have "(k, q, u) \<in> set (wrapFields fs (Suc i) p ?m)" by simp
  then consider "(k, q, u) \<in> set ?m"
    | j where "j < length fs" "q = p @ [Suc i + j]" "\<not> embedded (fst (fs ! j))" "u = snd (fs ! j)"
    using "2.IH" by (auto split: if_splits option.splits prod.splits)
  then show ?case
  proof cases
    case 1
    then show ?thesis using new by fastforce
  next
    case 2
    then show ?thesis by (intro disjI2 exI [of _ "Suc j"]) auto
  qed
qed

lemma wf_type_deref: "wf_type t \<Longrightarrow> wf_type (deref t)"
  using wf_type_under [of t] by (auto simp: deref_def split: gotype.splits)

lemma has_type_pointee:
  assumes "wf_type t" and "has_type t v"
  shows "has_type (deref t) (pointee t v)"
proof (cases "\<exists>t'. under t = TPtr t'")
  case True
  then obtain t' where t': "under t = TPtr t'" by blast
  then have "wf_type t'" and "has_type (TPtr t') v"
    using assms wf_type_under [of t] has_type_under [of t v] by simp_all
  then show ?thesis by (auto simp: t' deref_def pointee_def has_type_zero split: option.splits)
next
  case False
  then have "deref t = t" "pointee t v = v" by (auto simp: deref_def pointee_def split: gotype.splits)
  then show ?thesis using assms by simp
qed

lemma has_type_repoint: "has_type t (repoint t x) = has_type (deref t) x"
  using has_type_under [of t "VPtr (Some x)"] by (auto simp: repoint_def deref_def split: gotype.splits)

lemma live_repoint: "s \<noteq> [] \<Longrightarrow> live s (repoint t x) = live s x"
  by (cases s) (auto simp: repoint_def split: gotype.splits)

text \<open>
  \<open>wrapStruct2Map\<close> on a struct succeeds, allocates the embedded pointers, and every entry it adds
  names a live place of the right type.
\<close>

definition wrapped :: "gotype \<Rightarrow> place \<Rightarrow> field_map \<Rightarrow> string + goval \<times> field_map \<Rightarrow> bool" where
  "wrapped t p m r \<longleftrightarrow>
     (\<exists>v' m'. r = Inr (v', m') \<and> has_type t v' \<and>
        (\<forall>k q u. (k, q, u) \<in> set m' \<longrightarrow> (k, q, u) \<in> set m \<or> (\<exists>s. q = p @ s \<and> entry_ok t v' s u)))"

text \<open>An entry inside one of the embedded structs among the fields \<open>fs\<close>, numbered from \<open>i\<close>.\<close>

definition deep_entry :: "(field_info \<times> gotype) list \<Rightarrow> goval list \<Rightarrow> nat \<Rightarrow> place \<Rightarrow> gotype \<Rightarrow> bool" where
  "deep_entry fs vs i q u \<longleftrightarrow>
     (\<exists>j s. j < length fs \<and> q = (i + j) # s \<and> s \<noteq> [] \<and> embedded (fst (fs ! j)) \<and>
        live s (vs ! j) \<and> leaf_at (deref (snd (fs ! j))) s = Some u \<and> wf_type u)"

lemma deep_entry_later: "deep_entry fs vs (Suc i) q u \<Longrightarrow> deep_entry (ft # fs) (v # vs) i q u"
  unfolding deep_entry_def by (elim exE conjE) (rule exI [of _ "Suc _"], rule exI, simp)

lemma deep_entry_here:
  "embedded f \<Longrightarrow> entry_ok (deref t) x s u \<Longrightarrow> deep_entry ((f, t) # fs) (repoint t x # vs) i (i # s) u"
  unfolding deep_entry_def entry_ok_def
  by (rule exI [of _ 0], rule exI [of _ s]) (cases s; auto simp: live_repoint)

lemma deep_entry_ok:
  "under t = TStruct fs \<Longrightarrow> has_types fs vs \<Longrightarrow> deep_entry fs vs 0 q u \<Longrightarrow> entry_ok t (VStruct vs) q u"
  using has_types_length [of fs vs] by (auto simp: deep_entry_def entry_ok_def)

definition wrapped_fields :: "(field_info \<times> gotype) list \<Rightarrow> nat \<Rightarrow> place \<Rightarrow> field_map \<Rightarrow>
    string + goval list \<times> field_map \<Rightarrow> bool" where
  "wrapped_fields fs i p m r \<longleftrightarrow>
     (\<exists>vs' m'. r = Inr (vs', m') \<and> has_types fs vs' \<and>
        (\<forall>k q u. (k, q, u) \<in> set m' \<longrightarrow>
           (k, q, u) \<in> set m \<or> (\<exists>s. q = p @ s \<and> deep_entry fs vs' i s u)))"

lemma wrap_ok:
  shows "wf_type t \<Longrightarrow> is_struct t \<Longrightarrow> has_type t v \<Longrightarrow> wrapped t p m (wrapStruct2Map t v p m)"
    and "\<forall>(f, t) \<in> set fs. wf_type t \<and> field_ok f t \<Longrightarrow> has_types fs vs \<Longrightarrow>
      wrapped_fields fs i p m (wrapEmbedded fs vs i p m)"
proof (induction t v p m and fs vs i p m rule: wrapStruct2Map_wrapEmbedded.induct)
  case (1 t v p m)
  then obtain fs where fs: "under t = TStruct fs" by (auto simp: is_struct_def split: gotype.splits)
  then obtain vs where vs: "v = VStruct vs" "has_types fs vs" using "1.prems" has_type_struct by blast
  have wf: "\<forall>(f, t) \<in> set fs. wf_type t \<and> field_ok f t" using wf_type_under [OF "1.prems"(1)] fs by simp
  have "wrapped_fields fs 0 p m (wrapEmbedded fs vs 0 p m)" using "1.IH" fs vs wf by simp
  then obtain vs' m' where r: "wrapEmbedded fs vs 0 p m = Inr (vs', m')" and ty: "has_types fs vs'"
    and ent: "\<And>k q u. (k, q, u) \<in> set m' \<Longrightarrow> (k, q, u) \<in> set m \<or> (\<exists>s. q = p @ s \<and> deep_entry fs vs' 0 s u)"
    unfolding wrapped_fields_def by metis
  have "(k, q, u) \<in> set m \<or> (\<exists>s. q = p @ s \<and> entry_ok t (VStruct vs') s u)"
    if in_m: "(k, q, u) \<in> set (wrapFields fs 0 p m')" for k q u
    using wrapFields_entries [OF in_m]
  proof
    assume "(k, q, u) \<in> set m'"
    from ent [OF this] show ?thesis using deep_entry_ok [OF fs ty] by blast
  next
    assume "\<exists>j < length fs. q = p @ [0 + j] \<and> \<not> embedded (fst (fs ! j)) \<and> u = snd (fs ! j)"
    then obtain j where j: "j < length fs" "q = p @ [j]" "\<not> embedded (fst (fs ! j))" "u = snd (fs ! j)" by auto
    then have "wf_type (snd (fs ! j))" using wf nth_mem [of j fs] by fastforce
    then show ?thesis
      using fs j has_types_length [OF ty] by (intro disjI2 exI [of _ "[j]"]) (simp add: entry_ok_def)
  qed
  then show ?case
    using fs vs r ty by (subst wrapStruct2Map.simps) (auto simp: wrapped_def has_type_VStruct)
next
  case (2 vs i p m)
  then show ?case by (simp add: wrapped_fields_def wrapStruct2Map.simps)
next
  case (3 ft fs i p m)
  then show ?case by simp
next
  case (4 ft fs v vs i p m)
  obtain f t where ft: "ft = (f, t)" by fastforce
  have ty: "wf_type t" "field_ok f t" "has_type t v" "has_types fs vs"
    and wf: "\<forall>(f, t) \<in> set fs. wf_type t \<and> field_ok f t"
    using "4.prems" ft by auto
  have emb: "(fld_exported f \<and> fld_anonymous f \<and> (fld_tag f = None \<or> fld_tag f = Some [])) = embedded f"
    using ty(2) by (auto simp: embedded_def field_ok_def)
  note IH = "4.IH" [unfolded ft fst_conv snd_conv emb]
  show ?case
  proof (cases "embedded f")
    case True
    then have "wrapped (deref t) (p @ [i]) m (wrapStruct2Map (deref t) (pointee t v) (p @ [i]) m)"
      using IH(1) ty wf_type_deref has_type_pointee by (simp add: field_ok_def)
    then obtain x m1 where r1: "wrapStruct2Map (deref t) (pointee t v) (p @ [i]) m = Inr (x, m1)"
      and x: "has_type (deref t) x"
      and e1: "\<And>k q u. (k, q, u) \<in> set m1 \<Longrightarrow> (k, q, u) \<in> set m \<or> (\<exists>s. q = p @ i # s \<and> entry_ok (deref t) x s u)"
      unfolding wrapped_def by auto
    have "wrapped_fields fs (Suc i) p m1 (wrapEmbedded fs vs (Suc i) p m1)"
      using IH(2) [OF True r1] wf ty(4) by simp
    then obtain vs' m2 where r2: "wrapEmbedded fs vs (Suc i) p m1 = Inr (vs', m2)" and vs': "has_types fs vs'"
      and e2: "\<And>k q u. (k, q, u) \<in> set m2 \<Longrightarrow>
        (k, q, u) \<in> set m1 \<or> (\<exists>s. q = p @ s \<and> deep_entry fs vs' (Suc i) s u)"
      unfolding wrapped_fields_def by metis
    have "(k, q, u) \<in> set m \<or> (\<exists>s. q = p @ s \<and> deep_entry (ft # fs) (repoint t x # vs') i s u)"
      if "(k, q, u) \<in> set m2" for k q u
      using e2 [OF that]
    proof
      assume "(k, q, u) \<in> set m1"
      from e1 [OF this] show ?thesis
        by (auto simp: ft intro: deep_entry_here [OF True])
    next
      assume "\<exists>s. q = p @ s \<and> deep_entry fs vs' (Suc i) s u"
      then show ?thesis by (auto intro: deep_entry_later)
    qed
    then show ?thesis
      using r1 r2 x vs' True emb ft by (auto simp: wrapped_fields_def has_type_repoint)
  next
    case False
    have "wrapped_fields fs (Suc i) p m (wrapEmbedded fs vs (Suc i) p m)"
      using IH(3) [OF False] wf ty(4) by simp
    then obtain vs' m2 where r2: "wrapEmbedded fs vs (Suc i) p m = Inr (vs', m2)" and vs': "has_types fs vs'"
      and e2: "\<And>k q u. (k, q, u) \<in> set m2 \<Longrightarrow>
        (k, q, u) \<in> set m \<or> (\<exists>s. q = p @ s \<and> deep_entry fs vs' (Suc i) s u)"
      unfolding wrapped_fields_def by metis
    have "(k, q, u) \<in> set m \<or> (\<exists>s. q = p @ s \<and> deep_entry (ft # fs) (v # vs') i s u)"
      if "(k, q, u) \<in> set m2" for k q u
      using e2 [OF that] by (auto intro: deep_entry_later)
    then show ?thesis
      using r2 vs' False emb ft ty(3) by (auto simp: wrapped_fields_def)
  qed
qed

section \<open>Safety\<close>

definition safe_result :: "gotype \<Rightarrow> abort option \<times> goval \<times> 'd \<Rightarrow> bool" where
  "safe_result t r \<longleftrightarrow> has_type t (fst (snd r)) \<and> (\<forall>msg. fst r \<noteq> Some (Panic msg))"

lemma safe_result_simps [simp]:
  "safe_result t (None, v, d) = has_type t v"
  "safe_result t (Some (Err e), v, d) = has_type t v"
  "safe_result t (Some OutOfFuel, v, d) = has_type t v"
  "safe_result t (type_error what t' d', v, d) = has_type t v"
  by (simp_all add: safe_result_def type_error_def)

lemma safe_result_Some: "safe_result t (Some e, v, d) \<Longrightarrow> safe_result t' (Some e, v', d') = has_type t' v'"
  by (simp add: safe_result_def)

lemma setInt_safe:
  assumes "wf_type t" and "has_type t v"
  shows "safe_result t (fst (setInt t v s d), snd (setInt t v s d), d')"
proof -
  have b: "- (2 ^ 63) \<le> n \<and> n < (2::int) ^ 63" if "parse_int 64 s = (e, n)" for e n
    using parse_int_bounds [of 64 s] that by simp
  show ?thesis
    using assms wf_type_under [of t] has_type_under [of t]
    by (cases "under t")
      (auto simp: setInt_def type_error_def safe_result_def signed_take_bit_int_less_exp
        signed_take_bit_int_greater_eq_minus_exp simp flip: has_type_under [of t] dest: b
        split: prod.splits option.splits)
qed

lemma decodeInt_safe:
  assumes "wf_type t" and "has_type t v" and "peekByte d = Inr (CHR ''i'')"
  shows "safe_result t (decodeInt t v d)"
  using assms setInt_safe [OF assms(1,2)]
  by (auto simp: decodeInt_def peekByte_def readByte_def split_beta split: list.splits sum.splits)

lemma setString_safe:
  assumes "has_type t v"
  shows "safe_result t (fst (setString t v s d), snd (setString t v s d), d')"
  using assms
  by (cases "under t")
    (auto simp: setString_def type_error_def safe_result_def simp flip: has_type_under [of t])

lemma decodeString_safe: "has_type t v \<Longrightarrow> safe_result t (decodeString t v d)"
  using setString_safe [of t v]
  by (auto simp: decodeString_def split_beta split: sum.split option.split)

lemma list_all_update: "list_all P xs \<Longrightarrow> P x \<Longrightarrow> list_all P (xs[i := x])"
  by (auto simp: list_all_iff dest!: subsetD [OF set_update_subset_insert])

lemma has_type_array: "under t = TArray k t' \<Longrightarrow> has_type t v = has_type (TArray k t') v"
  and has_type_slice: "under t = TSlice t' \<Longrightarrow> has_type t v = has_type (TSlice t') v"
  and has_type_map: "under t = TMap kt t' \<Longrightarrow> has_type t v = has_type (TMap kt t') v"
  and has_type_iface: "under t = TIface \<Longrightarrow> has_type t v = has_type TIface v"
  by (metis has_type_under)+

lemma safe_wrap:
  assumes "safe_result t r" and "has_type t (fst (snd r)) \<Longrightarrow> has_type t' (f (fst (snd r)))"
  shows "safe_result t' (case r of (e, x, d) \<Rightarrow> (e, f x, d))"
  using assms by (cases r) (auto simp: safe_result_def)

text \<open>The variable a dictionary loop fills: a live map, or a struct whose collected places are live.\<close>

definition target_ok :: "gotype \<Rightarrow> dict_target \<Rightarrow> goval \<Rightarrow> bool" where
  "target_ok t tgt v \<longleftrightarrow>
     has_type t v \<and>
     (case tgt of
        IntoMap t' \<Rightarrow> under t = TMap TString t' \<and> wf_type t'
      | IntoStruct fm \<Rightarrow> \<forall>(k, p, u) \<in> set fm. entry_ok t v p u)"

lemma map_set_type:
  assumes "has_type (TMap TString t) v" and "has_type t x"
  shows "has_type (TMap TString t) (map_set key x v)"
proof -
  have "list_all (has_type t) (map snd (AList.update key x kvs))"
    if "list_all (has_type t) (map snd kvs)" for kvs
    using that assms(2) by (fastforce simp: list_all_iff dest: set_update_subset)
  then show ?thesis
    using assms(1) by (auto simp: map_set_def distinct_update split: goval.split option.splits)
qed

lemma target_ok_map_set:
  assumes "target_ok t (IntoMap t') v" and "has_type t' x"
  shows "target_ok t (IntoMap t') (map_set key x v)"
proof -
  from assms(1) have m: "under t = TMap TString t'" by (simp add: target_ok_def)
  show ?thesis using assms map_set_type has_type_map [OF m] by (simp add: target_ok_def)
qed

lemma target_ok_field:
  assumes "target_ok t (IntoStruct fm) v" and "map_of fm key = Some (p, u)"
  shows "wf_type u" and "has_type u (get_at p v)"
    and "has_type u x \<Longrightarrow> target_ok t (IntoStruct fm) (set_at p x v)"
proof -
  have ty: "has_type t v" and ents: "\<forall>(k, q, u) \<in> set fm. entry_ok t v q u"
    using assms(1) by (simp_all add: target_ok_def)
  then have "entry_ok t v p u" using map_of_SomeD [OF assms(2)] by auto
  then have leaf: "leaf_at t p = Some u" "live p v" and "wf_type u" by (simp_all add: entry_ok_def)
  then show "wf_type u" and "has_type u (get_at p v)" using get_at_type ty by simp_all
  show "target_ok t (IntoStruct fm) (set_at p x v)" if "has_type u x"
  proof -
    have "entry_ok t (set_at p x v) q u'" if "(k, q, u') \<in> set fm" for k q u'
      using that ents leaf ty set_at_live [of t p u q u' v x] by (auto simp: entry_ok_def)
    then show ?thesis using set_at_type [OF leaf(1) ty leaf(2) that] by (auto simp: target_ok_def)
  qed
qed

lemma target_ok_map:
  assumes "wf_type t" and "has_type t v" and "under t = TMap TString t'"
  shows "target_ok t (IntoMap t') (case v of VMap (Some kvs) \<Rightarrow> v | _ \<Rightarrow> VMap (Some []))"
  using assms has_type_map [OF assms(3)] wf_type_under [OF assms(1)]
  by (auto simp: target_ok_def split: option.splits)

lemma target_ok_struct:
  assumes "wf_type t" and "has_type t v" and "under t = TStruct fs"
  shows "\<exists>v' fm. wrapStruct2Map t v [] [] = Inr (v', fm) \<and> target_ok t (IntoStruct fm) v'"
proof -
  have "wrapped t [] [] (wrapStruct2Map t v [] [])"
    using assms by (intro wrap_ok) (auto simp: is_struct_def)
  then obtain v' fm where "wrapStruct2Map t v [] [] = Inr (v', fm)" "has_type t v'"
    and "\<forall>k q u. (k, q, u) \<in> set fm \<longrightarrow> entry_ok t v' q u"
    unfolding wrapped_def by auto
  then show ?thesis by (auto simp: target_ok_def)
qed

locale typed_decoder = value_decoder skip dec for skip :: raw_reader and dec :: dec_fn +
  assumes dec_safe: "wf_type t \<Longrightarrow> has_type t v \<Longrightarrow> safe_result t (dec t v d)"
begin

lemma decodeListLoop_safe:
  assumes "wf_type t" and "case under t of TArray k t' \<Rightarrow> True | TSlice t' \<Rightarrow> True | _ \<Rightarrow> False"
    and "has_type t v"
  shows "safe_result t (decodeListLoop dec skip m i t v d)"
  using assms(3)
proof (induction m arbitrary: i v d)
  case 0
  then show ?case by simp
next
  case (Suc m)
  show ?case
  proof (cases "peekByte d")
    case (Inl e)
    then show ?thesis using Suc.prems by simp
  next
    case (Inr ch)
    show ?thesis
    proof (cases "ch = CHR ''e''")
      case True
      then show ?thesis using Suc.prems Inr by (simp split: sum.split prod.split)
    next
      case False
      consider (arr) k t' where "under t = TArray k t'" | (sl) t' where "under t = TSlice t'"
        using assms(2) by (cases "under t") auto
      then show ?thesis
      proof cases
        case arr
        then obtain vs where vs: "v = VArray vs" "length vs = k" "list_all (has_type t') vs"
          and wf: "wf_type t'"
          using Suc.prems has_type_array [OF arr] wf_type_under [OF assms(1)] by auto
        have up: "has_type t (VArray (vs[i := x]))" if "has_type t' x" for x
          using that vs has_type_array [OF arr] by (simp add: list_all_update)
        show ?thesis
        proof (cases "i < k")
          case True
          then have "safe_result t' (dec t' (vs ! i) d)"
            using dec_safe [OF wf] vs by (simp add: list_all_length)
          then show ?thesis
            using True False Inr vs arr up Suc.IH by (auto simp: safe_result_def split: prod.split option.split)
        next
          case nofit: False
          have "\<forall>msg. fst (skip None d) \<noteq> Some (Panic msg)" using no_panic by blast
          then show ?thesis
            using nofit False Inr vs arr Suc.IH Suc.prems
            by (auto simp: safe_result_def split: prod.split option.split)
        qed
      next
        case sl
        then obtain vs where vs: "v = VSlice vs" and el: "case vs of None \<Rightarrow> True | Some xs \<Rightarrow> list_all (has_type t') xs"
          and wf: "wf_type t'"
          using Suc.prems has_type_slice [OF sl] wf_type_under [OF assms(1)] by auto
        let ?vs0 = "if i = 0 then map_option (\<lambda>_. []) vs else vs"
        have vs0: "case ?vs0 of None \<Rightarrow> True | Some xs \<Rightarrow> list_all (has_type t') xs"
          using el by (auto split: option.splits)
        have "safe_result t' (dec t' (zero t') d)"
          using dec_safe [OF wf] has_type_zero [OF wf] by simp
        moreover have "has_type t (VSlice ?vs0)"
          using vs0 has_type_slice [OF sl] by simp
        moreover have "has_type t (VSlice (Some ((case ?vs0 of None \<Rightarrow> [] | Some xs \<Rightarrow> xs) @ [x])))"
          if "has_type t' x" for x
          using that vs0 has_type_slice [OF sl] by (auto split: option.splits)
        ultimately show ?thesis
          using False Inr vs sl Suc.IH by (auto simp: safe_result_def Let_def split: prod.split option.split)
      qed
    qed
  qed
qed

lemma decodeSeq_safe:
  assumes "wf_type t" and "has_type t v" and "peekByte d = Inr (CHR ''l'')"
  shows "safe_result t (decodeSeq dec skip m t v d)"
  using assms decodeListLoop_safe [OF assms(1) _ assms(2)]
  by (auto simp: decodeSeq_def peekByte_def readByte_def split: list.splits gotype.splits)

lemma decodeList_safe:
  assumes "wf_type t" and "has_type t v" and "peekByte d = Inr (CHR ''l'')"
  shows "safe_result t (decodeList dec skip m t v d)"
proof (cases "under t = TIface")
  case True
  have "safe_result (TSlice TIface) (decodeSeq dec skip m (TSlice TIface) (VSlice None) d)"
    using assms(3) by (intro decodeSeq_safe) auto
  then show ?thesis
    using True by (auto simp: decodeList_def has_type_iface intro!: safe_wrap)
next
  case False
  then show ?thesis using assms decodeSeq_safe by (simp add: decodeList_def)
qed

lemma decodeDictLoop_safe:
  "wf_type t \<Longrightarrow> target_ok t tgt v \<Longrightarrow> safe_result t (decodeDictLoop dec skip tgt m lk v d)"
proof (induction m arbitrary: lk v d)
  case 0
  then show ?case by (simp add: target_ok_def)
next
  case (Suc m)
  have ty: "has_type t v" using Suc.prems(2) by (simp add: target_ok_def)
  show ?case
  proof (cases "peekByte d = Inr (CHR ''e'') \<or> (\<exists>e. peekByte d = Inl e)")
    case True
    then show ?thesis using ty by (auto split: sum.split prod.split)
  next
    case False
    then obtain ch where ch: "peekByte d = Inr ch" "ch \<noteq> CHR ''e''" by (cases "peekByte d") auto
    obtain r k d1 where key: "decodeString TString (VString []) d = (r, k, d1)" by (metis prod_cases3)
    then have "safe_result TString (r, k, d1)" using decodeString_safe [of TString "VString []" d] by simp
    then have r: "\<forall>msg. r \<noteq> Some (Panic msg)" by (simp add: safe_result_def)
    show ?thesis
    proof (cases r)
      case (Some e)
      then show ?thesis using ch key r ty by (auto simp: safe_result_def)
    next
      case None
      define s where "s = (case k of VString s \<Rightarrow> s | _ \<Rightarrow> [])"
      define d2 where "d2 = note_unordered lk s d1"
      show ?thesis
      proof (cases tgt)
        case (IntoMap t')
        then have m: "under t = TMap TString t'" and wf: "wf_type t'"
          using Suc.prems(2) by (simp_all add: target_ok_def)
        have el: "safe_result t' (dec t' (zero t') d2)"
          using dec_safe [OF wf] has_type_zero [OF wf] by simp
        have "target_ok t tgt (map_set s x v)" if "has_type t' x" for x
          using that Suc.prems(2) IntoMap target_ok_map_set by simp
        then have IH: "safe_result t (decodeDictLoop dec skip tgt m s (map_set s x v) d3)"
          if "has_type t' x" for x d3
          using that Suc by simp
        then show ?thesis
          using ch key None IntoMap el ty
          by (auto simp: safe_result_def Let_def simp flip: s_def d2_def split: prod.split option.split)
      next
        case (IntoStruct fm)
        show ?thesis
        proof (cases "map_of fm s")
          case unknown: None
          have "skip None d3 \<noteq> (Some (Panic msg), b, d4)" for d3 b d4 msg
            using no_panic [of None d3 msg] by auto
          moreover have "safe_result t (decodeDictLoop dec skip tgt m s v d3)" for d3
            using Suc by simp
          ultimately show ?thesis
            using ch key None IntoStruct ty unknown
            by (auto simp: safe_result_def Let_def simp flip: s_def d2_def split: prod.split option.split)
        next
          case (Some pu)
          obtain p u where pu: "pu = (p, u)" by fastforce
          note field = target_ok_field [OF Suc.prems(2) [unfolded IntoStruct] Some [unfolded pu]]
          have el: "safe_result u (dec u (get_at p v) d2)" using dec_safe field(1,2) by simp
          have up: "target_ok t tgt (set_at p x v)" if "has_type u x" for x
            using field(3) that IntoStruct by simp
          then have set_ty: "has_type t (set_at p x v)" if "has_type u x" for x
            using that by (simp add: target_ok_def)
          have "safe_result t (decodeDictLoop dec skip tgt m s (set_at p x v) d3)"
            if "has_type u x" for x d3
            using that up Suc by simp
          then show ?thesis
            using ch key None IntoStruct Some pu el set_ty
            by (auto simp: safe_result_def Let_def simp flip: s_def d2_def split: prod.split option.split)
        qed
      qed
    qed
  qed
qed

lemma decodeObj_safe:
  assumes "wf_type t" and "has_type t v" and "peekByte d = Inr (CHR ''d'')"
  shows "safe_result t (decodeObj dec skip m t v d)"
proof -
  from assms(3) have head: "readByte d = (Inr (CHR ''d''), took ''d'' d)"
    by (auto simp: peekByte_def readByte_def split: list.splits)
  consider (map) kt t' where "under t = TMap kt t'" | (str) fs where "under t = TStruct fs"
    | (other) "\<forall>kt t'. under t \<noteq> TMap kt t'" "\<forall>fs. under t \<noteq> TStruct fs"
    by blast
  then show ?thesis
  proof cases
    case map
    show ?thesis
    proof (cases "kt = TString")
      case True
      then show ?thesis
        using decodeDictLoop_safe [OF assms(1) target_ok_map [OF assms(1,2), of t']] map
        by (simp add: decodeObj_def head)
    next
      case False
      then show ?thesis using assms(2) map by (simp add: decodeObj_def head)
    qed
  next
    case str
    then obtain v' fm where "wrapStruct2Map t v [] [] = Inr (v', fm)" and "target_ok t (IntoStruct fm) v'"
      using target_ok_struct [OF assms(1,2)] by blast
    then show ?thesis
      using decodeDictLoop_safe [OF assms(1)] str by (simp add: decodeObj_def head)
  next
    case other
    then have "decodeObj dec skip m t v d = (type_error ''dict'' t (took ''d'' d), v, took ''d'' d)"
      by (simp add: decodeObj_def head split: gotype.split)
    then show ?thesis using assms(2) by simp
  qed
qed

lemma decodeDict_safe:
  assumes "wf_type t" and "has_type t v" and "peekByte d = Inr (CHR ''d'')"
  shows "safe_result t (decodeDict dec skip m t v d)"
proof (cases "under t = TIface")
  case True
  have "safe_result (TMap TString TIface) (decodeObj dec skip m (TMap TString TIface) (VMap None) d)"
    using assms(3) by (intro decodeObj_safe) auto
  then show ?thesis
    using True by (auto simp: decodeDict_def has_type_iface intro!: safe_wrap)
next
  case False
  then show ?thesis using assms decodeObj_safe by (simp add: decodeDict_def)
qed

end

text \<open>
  What is asked of the \<open>UnmarshalBencode\<close> and \<open>UnmarshalText\<close> of user types: they keep the type of
  their receiver and do not panic.
\<close>

definition env_safe :: "env \<Rightarrow> bool" where
  "env_safe E \<longleftrightarrow>
     (\<forall>nm t f v b. (unmarshal (E nm) = Some f \<or> unmarshal_text (E nm) = Some f) \<longrightarrow>
        wf_type (TNamed nm t) \<longrightarrow> has_type t v \<longrightarrow> has_type t (snd (f v b)) \<and> (\<forall>msg. fst (f v b) \<noteq> Some (Panic msg)))"

lemma env_safeD:
  assumes "env_safe E" and "wf_type t" and "has_type t v"
  shows "method_of unmarshal E t = Some f \<Longrightarrow> safe_result t (fst (f v b), snd (f v b), d)"
    and "method_of unmarshal_text E t = Some f \<Longrightarrow> safe_result t (fst (f v b), snd (f v b), d)"
  using assms unfolding env_safe_def safe_result_def by (cases t; force)+

lemma decodeAt_safe:
  assumes "env_safe E" and "typed_decoder (readValueInto n) dec" and "wf_type t" and "has_type t v"
  shows "safe_result t (decodeAt E dec n t v d)"
proof (cases "method_of unmarshal E t")
  case (Some f)
  obtain r b d1 where raw: "readValueInto (Suc n) (Some []) d = (r, b, d1)" by (metis prod_cases3)
  then have "\<forall>msg. r \<noteq> Some (Panic msg)" using raw.no_panic [of "Suc n" "Some []" d] by auto
  then show ?thesis
    using env_safeD(1) [OF assms(1,3,4) Some] assms(4) Some raw
    by (auto simp: decodeAt_def safe_result_def split_beta simp del: readValueInto.simps
        split: option.split)
next
  case no_unmarshal: None
  show ?thesis
  proof (cases "method_of unmarshal_text E t")
    case (Some f)
    obtain r b d1 where str: "decodeString byte_slice (VSlice None) d = (r, b, d1)" by (metis prod_cases3)
    have "safe_result byte_slice (decodeString byte_slice (VSlice None) d)"
      by (rule decodeString_safe) simp
    then have "\<forall>msg. r \<noteq> Some (Panic msg)" by (simp add: str safe_result_def)
    then show ?thesis
      using env_safeD(2) [OF assms(1,3,4) Some] assms(4) Some no_unmarshal str
      by (auto simp: decodeAt_def safe_result_def split_beta split: option.split)
  next
    case None
    then show ?thesis
      using no_unmarshal assms(3,4) decodeInt_safe decodeString_safe
        typed_decoder.decodeList_safe [OF assms(2)] typed_decoder.decodeDict_safe [OF assms(2)]
      by (auto simp: decodeAt_def simp del: readValueInto.simps split: sum.split)
  qed
qed

lemma follow_new_safe:
  assumes "\<And>t v d. wf_type t \<Longrightarrow> has_type t v \<Longrightarrow> safe_result t (k t v d)"
  shows "wf_type t \<Longrightarrow> safe_result t (follow_new k t d)"
proof (induction "size t" arbitrary: t rule: less_induct)
  case less
  show ?case
  proof (cases "\<exists>t'. t = TPtr t'")
    case True
    then obtain t' where t: "t = TPtr t'" by blast
    with less have "safe_result t' (follow_new k t' d)" by simp
    then show ?thesis by (auto simp: t intro!: safe_wrap)
  next
    case False
    then show ?thesis using assms less.prems has_type_zero by (simp add: follow_new_direct)
  qed
qed

lemma follow_safe:
  assumes "\<And>t v d. wf_type t \<Longrightarrow> has_type t v \<Longrightarrow> safe_result t (k t v d)"
  shows "wf_type t \<Longrightarrow> has_type t v \<Longrightarrow> safe_result t (follow k t v d)"
proof (induction "size v" arbitrary: t v rule: less_induct)
  case less
  show ?case
  proof (cases t v rule: follow_shape)
    case (ptr t' x)
    with less have "safe_result t' (follow k t' x d)" by simp
    then show ?thesis by (auto simp: ptr intro!: safe_wrap)
  next
    case (nil t')
    have "safe_result t (follow_new k t d)" using follow_new_safe [of k t d] assms less.prems by blast
    then show ?thesis using nil(2) by simp
  next
    case (iface t' x)
    with less have "wf_type t'" "safe_result t' (follow k t' x d)" by simp_all
    then show ?thesis by (auto simp: iface intro!: safe_wrap)
  next
    case direct
    then show ?thesis using assms less.prems by simp
  qed
qed

lemma typed_decode: "env_safe E \<Longrightarrow> typed_decoder (readValueInto m) (decode E n)"
proof (induction n arbitrary: m)
  case 0
  show ?case
    by (intro typed_decoder.intro value_decoder_decode typed_decoder_axioms.intro) simp
next
  case (Suc n)
  then show ?case
    by (intro typed_decoder.intro value_decoder_decode typed_decoder_axioms.intro)
      (simp del: readValueInto.simps add: follow_safe decodeAt_safe)
qed

lemma decodeInto_safe:
  assumes "env_safe E" and "wf_type t" and "has_type t v"
  shows "safe_result t (decodeInto E t v d)"
  using typed_decoder.dec_safe [OF typed_decode [OF assms(1)] assms(2,3), of "Suc (length (dr d))" d]
  by (auto simp: decodeInto_def late_error_def safe_result_def simp del: decode.simps
      split: prod.split option.split)

end
