(* ===== verification/Decode_Spec.thy ===== *)
theory Decode_Spec
  imports Decode_Types
begin

text \<open>
  The functional specification of \<open>decode\<close> on valid input. \<open>assign E b t v\<close> is the value a target
  of type \<open>t\<close> holding \<open>v\<close> has after the abstract value \<open>b\<close> was decoded into it, \<^const>\<open>None\<close> where the
  code reports an error; it knows nothing of bytes, offsets, loops and fuel. The theorem
  \<open>decode_assign\<close> shows that the byte-level decoder implements it and consumes exactly the encoding.
\<close>

section \<open>The specification\<close>

type_synonym spec_fn = "gotype \<Rightarrow> goval \<Rightarrow> goval option"

fun through_new :: "spec_fn \<Rightarrow> gotype \<Rightarrow> goval option" where
  "through_new k (TPtr t) = map_option (VPtr \<circ> Some) (through_new k t)"
| "through_new k t = k t (zero t)"

function through :: "spec_fn \<Rightarrow> spec_fn" where
  "through k t v =
     (case (t, v) of
        (TPtr t', VPtr (Some x)) \<Rightarrow> map_option (VPtr \<circ> Some) (through k t' x)
      | (TPtr t', _) \<Rightarrow> through_new k t
      | (TIface, VIface (Some (TPtr t', VPtr (Some x)))) \<Rightarrow>
          map_option (\<lambda>y. VIface (Some (TPtr t', VPtr (Some y)))) (through k t' x)
      | _ \<Rightarrow> k t v)"
  by pat_completeness auto
termination
  by (relation "measure (\<lambda>(k, t, v). size v)") auto

declare through.simps [simp del]

definition assign_int :: "int \<Rightarrow> spec_fn" where
  "assign_int n t v =
     (case under t of
        TIface \<Rightarrow> Some (VIface (Some (TInt 64, VInt n)))
      | TInt w \<Rightarrow> Some (VInt (signed_take_bit (w - 1) n))
      | TUint w \<Rightarrow> (if n < 0 then None else Some (VUint (take_bit w n)))
      | TBool \<Rightarrow> (if n < 0 then None else Some (VBool (n \<noteq> 0)))
      | _ \<Rightarrow> None)"

definition assign_str :: "bytes \<Rightarrow> spec_fn" where
  "assign_str s t v =
     (case under t of
        TSlice t' \<Rightarrow> if t = byte_slice then Some (VSlice (Some (of_bytes s))) else None
      | TString \<Rightarrow> Some (VString s)
      | TIface \<Rightarrow> Some (VIface (Some (TString, VString s)))
      | _ \<Rightarrow> None)"

definition assign_seq :: "spec_fn list \<Rightarrow> spec_fn" where
  "assign_seq fs t v =
     (case (under t, v) of
        (TArray k t', VArray vs) \<Rightarrow>
          map_option (\<lambda>ws. VArray (ws @ drop (length fs) vs)) (those (map2 (\<lambda>f. f t') fs vs))
      | (TSlice t', VSlice vs) \<Rightarrow>
          (if fs = [] then Some (VSlice vs)
           else map_option (VSlice \<circ> Some) (those (map (\<lambda>f. f t' (zero t')) fs)))
      | _ \<Rightarrow> None)"

definition assign_list :: "spec_fn list \<Rightarrow> spec_fn" where
  "assign_list fs t v =
     (if under t = TIface
      then map_option (\<lambda>x. VIface (Some (TSlice TIface, x))) (assign_seq fs (TSlice TIface) (VSlice None))
      else assign_seq fs t v)"

text \<open>One entry of a dictionary goes into a map or into the field its key names.\<close>

fun assign_entry :: "dict_target \<Rightarrow> bytes \<times> spec_fn \<Rightarrow> goval \<Rightarrow> goval option" where
  "assign_entry (IntoMap t) (key, f) v = map_option (\<lambda>x. map_set key x v) (f t (zero t))"
| "assign_entry (IntoStruct fm) (key, f) v =
     (case map_of fm key of
        None \<Rightarrow> Some v
      | Some (p, t) \<Rightarrow> map_option (\<lambda>x. set_at p x v) (f t (get_at p v)))"

fun assign_entries :: "dict_target \<Rightarrow> (bytes \<times> spec_fn) list \<Rightarrow> goval \<Rightarrow> goval option" where
  "assign_entries tgt [] v = Some v"
| "assign_entries tgt (kf # kfs) v = Option.bind (assign_entry tgt kf v) (assign_entries tgt kfs)"

definition assign_obj :: "(bytes \<times> spec_fn) list \<Rightarrow> spec_fn" where
  "assign_obj kfs t v =
     (case under t of
        TMap kt t' \<Rightarrow>
          (if kt \<noteq> TString then None
           else assign_entries (IntoMap t') kfs (case v of VMap (Some kvs) \<Rightarrow> v | _ \<Rightarrow> VMap (Some [])))
      | TStruct fs \<Rightarrow>
          (case wrapStruct2Map t v [] [] of
             Inl msg \<Rightarrow> None
           | Inr (v', fm) \<Rightarrow> assign_entries (IntoStruct fm) kfs v')
      | _ \<Rightarrow> None)"

definition assign_dict :: "(bytes \<times> spec_fn) list \<Rightarrow> spec_fn" where
  "assign_dict kfs t v =
     (if under t = TIface
      then map_option (\<lambda>x. VIface (Some (TMap TString TIface, x)))
             (assign_obj kfs (TMap TString TIface) (VMap None))
      else assign_obj kfs t v)"

text \<open>The user's own methods come first; they see the encoding, or the decoded string.\<close>

definition assign_at :: "env \<Rightarrow> bytes \<Rightarrow> bytes option \<Rightarrow> spec_fn \<Rightarrow> spec_fn" where
  "assign_at E enc s k t v =
     (case method_of unmarshal E t of
        Some f \<Rightarrow> (case f v enc of (None, x) \<Rightarrow> Some x | _ \<Rightarrow> None)
      | None \<Rightarrow>
     (case method_of unmarshal_text E t of
        Some f \<Rightarrow>
          (case s of
             Some txtb \<Rightarrow> (case f v txtb of (None, x) \<Rightarrow> Some x | _ \<Rightarrow> None)
           | None \<Rightarrow> None)
      | None \<Rightarrow> k t v))"

fun assign :: "env \<Rightarrow> bval \<Rightarrow> spec_fn" where
  "assign E (BInt n) = through (assign_at E (benc (BInt n)) None (assign_int n))"
| "assign E (BStr s) = through (assign_at E (benc (BStr s)) (Some s) (assign_str s))"
| "assign E (BList bs) =
     through (assign_at E (benc (BList bs)) None (assign_list (map (assign E) bs)))"
| "assign E (BDict kvs) =
     through (assign_at E (benc (BDict kvs)) None (assign_dict (map (\<lambda>(k, b). (k, assign E b)) kvs)))"

section \<open>The relation between the two\<close>

definition implements :: "bytes \<Rightarrow> decoder \<Rightarrow> goval option \<Rightarrow> abort option \<times> goval \<times> decoder \<Rightarrow> bool" where
  "implements enc d spec r \<longleftrightarrow>
     (case spec of Some v \<Rightarrow> r = (None, v, took enc d) | None \<Rightarrow> fst r \<noteq> None)"

text \<open>The decoder \<open>Unmarshal\<close> makes: neither strictness flag is set.\<close>

definition quiet :: "decoder \<Rightarrow> bool" where
  "quiet d \<longleftrightarrow> \<not> disallowUnknownFields d \<and> \<not> disallowUnorderedKeys d"

lemma quiet_took [simp]: "quiet (took c d) = quiet d"
  by (simp add: quiet_def took_def)

lemma quiet_notes [simp]:
  "quiet d \<Longrightarrow> note_unordered lk k d = d"
  "quiet d \<Longrightarrow> note_unknown k d = d"
  by (simp_all add: quiet_def note_unordered_def note_unknown_def)

lemma quiet_newDecoder [simp]: "quiet (newDecoder bs)"
  by (simp add: quiet_def newDecoder_def)

lemma implements_simps [simp]:
  "implements enc d (Some v) r \<longleftrightarrow> r = (None, v, took enc d)"
  "implements enc d None r \<longleftrightarrow> fst r \<noteq> None"
  by (simp_all add: implements_def)

lemma implements_wrap:
  "implements enc d spec r \<Longrightarrow>
   implements enc d (map_option f spec) (case r of (e, x, d1) \<Rightarrow> (e, f x, d1))"
  by (cases spec; cases r) auto

lemma through_new_direct: "\<forall>t'. t \<noteq> TPtr t' \<Longrightarrow> through_new k t = k t (zero t)"
  by (cases t) auto

lemma follow_new_through:
  assumes "\<And>t v. wf_type t \<Longrightarrow> has_type t v \<Longrightarrow> implements enc d (s t v) (k t v d)"
  shows "wf_type t \<Longrightarrow> implements enc d (through_new s t) (follow_new k t d)"
proof (induction "size t" arbitrary: t rule: less_induct)
  case less
  show ?case
  proof (cases "\<exists>t'. t = TPtr t'")
    case True
    then obtain t' where t: "t = TPtr t'" by blast
    with less have "implements enc d (through_new s t') (follow_new k t' d)" by simp
    from implements_wrap [OF this, of "VPtr \<circ> Some"] show ?thesis by (simp add: t)
  next
    case False
    then show ?thesis
      using assms less.prems has_type_zero by (simp add: follow_new_direct through_new_direct)
  qed
qed

lemma follow_through:
  assumes "\<And>t v. wf_type t \<Longrightarrow> has_type t v \<Longrightarrow> implements enc d (s t v) (k t v d)"
  shows "wf_type t \<Longrightarrow> has_type t v \<Longrightarrow> implements enc d (through s t v) (follow k t v d)"
proof (induction "size v" arbitrary: t v rule: less_induct)
  case less
  show ?case
  proof (cases t)
    case (TPtr t')
    show ?thesis
    proof (cases "\<exists>x. v = VPtr (Some x)")
      case True
      then obtain x where v: "v = VPtr (Some x)" by blast
      with less TPtr have "implements enc d (through s t' x) (follow k t' x d)" by simp
      from implements_wrap [OF this, of "VPtr \<circ> Some"] show ?thesis
        by (simp add: TPtr v through.simps [of s "TPtr t'"])
    next
      case False
      then have "follow k t v d = follow_new k t d" "through s t v = through_new s t"
        by (subst follow.simps through.simps; auto simp: TPtr split: goval.splits option.splits)+
      then show ?thesis using follow_new_through [of enc d s k t] assms less.prems by simp
    qed
  next
    case TIface
    show ?thesis
    proof (cases "\<exists>t' x. v = VIface (Some (TPtr t', VPtr (Some x)))")
      case True
      then obtain t' x where v: "v = VIface (Some (TPtr t', VPtr (Some x)))" by blast
      with less TIface have "implements enc d (through s t' x) (follow k t' x d)" by simp
      from implements_wrap [OF this, of "\<lambda>y. VIface (Some (TPtr t', VPtr (Some y)))"] show ?thesis
        by (simp add: TIface v through.simps [of s TIface])
    next
      case False
      then have "follow k t v d = k t v d" "through s t v = s t v"
        by (subst follow.simps through.simps;
            auto simp: TIface split: goval.splits option.splits gotype.splits)+
      then show ?thesis using assms less.prems by simp
    qed
  qed (use assms less.prems in \<open>simp_all add: through.simps\<close>)
qed

section \<open>Scalars\<close>

lemma parse_uint_show_int:
  assumes "n < 2 ^ 63"
  shows "parse_uint 64 (show_int n) = (if n < 0 then (Some ErrSyntax, 0) else (None, n))"
  using assms parse_uint_show [of "nat n" 64]
  by (auto simp: show_int_def parse_uint_def is_digit_def)

lemma setInt_assign:
  assumes "- (2 ^ 63) \<le> n" and "n < 2 ^ 63"
  shows "implements enc d (assign_int n t v)
    (case setInt t v (show_int n) (took enc d) of (r, x) \<Rightarrow> (r, x, took enc d))"
  using assms
  by (cases "under t") (simp_all add: assign_int_def setInt_def type_error_def parse_uint_show_int parse_int_show)

lemma decodeInt_assign:
  assumes "bval_ok (BInt n)" and "dr d = benc (BInt n) @ rest"
  shows "implements (benc (BInt n)) d (assign_int n t v) (decodeInt t v d)"
proof -
  have head: "readByte d = (Inr (CHR ''i''), took ''i'' d)" using assms(2) by (simp add: wire)
  have "dr (took ''i'' d) = show_int n @ CHR ''e'' # rest" using assms(2) by simp
  then have line: "readBytes (CHR ''e'') (took ''i'' d) =
      (Inr (show_int n @ ''e''), took (show_int n @ ''e'') (took ''i'' d))"
    by (rule readBytes_line [OF show_int_no_e])
  show ?thesis
    using setInt_assign [of n "benc (BInt n)" d t v] assms by (simp add: decodeInt_def head line took_took)
qed

lemma setString_assign:
  "implements enc d (assign_str s t v)
    (case setString t v s (took enc d) of (r, x) \<Rightarrow> (r, x, took enc d))"
  by (cases "under t") (simp_all add: assign_str_def setString_def type_error_def)

lemma decodeString_frame:
  assumes "len_ok s" and "dr d = bstr s @ rest"
  shows "decodeString t v d =
    (case setString t v s (took (bstr s) d) of (r, x) \<Rightarrow> (r, x, took (bstr s) d))"
proof -
  let ?l = "show_nat (length s) @ '':''"
  have line: "readBytes (CHR '':'') d = (Inr ?l, took ?l d)"
    using assms(2) show_nat_no_colon by (intro readBytes_line) (simp_all add: bstr_def)
  have "parse_int 32 (show_int (int (length s))) = (None, int (length s))"
    using assms(1) by (intro parse_int_show) (simp_all add: len_ok_def)
  then have num: "parse_int 32 (show_nat (length s)) = (None, int (length s))"
    by (simp add: show_int_def)
  have "readFull (length s) (took ?l d) = (Inr s, took s (took ?l d))"
    using assms(2) by (intro readFull_append) (simp add: bstr_def)
  then show ?thesis by (simp add: decodeString_def line num took_took bstr_def)
qed

lemma decodeString_assign:
  assumes "len_ok s" and "dr d = bstr s @ rest"
  shows "implements (bstr s) d (assign_str s t v) (decodeString t v d)"
  using setString_assign [of "bstr s" d s t v] by (simp add: decodeString_frame [OF assms])

text \<open>A value that is no string is no length either.\<close>

lemma parse_int_nondigit:
  assumes "c \<noteq> CHR ''-''" and "c \<noteq> CHR ''+''" and "\<not> is_digit c"
  shows "fst (parse_int w (c # cs)) \<noteq> None"
  using assms by (auto simp: parse_int_def parse_uint_def Let_def split: prod.split)

lemma decodeString_nondigit:
  assumes "dr d = c # cs" and "c \<noteq> CHR ''-''" and "c \<noteq> CHR ''+''" and "\<not> is_digit c" and "c \<noteq> CHR '':''"
  shows "fst (decodeString t v d) \<noteq> None"
proof (cases "CHR '':'' \<in> set (dr d)")
  case True
  then have "readBytes (CHR '':'') d =
      (Inr (takeWhile (\<lambda>c. c \<noteq> CHR '':'') (dr d) @ '':''), took (takeWhile (\<lambda>c. c \<noteq> CHR '':'') (dr d) @ '':'') d)"
    by (simp add: readBytes_def Let_def)
  moreover have "fst (parse_int 32 (takeWhile (\<lambda>c. c \<noteq> CHR '':'') (dr d))) \<noteq> None"
    using assms parse_int_nondigit by simp
  ultimately show ?thesis
    by (cases "parse_int 32 (takeWhile (\<lambda>c. c \<noteq> CHR '':'') (dr d))") (auto simp: decodeString_def)
next
  case False
  then show ?thesis by (simp add: decodeString_def readBytes_def)
qed

lemma decodeString_no_string:
  assumes "\<forall>s. b \<noteq> BStr s" and "dr d = benc b @ rest"
  shows "fst (decodeString t v d) \<noteq> None"
proof -
  obtain c cs where "dr d = c # cs" and "c = CHR ''i'' \<or> c = CHR ''l'' \<or> c = CHR ''d''"
    using assms by (cases b) auto
  then show ?thesis by (intro decodeString_nondigit [of d c cs]) (auto simp: is_digit_def)
qed

section \<open>Lists and dictionaries\<close>

text \<open>The contract of the recursive calls: \<open>dec\<close> implements \<open>sp\<close> on encodings of at most \<open>N\<close> bytes.\<close>

locale spec_decoder = typed_decoder skip dec for skip :: raw_reader and dec :: dec_fn +
  fixes sp :: "bval \<Rightarrow> spec_fn" and N :: nat
  assumes dec_spec: "bval_ok b \<Longrightarrow> length (benc b) \<le> N \<Longrightarrow> dr d = benc b @ rest \<Longrightarrow> quiet d \<Longrightarrow>
      wf_type t \<Longrightarrow> has_type t v \<Longrightarrow> implements (benc b) d (sp b t v) (dec t v d)"
    and skip_spec: "bval_ok b \<Longrightarrow> length (benc b) \<le> N \<Longrightarrow> dr d = benc b @ rest \<Longrightarrow>
      skip None d = (None, None, took (benc b) d)"
begin

lemma sp_type:
  assumes "bval_ok b" and "length (benc b) \<le> N" and "wf_type t" and "has_type t v" and "sp b t v = Some x"
  shows "has_type t x"
  using dec_spec [OF assms(1,2), of "newDecoder (benc b)" "[]" t v] assms
    dec_safe [OF assms(3,4), of "newDecoder (benc b)"]
  by (simp add: newDecoder_def quiet_def safe_result_def)

abbreviation elems :: "bval list \<Rightarrow> bytes" where
  "elems bs \<equiv> concat (map benc bs)"

definition elems_ok :: "bval list \<Rightarrow> bool" where
  "elems_ok bs \<longleftrightarrow> (\<forall>b \<in> set bs. bval_ok b \<and> length (benc b) \<le> N)"

lemma elems_ok_simps [simp]:
  "elems_ok []" "elems_ok (b # bs) \<longleftrightarrow> bval_ok b \<and> length (benc b) \<le> N \<and> elems_ok bs"
  by (auto simp: elems_ok_def)

lemma listLoop_end:
  "dr d = ''e'' @ rest \<Longrightarrow> decodeListLoop dec skip (Suc m) i t v d = (None, v, took ''e'' d)"
  by (simp add: wire)

lemma listLoop_slice:
  assumes "under t = TSlice t'" and "wf_type t'"
  shows "elems_ok bs \<Longrightarrow> dr d = elems bs @ ''e'' @ rest \<Longrightarrow> length bs < m \<Longrightarrow> quiet d \<Longrightarrow>
    implements (elems bs @ ''e'') d
      (if bs = [] then Some (VSlice vs)
       else map_option (\<lambda>xs. VSlice (Some ((if i = 0 then [] else case vs of None \<Rightarrow> [] | Some ys \<Rightarrow> ys) @ xs)))
              (those (map (\<lambda>b. sp b t' (zero t')) bs)))
      (decodeListLoop dec skip m i t (VSlice vs) d)"
proof (induction bs arbitrary: m i vs d)
  case Nil
  then obtain m' where "m = Suc m'" by (cases m) auto
  with Nil show ?case using listLoop_end by simp
next
  case (Cons b bs)
  then obtain m' where m: "m = Suc m'" by (cases m) auto
  obtain c cs where head: "benc b = c # cs" "c \<noteq> CHR ''e''" using benc_head by blast
  then have peek: "peekByte d = Inr c" using Cons.prems(2) by (simp add: peekByte_def)
  have inp: "dr d = benc b @ elems bs @ ''e'' @ rest" using Cons.prems(2) by simp
  have el: "implements (benc b) d (sp b t' (zero t')) (dec t' (zero t') d)"
    using dec_spec [OF _ _ inp] Cons.prems assms(2) has_type_zero by simp
  show ?case
  proof (cases "sp b t' (zero t')")
    case None
    then have "fst (dec t' (zero t') d) \<noteq> None" using el by simp
    then show ?thesis
      using None head peek assms(1) by (auto simp: m Let_def split: prod.split)
  next
    case (Some x)
    let ?vs = "if i = 0 then map_option (\<lambda>_. []) vs else vs"
    let ?ws = "Some ((case ?vs of None \<Rightarrow> [] | Some ys \<Rightarrow> ys) @ [x])"
    have base: "(case ?vs of None \<Rightarrow> [] | Some ys \<Rightarrow> ys) = (if i = 0 then [] else case vs of None \<Rightarrow> [] | Some ys \<Rightarrow> ys)"
      by (cases vs) auto
    have step: "decodeListLoop dec skip m i t (VSlice vs) d =
        decodeListLoop dec skip m' (Suc i) t (VSlice ?ws) (took (benc b) d)"
      using el Some head peek assms(1) by (simp add: m Let_def del: option.case_distrib)
    have IH: "implements (elems bs @ ''e'') (took (benc b) d)
        (if bs = [] then Some (VSlice ?ws)
         else map_option (\<lambda>xs. VSlice (Some ((if Suc i = 0 then [] else case ?ws of None \<Rightarrow> [] | Some ys \<Rightarrow> ys) @ xs)))
              (those (map (\<lambda>b. sp b t' (zero t')) bs)))
        (decodeListLoop dec skip m' (Suc i) t (VSlice ?ws) (took (benc b) d))"
      by (rule Cons.IH) (use Cons.prems m inp in auto)
    show ?thesis
      using IH unfolding step base
      by (cases "bs = []"; cases "those (map (\<lambda>b. sp b t' (zero t')) bs)") (auto simp: Some took_took)
  qed
qed

lemma listLoop_array:
  assumes "under t = TArray k t'" and "wf_type t'"
  shows "elems_ok bs \<Longrightarrow> dr d = elems bs @ ''e'' @ rest \<Longrightarrow> length bs < m \<Longrightarrow> quiet d \<Longrightarrow>
    length vs = k \<Longrightarrow> list_all (has_type t') vs \<Longrightarrow>
    implements (elems bs @ ''e'') d
      (map_option (\<lambda>ws. VArray (take i vs @ ws @ drop (i + length bs) vs))
        (those (map2 (\<lambda>b. sp b t') bs (drop i vs))))
      (decodeListLoop dec skip m i t (VArray vs) d)"
proof (induction bs arbitrary: m i vs d)
  case Nil
  then obtain m' where "m = Suc m'" by (cases m) auto
  with Nil show ?case using listLoop_end by simp
next
  case (Cons b bs)
  then obtain m' where m: "m = Suc m'" by (cases m) auto
  obtain c cs where head: "benc b = c # cs" "c \<noteq> CHR ''e''" using benc_head by blast
  then have peek: "peekByte d = Inr c" using Cons.prems(2) by (simp add: peekByte_def)
  have inp: "dr d = benc b @ elems bs @ ''e'' @ rest" using Cons.prems(2) by simp
  show ?case
  proof (cases "i < k")
    case True
    then have vsi: "drop i vs = vs ! i # drop (Suc i) vs" and ty: "has_type t' (vs ! i)"
      using Cons.prems(5,6) by (simp_all add: Cons_nth_drop_Suc list_all_length)
    have el: "implements (benc b) d (sp b t' (vs ! i)) (dec t' (vs ! i) d)"
      using dec_spec [OF _ _ inp] Cons.prems assms(2) ty by simp
    show ?thesis
    proof (cases "sp b t' (vs ! i)")
      case None
      then have "fst (dec t' (vs ! i) d) \<noteq> None" using el by simp
      then show ?thesis using None head peek assms(1) True vsi by (auto simp: m split: prod.split)
    next
      case (Some x)
      let ?vs = "vs[i := x]"
      have step: "decodeListLoop dec skip m i t (VArray vs) d =
          decodeListLoop dec skip m' (Suc i) t (VArray ?vs) (took (benc b) d)"
        using el Some head peek assms(1) True by (simp add: m)
      have "has_type t' x" using sp_type [of b t' "vs ! i" x] Some Cons.prems(1) assms(2) ty by simp
      then have "list_all (has_type t') ?vs" using Cons.prems(6) by (simp add: list_all_update)
      then have IH: "implements (elems bs @ ''e'') (took (benc b) d)
          (map_option (\<lambda>ws. VArray (take (Suc i) ?vs @ ws @ drop (Suc i + length bs) ?vs))
            (those (map2 (\<lambda>b. sp b t') bs (drop (Suc i) ?vs))))
          (decodeListLoop dec skip m' (Suc i) t (VArray ?vs) (took (benc b) d))"
        using Cons.prems m inp by (intro Cons.IH) auto
      have "take (Suc i) ?vs = take i vs @ [x]"
        using True Cons.prems(5) by (simp add: take_Suc_conv_app_nth)
      then show ?thesis
        using IH unfolding step
        by (cases "those (map2 (\<lambda>b. sp b t') bs (drop (Suc i) vs))") (auto simp: Some vsi took_took)
    qed
  next
    case False
    have "skip None d = (None, None, took (benc b) d)"
      using skip_spec [OF _ _ inp] Cons.prems(1) by simp
    then have step: "decodeListLoop dec skip m i t (VArray vs) d =
        decodeListLoop dec skip m' (Suc i) t (VArray vs) (took (benc b) d)"
      using head peek assms(1) False by (simp add: m)
    have "implements (elems bs @ ''e'') (took (benc b) d)
        (map_option (\<lambda>ws. VArray (take (Suc i) vs @ ws @ drop (Suc i + length bs) vs))
          (those (map2 (\<lambda>b. sp b t') bs (drop (Suc i) vs))))
        (decodeListLoop dec skip m' (Suc i) t (VArray vs) (took (benc b) d))"
      using Cons.prems m inp by (intro Cons.IH) auto
    then show ?thesis
      using False Cons.prems(5) unfolding step by (simp add: took_took)
  qed
qed

lemma decodeSeq_spec:
  assumes "elems_ok bs" and "dr d = benc (BList bs) @ rest" and "length bs < m" and "quiet d"
    and "wf_type t" and "has_type t v"
  shows "implements (benc (BList bs)) d (assign_seq (map sp bs) t v) (decodeSeq dec skip m t v d)"
proof -
  have head: "readByte d = (Inr (CHR ''l''), took ''l'' d)" using assms(2) by (simp add: wire)
  have inp: "dr (took ''l'' d) = elems bs @ ''e'' @ rest" using assms(2) by simp
  consider (arr) k t' where "under t = TArray k t'" | (sl) t' where "under t = TSlice t'"
    | (other) "\<forall>k t'. under t \<noteq> TArray k t'" "\<forall>t'. under t \<noteq> TSlice t'" by blast
  then show ?thesis
  proof cases
    case arr
    then obtain vs where vs: "v = VArray vs" "length vs = k" "list_all (has_type t') vs" and wf: "wf_type t'"
      using assms(5,6) has_type_array [OF arr] wf_type_under by force
    have "map2 (\<lambda>f. f t') (map sp bs) vs = map2 (\<lambda>b. sp b t') bs vs"
      by (simp add: zip_map1 split_beta)
    then show ?thesis
      using listLoop_array [OF arr wf assms(1) inp assms(3) _ vs(2,3), of 0] assms(4) vs arr
      by (cases "those (map2 (\<lambda>b. sp b t') bs vs)") (auto simp: decodeSeq_def assign_seq_def head took_took)
  next
    case sl
    then obtain vs where vs: "v = VSlice vs" and wf: "wf_type t'"
      using assms(5,6) has_type_slice [OF sl] wf_type_under by force
    show ?thesis
      using listLoop_slice [OF sl wf assms(1) inp assms(3), of vs 0] assms(4) vs sl
      by (cases "bs = []"; cases "those (map (\<lambda>b. sp b t' (zero t')) bs)")
        (auto simp: decodeSeq_def assign_seq_def head took_took o_def)
  next
    case other
    then have "(case under t of TArray k t' \<Rightarrow> False | TSlice t' \<Rightarrow> False | _ \<Rightarrow> True)"
      and "assign_seq (map sp bs) t v = None"
      by (auto simp: assign_seq_def split: gotype.split)
    then show ?thesis by (simp add: decodeSeq_def type_error_def)
  qed
qed

lemma decodeList_spec:
  assumes "elems_ok bs" and "dr d = benc (BList bs) @ rest" and "length bs < m" and "quiet d"
    and "wf_type t" and "has_type t v"
  shows "implements (benc (BList bs)) d (assign_list (map sp bs) t v) (decodeList dec skip m t v d)"
proof (cases "under t = TIface")
  case True
  show ?thesis
    using implements_wrap [OF decodeSeq_spec [OF assms(1-4), of "TSlice TIface" "VSlice None"],
        of "\<lambda>x. VIface (Some (TSlice TIface, x))"] True
    by (simp add: decodeList_def assign_list_def)
next
  case False
  then show ?thesis using decodeSeq_spec [OF assms] by (simp add: decodeList_def assign_list_def)
qed

abbreviation entries :: "(bytes \<times> bval) list \<Rightarrow> bytes" where
  "entries kvs \<equiv> concat (map (\<lambda>(k, b). bstr k @ benc b) kvs)"

abbreviation spec_entry :: "bytes \<times> bval \<Rightarrow> bytes \<times> spec_fn" where
  "spec_entry \<equiv> (\<lambda>(k, b). (k, sp b))"

definition entries_ok :: "(bytes \<times> bval) list \<Rightarrow> bool" where
  "entries_ok kvs \<longleftrightarrow> (\<forall>(k, b) \<in> set kvs. len_ok k \<and> bval_ok b \<and> length (benc b) \<le> N)"

lemma entries_ok_simps [simp]:
  "entries_ok []"
  "entries_ok ((k, b) # kvs) \<longleftrightarrow> len_ok k \<and> bval_ok b \<and> length (benc b) \<le> N \<and> entries_ok kvs"
  by (auto simp: entries_ok_def)

lemma assign_entry_target:
  assumes "target_ok t tgt v" and "bval_ok b" and "length (benc b) \<le> N"
    and "assign_entry tgt (key, sp b) v = Some w"
  shows "target_ok t tgt w"
proof (cases tgt)
  case (IntoMap t')
  then have "wf_type t'" using assms(1) by (simp add: target_ok_def)
  then show ?thesis
    using assms IntoMap target_ok_map_set sp_type [OF assms(2,3) _ has_type_zero] by auto
next
  case (IntoStruct fm)
  show ?thesis
  proof (cases "map_of fm key")
    case None
    then show ?thesis using assms IntoStruct by simp
  next
    case (Some pu)
    obtain p u where pu: "pu = (p, u)" by fastforce
    note field = target_ok_field [OF assms(1) [unfolded IntoStruct] Some [unfolded pu]]
    show ?thesis
      using assms(4) IntoStruct Some pu field sp_type [OF assms(2,3) field(1,2)] by auto
  qed
qed

text \<open>One round of the loop of \<open>decodeDict\<close>.\<close>

lemma dictLoop_step:
  assumes "len_ok k" and "bval_ok b" and "length (benc b) \<le> N" and "quiet d"
    and "dr d = bstr k @ benc b @ rest" and "target_ok t tgt v"
  shows "case assign_entry tgt (k, sp b) v of
      None \<Rightarrow> fst (decodeDictLoop dec skip tgt (Suc m) lk v d) \<noteq> None
    | Some w \<Rightarrow> decodeDictLoop dec skip tgt (Suc m) lk v d =
        decodeDictLoop dec skip tgt m k w (took (bstr k @ benc b) d)"
proof -
  let ?d = "took (bstr k) d"
  obtain c where peek: "peekByte d = Inr c" "c \<noteq> CHR ''e''"
    using bstr_append_head [of k "benc b @ rest"] assms(5) by (auto simp: peekByte_def)
  have key: "decodeString TString (VString []) d = (None, VString k, ?d)"
    using decodeString_frame [OF assms(1,5)] by (simp add: setString_def)
  have inp: "dr ?d = benc b @ rest" using assms(5) by simp
  note dec = dec_spec [OF assms(2,3) inp]
  show ?thesis
  proof (cases tgt)
    case (IntoMap t')
    then have wf: "wf_type t'" using assms(6) by (simp add: target_ok_def)
    show ?thesis
      using dec [OF _ wf has_type_zero [OF wf]] peek key IntoMap assms(4)
      by (cases "sp b t' (zero t')") (auto simp: took_took split: prod.split option.split)
  next
    case (IntoStruct fm)
    show ?thesis
    proof (cases "map_of fm k")
      case None
      then show ?thesis
        using skip_spec [OF assms(2,3) inp] peek key IntoStruct assms(4) by (simp add: took_took)
    next
      case (Some pu)
      obtain p u where pu: "pu = (p, u)" by fastforce
      note field = target_ok_field [OF assms(6) [unfolded IntoStruct] Some [unfolded pu]]
      show ?thesis
        using dec [OF _ field(1,2)] peek key IntoStruct assms(4) Some pu
        by (cases "sp b u (get_at p v)") (auto simp: took_took split: prod.split option.split)
    qed
  qed
qed

lemma dictLoop_spec:
  "entries_ok kvs \<Longrightarrow> dr d = entries kvs @ ''e'' @ rest \<Longrightarrow> length kvs < m \<Longrightarrow> quiet d \<Longrightarrow>
   target_ok t tgt v \<Longrightarrow>
   implements (entries kvs @ ''e'') d (assign_entries tgt (map spec_entry kvs) v)
     (decodeDictLoop dec skip tgt m lk v d)"
proof (induction kvs arbitrary: m lk v d)
  case Nil
  then obtain m' where "m = Suc m'" by (cases m) auto
  with Nil show ?case by (simp add: wire)
next
  case (Cons kb kvs)
  obtain k b where kb: "kb = (k, b)" by fastforce
  obtain m' where m: "m = Suc m'" using Cons.prems by (cases m) auto
  have inp: "dr d = bstr k @ benc b @ entries kvs @ ''e'' @ rest" using Cons.prems(2) kb by simp
  have ok: "len_ok k" "bval_ok b" "length (benc b) \<le> N" using Cons.prems(1) kb by simp_all
  note step = dictLoop_step [OF ok Cons.prems(4) inp Cons.prems(5), of m' lk]
  show ?case
  proof (cases "assign_entry tgt (k, sp b) v")
    case None
    with step show ?thesis by (simp add: kb m)
  next
    case (Some w)
    have "implements (entries kvs @ ''e'') (took (bstr k @ benc b) d)
        (assign_entries tgt (map spec_entry kvs) w)
        (decodeDictLoop dec skip tgt m' k w (took (bstr k @ benc b) d))"
      using Cons.prems m kb inp assign_entry_target [OF Cons.prems(5) ok(2,3) Some]
      by (intro Cons.IH) auto
    with step Some show ?thesis
      by (cases "assign_entries tgt (map spec_entry kvs) w") (auto simp: kb m took_took)
  qed
qed

lemma decodeObj_spec:
  assumes "entries_ok kvs" and "dr d = benc (BDict kvs) @ rest" and "length kvs < m" and "quiet d"
    and "wf_type t" and "has_type t v"
  shows "implements (benc (BDict kvs)) d (assign_obj (map spec_entry kvs) t v) (decodeObj dec skip m t v d)"
proof -
  have head: "readByte d = (Inr (CHR ''d''), took ''d'' d)" using assms(2) by (simp add: wire)
  have inp: "dr (took ''d'' d) = entries kvs @ ''e'' @ rest" using assms(2) by simp
  have loop: "implements (benc (BDict kvs)) d (assign_entries tgt (map spec_entry kvs) w)
      (decodeDictLoop dec skip tgt m lk w (took ''d'' d))" if "target_ok t tgt w" for tgt w lk
    using dictLoop_spec [OF assms(1) inp assms(3) _ that, of lk] assms(4)
    by (cases "assign_entries tgt (map spec_entry kvs) w") (auto simp: took_took)
  consider (map) kt t' where "under t = TMap kt t'" | (str) fs where "under t = TStruct fs"
    | (other) "\<forall>kt t'. under t \<noteq> TMap kt t'" "\<forall>fs. under t \<noteq> TStruct fs" by blast
  then show ?thesis
  proof cases
    case map
    show ?thesis
    proof (cases "kt = TString")
      case True
      then show ?thesis
        using loop [OF target_ok_map [OF assms(5,6), of t']] map
        by (simp add: decodeObj_def assign_obj_def head)
    next
      case False
      then show ?thesis using map by (simp add: decodeObj_def assign_obj_def head type_error_def)
    qed
  next
    case str
    then obtain v' fm where "wrapStruct2Map t v [] [] = Inr (v', fm)" and "target_ok t (IntoStruct fm) v'"
      using target_ok_struct [OF assms(5,6)] by blast
    then show ?thesis using loop str by (simp add: decodeObj_def assign_obj_def head)
  next
    case other
    then have "assign_obj (map spec_entry kvs) t v = None"
      and "fst (decodeObj dec skip m t v d) = type_error ''dict'' t (took ''d'' d)"
      by (simp_all add: decodeObj_def assign_obj_def head split: gotype.split)
    then show ?thesis by (simp add: type_error_def)
  qed
qed

lemma decodeDict_spec:
  assumes "entries_ok kvs" and "dr d = benc (BDict kvs) @ rest" and "length kvs < m" and "quiet d"
    and "wf_type t" and "has_type t v"
  shows "implements (benc (BDict kvs)) d (assign_dict (map spec_entry kvs) t v) (decodeDict dec skip m t v d)"
proof (cases "under t = TIface")
  case True
  show ?thesis
    using implements_wrap [OF decodeObj_spec [OF assms(1-4), of "TMap TString TIface" "VMap None"],
        of "\<lambda>x. VIface (Some (TMap TString TIface, x))"] True
    by (simp add: decodeDict_def assign_dict_def)
next
  case False
  then show ?thesis using decodeObj_spec [OF assms] by (simp add: decodeDict_def assign_dict_def)
qed

end

section \<open>The refinement\<close>

text \<open>At a target with methods of its own, or none, for any kind of value \<open>b\<close>.\<close>

lemma decodeAt_assign:
  assumes "bval_ok b" and "length (benc b) \<le> Suc n" and "dr d = benc b @ rest"
    and text_of: "txtb = (case b of BStr s \<Rightarrow> Some s | _ \<Rightarrow> None)"
    and k: "method_of unmarshal E t = None \<Longrightarrow> method_of unmarshal_text E t = None \<Longrightarrow>
      implements (benc b) d (k t v) (decodeAt E dec n t v d)"
  shows "implements (benc b) d (assign_at E (benc b) txtb k t v) (decodeAt E dec n t v d)"
proof (cases "method_of unmarshal E t")
  case (Some f)
  have "readValueInto (Suc n) (Some []) d = (None, Some (benc b), took (benc b) d)"
    using readValueInto_benc [OF assms(1,3,2), of "Some []"] by (simp add: bufWrite_def)
  then show ?thesis
    using Some by (simp add: assign_at_def decodeAt_def split: prod.split option.split del: readValueInto.simps)
next
  case no_unmarshal: None
  show ?thesis
  proof (cases "method_of unmarshal_text E t")
    case (Some f)
    show ?thesis
    proof (cases "\<exists>s. b = BStr s")
      case True
      then obtain s where b: "b = BStr s" by blast
      then have "decodeString byte_slice (VSlice None) d =
          (None, VSlice (Some (of_bytes s)), took (benc b) d)"
        using decodeString_frame [of s d rest byte_slice] assms(1,3) by (simp add: setString_def)
      then show ?thesis
        using Some no_unmarshal b text_of by (simp add: assign_at_def decodeAt_def split: prod.split option.split)
    next
      case False
      then have "fst (decodeString byte_slice (VSlice None) d) \<noteq> None"
        using decodeString_no_string assms(3) by blast
      moreover have "txtb = None" using False text_of by (cases b) auto
      ultimately show ?thesis
        using Some no_unmarshal by (auto simp: assign_at_def decodeAt_def split: prod.split)
    qed
  next
    case None
    then show ?thesis using no_unmarshal k by (simp add: assign_at_def)
  qed
qed

lemma readValueInto_skip:
  "bval_ok b \<Longrightarrow> length (benc b) \<le> n \<Longrightarrow> dr d = benc b @ rest \<Longrightarrow>
   readValueInto n None d = (None, None, took (benc b) d)"
  using readValueInto_benc [of b d rest n None] by (simp add: bufWrite_def)

text \<open>On any valid encoding, the byte-level decoder does what the specification says.\<close>

lemma spec_decoder_decode:
  assumes "env_safe E"
  shows "spec_decoder (readValueInto n) (decode E n) (assign E) n"
proof (induction n)
  case 0
  show ?case
    by (intro spec_decoder.intro typed_decode [OF assms] spec_decoder_axioms.intro) simp_all
next
  case (Suc n)
  have leaf: "implements (benc b) d (k t v) (decodeAt E (decode E n) n t v d)"
    if "method_of unmarshal E t = None" "method_of unmarshal_text E t = None"
      and "peekByte d = Inr c"
      and "implements (benc b) d (k t v)
        (if c = CHR ''i'' then decodeInt t v d
         else if is_digit c then decodeString t v d
         else if c = CHR ''l'' then decodeList (decode E n) (readValueInto n) n t v d
         else if c = CHR ''d'' then decodeDict (decode E n) (readValueInto n) n t v d
         else (Some (Err (SyntaxError InvalidInput (doffset d))), v, d))" for b k t v d c
    using that by (simp add: decodeAt_def)
  have at: "implements (benc b) d (assign E b t v) (decode E (Suc n) t v d)"
    if ok: "bval_ok b" and len: "length (benc b) \<le> Suc n" and inp: "dr d = benc b @ rest"
      and q: "quiet d" and wf: "wf_type t" and ty: "has_type t v" for b d rest t v
  proof (cases b)
    case (BInt i)
    have "implements (benc b) d (assign_at E (benc b) None (assign_int i) t v) (decodeAt E (decode E n) n t v d)"
      for t v
      using inp ok BInt decodeInt_assign [of i d rest t v]
      by (intro decodeAt_assign [OF ok len inp] leaf [of t d "CHR ''i''"]) (simp_all add: wire)
    then show ?thesis using follow_through [OF _ wf ty] BInt by simp
  next
    case (BStr s)
    obtain c cs where c: "bstr s @ rest = c # cs" "is_digit c" using bstr_append_head by blast
    have "implements (benc b) d (assign_at E (benc b) (Some s) (assign_str s) t v) (decodeAt E (decode E n) n t v d)"
      for t v
      using inp ok BStr decodeString_assign [of s d rest t v] c is_digit_neq(5)
      by (intro decodeAt_assign [OF ok len inp] leaf [of t d c]) (auto simp: wire)
    then show ?thesis using follow_through [OF _ wf ty] BStr by simp
  next
    case (BList bs)
    have es: "spec_decoder.elems_ok n bs" "length bs < n"
      using ok len BList length_benc_elem [of _ bs] length_bs_le [of bs]
      by (fastforce simp: spec_decoder.elems_ok_def [OF Suc.IH] list_all_iff)+
    have "implements (benc b) d (assign_at E (benc b) None (assign_list (map (assign E) bs)) t v)
        (decodeAt E (decode E n) n t v d)" if "wf_type t" "has_type t v" for t v
      using inp ok BList spec_decoder.decodeList_spec [OF Suc.IH es(1) _ es(2) q that, of rest]
      by (intro decodeAt_assign [OF ok len inp] leaf [of t d "CHR ''l''"]) (simp_all add: wire is_digit_def)
    then show ?thesis using follow_through [OF _ wf ty] BList by simp
  next
    case (BDict kvs)
    have es: "spec_decoder.entries_ok n kvs" "length kvs < n"
      using ok len BDict length_benc_entry [of _ _ kvs] length_kvs_le [of kvs]
      by (fastforce simp: spec_decoder.entries_ok_def [OF Suc.IH] list_all_iff)+
    have "implements (benc b) d
        (assign_at E (benc b) None (assign_dict (map (\<lambda>(k, b). (k, assign E b)) kvs)) t v)
        (decodeAt E (decode E n) n t v d)" if "wf_type t" "has_type t v" for t v
      using inp ok BDict spec_decoder.decodeDict_spec [OF Suc.IH es(1) _ es(2) q that, of rest]
      by (intro decodeAt_assign [OF ok len inp] leaf [of t d "CHR ''d''"]) (simp_all add: wire is_digit_def)
    then show ?thesis using follow_through [OF _ wf ty] BDict by simp
  qed
  show ?case
    by (intro spec_decoder.intro typed_decode [OF assms] spec_decoder_axioms.intro)
      (use at readValueInto_skip in \<open>auto simp del: readValueInto.simps decode.simps assign.simps\<close>)
qed

lemma decodeInto_assign:
  assumes "env_safe E" and "bval_ok b" and "quiet d" and "dr d = benc b @ rest"
    and "wf_type t" and "has_type t v" and "unknownFieldsErr d = None" and "unorderedKeysErr d = None"
  shows "implements (benc b) d (assign E b t v) (decodeInto E t v d)"
proof -
  have "implements (benc b) d (assign E b t v) (decode E (Suc (length (dr d))) t v d)"
    using spec_decoder.dec_spec [OF spec_decoder_decode [OF assms(1), of "Suc (length (dr d))"] assms(2) _
        assms(4,3,5,6)] assms(4)
    by (simp del: decode.simps)
  then show ?thesis
    using assms(7,8)
    by (cases "assign E b t v")
      (auto simp: decodeInto_def late_error_def took_def simp del: decode.simps split: prod.split option.split)
qed

lemma unmarshal_var_assign:
  assumes "env_safe E" and "bval_ok b" and "wf_type t" and "has_type t v"
  shows "(case assign E b t v of
      Some x \<Rightarrow> unmarshal_var E (benc b @ rest) t v = (None, x)
    | None \<Rightarrow> fst (unmarshal_var E (benc b @ rest) t v) \<noteq> None)"
  using decodeInto_assign [OF assms(1,2), of "newDecoder (benc b @ rest)" rest t v] assms(3,4)
  by (cases "assign E b t v") (auto simp: unmarshal_var_def newDecoder_def quiet_def split: prod.split)

end
