(* ===== verification/Bencode_Encode.thy ===== *)
theory Bencode_Encode
  imports Bencode_Decode
begin

text \<open>
  \<open>Encoder.Encode\<close> of \<open>bencode/encode.go\<close> over a \<open>bytes.Buffer\<close>, whose writes never fail. An
  operation returns how it ended and the bytes it wrote, which stay in the buffer after an error.
\<close>

section \<open>Output\<close>

type_synonym written = "abort option \<times> bytes"

definition emit :: "bytes \<Rightarrow> written" where
  "emit s = (None, s)"

text \<open>Consecutive writes, up to the first that fails.\<close>

fun run_all :: "written list \<Rightarrow> written" where
  "run_all [] = (None, [])"
| "run_all ((Some e, s) # os) = (Some e, s)"
| "run_all ((None, s) # os) = (case run_all os of (e, s') \<Rightarrow> (e, s @ s'))"

text \<open>\<open>fmt.Fprintf(e.w, "%d:%s", len(s), s)\<close> and \<open>fmt.Fprintf(e.w, "i%de", n)\<close>\<close>

definition writeString :: "bytes \<Rightarrow> written" where
  "writeString s = emit (show_nat (length s) @ '':'' @ s)"

definition writeInt :: "int \<Rightarrow> written" where
  "writeInt n = emit (''i'' @ show_int n @ ''e'')"

section \<open>Reflected values\<close>

text \<open>
  A \<open>reflect.Value\<close>: whether it is addressable, its type and the value. \<open>Elem\<close> of a pointer is
  addressable, \<open>Elem\<close> of an interface and \<open>MapIndex\<close> are not.
\<close>

type_synonym rvalue = "bool \<times> gotype \<times> goval"

text \<open>\<open>getDirectValue\<close>: through pointers and interfaces; \<^const>\<open>None\<close> is the invalid \<open>reflect.Value{}\<close>.\<close>

function getDirectValue :: "bool \<Rightarrow> gotype \<Rightarrow> goval \<Rightarrow> rvalue option" where
  "getDirectValue a t v =
     (case (under t, v) of
        (TPtr t', VPtr None) \<Rightarrow> None
      | (TPtr t', VPtr (Some x)) \<Rightarrow> getDirectValue True t' x
      | (TIface, VIface None) \<Rightarrow> None
      | (TIface, VIface (Some (t', x))) \<Rightarrow> getDirectValue False t' x
      | _ \<Rightarrow> Some (a, t, v))"
  by pat_completeness auto
termination
  by (relation "measure (\<lambda>(a, t, v). size v)") auto

declare getDirectValue.simps [simp del]

lemma getDirectValue_cases:
  obtains (ptr) t' x where "under t = TPtr t'" "v = VPtr (Some x)"
      "getDirectValue a t v = getDirectValue True t' x"
  | (iface) t' x where "under t = TIface" "v = VIface (Some (t', x))"
      "getDirectValue a t v = getDirectValue False t' x"
  | (ptr_nil) t' where "under t = TPtr t'" "v = VPtr None" "getDirectValue a t v = None"
  | (iface_nil) "under t = TIface" "v = VIface None" "getDirectValue a t v = None"
  | (direct) "\<forall>t' p. under t = TPtr t' \<longrightarrow> v \<noteq> VPtr p" "\<forall>i. under t = TIface \<longrightarrow> v \<noteq> VIface i"
      "getDirectValue a t v = Some (a, t, v)"
proof (cases "(\<exists>t' p. under t = TPtr t' \<and> v = VPtr p) \<or> (\<exists>i. under t = TIface \<and> v = VIface i)")
  case True
  then consider t' p where "under t = TPtr t'" "v = VPtr p" | i where "under t = TIface" "v = VIface i"
    by blast
  then show ?thesis
  proof cases
    case 1
    then show ?thesis using ptr ptr_nil by (cases p) (simp_all add: getDirectValue.simps [of a t])
  next
    case 2
    then show ?thesis using iface iface_nil
      by (cases i) (auto simp: getDirectValue.simps [of a t] split: prod.splits)
  qed
next
  case False
  then have "getDirectValue a t v = Some (a, t, v)"
    by (subst getDirectValue.simps) (cases "under t"; cases v; simp)
  with False show ?thesis using direct by blast
qed

lemma getDirectValue_size: "getDirectValue a t v = Some (a', t', x) \<Longrightarrow> size x \<le> size v"
proof (induction "size v" arbitrary: a t v rule: less_induct)
  case less
  show ?case
  proof (cases a t v rule: getDirectValue_cases)
    case (ptr t1 y)
    then show ?thesis using less.hyps [of y True t1] less.prems by simp
  next
    case (iface t1 y)
    then show ?thesis using less.hyps [of y False t1] less.prems by simp
  qed (use less.prems in auto)
qed

definition isEmptyValue :: "goval \<Rightarrow> bool" where
  "isEmptyValue v =
     (case v of
        VArray vs \<Rightarrow> vs = []
      | VMap m \<Rightarrow> (case m of None \<Rightarrow> True | Some kvs \<Rightarrow> kvs = [])
      | VSlice s \<Rightarrow> (case s of None \<Rightarrow> True | Some vs \<Rightarrow> vs = [])
      | VString s \<Rightarrow> s = []
      | VBool b \<Rightarrow> \<not> b
      | VInt n \<Rightarrow> n = 0
      | VUint n \<Rightarrow> n = 0
      | VOther z \<Rightarrow> z
      | VIface i \<Rightarrow> i = None
      | VPtr p \<Rightarrow> p = None
      | VStruct vs \<Rightarrow> False)"

section \<open>Struct fields\<close>

type_synonym dictionary = "(string \<times> rvalue) list"

text \<open>The second loop of \<open>readStruct\<close>.\<close>

fun readFields :: "(field_info \<times> gotype) list \<Rightarrow> goval list \<Rightarrow> bool \<Rightarrow> dictionary \<Rightarrow> dictionary" where
  "readFields ((f, t) # fs) (v # vs) a dict =
     readFields fs vs a
       (if \<not> fld_exported f then dict
        else if fld_anonymous f \<and> fld_tag f = None then dict
        else (case getDirectValue a t v of
                None \<Rightarrow> dict
              | Some val \<Rightarrow>
                  (case fld_tag f of
                     None \<Rightarrow> dict @ [(fld_name f, val)]
                   | Some tag \<Rightarrow>
                       (case parseTag tag of
                          (name, opts) \<Rightarrow>
                            (if ignored opts then dict
                             else if omitEmpty opts \<and> isEmptyValue v then dict
                             else dict @ [(if name \<noteq> [] then name else fld_name f, val)])))))"
| "readFields fs vs a dict = dict"

text \<open>\<open>readStruct\<close> and its first loop, over the embedded structs.\<close>

function readStruct :: "dictionary \<Rightarrow> bool \<Rightarrow> gotype \<Rightarrow> goval \<Rightarrow> abort + dictionary"
  and readEmbedded :: "(field_info \<times> gotype) list \<Rightarrow> goval list \<Rightarrow> bool \<Rightarrow> dictionary \<Rightarrow> abort + dictionary" where
  "readStruct dict a t v =
     (case (under t, v) of
        (TStruct fs, VStruct vs) \<Rightarrow>
          (case readEmbedded fs vs a dict of
             Inl e \<Rightarrow> Inl e
           | Inr dict' \<Rightarrow> Inr (readFields fs vs a dict'))
      | _ \<Rightarrow> Inl (Panic ''reflect: call of NumField on a value that is no struct''))"
| "readEmbedded ((f, t) # fs) (v # vs) a dict =
     (if fld_exported f \<and> fld_anonymous f \<and> fld_tag f = None
      then (case getDirectValue a t v of
              None \<Rightarrow> readEmbedded fs vs a dict
            | Some (a', t', x) \<Rightarrow>
                (case readStruct dict a' t' x of
                   Inl e \<Rightarrow> Inl e
                 | Inr dict' \<Rightarrow> readEmbedded fs vs a dict'))
      else readEmbedded fs vs a dict)"
| "readEmbedded [] vs a dict = Inr dict"
| "readEmbedded (ft # fs) [] a dict = Inr dict"
  by pat_completeness auto
termination
  by (relation "measure (case_sum (\<lambda>(dict, a, t, v). size v) (\<lambda>(fs, vs, a, dict). size_list size vs))")
    (auto dest!: getDirectValue_size)

declare readStruct.simps [simp del]

lemma readFields_size:
  "(k, a', t', x) \<in> set (readFields fs vs a dict) \<Longrightarrow>
   (k, a', t', x) \<in> set dict \<or> size x < Suc (size_list size vs)"
proof (induction fs vs a dict rule: readFields.induct)
  case (1 f t fs v vs a dict)
  then show ?case
    by (fastforce dest: getDirectValue_size split: if_splits option.splits prod.splits)
qed auto

lemma readStruct_size:
  "readStruct dict a t v = Inr dict' \<Longrightarrow> (k, a', t', x) \<in> set dict' \<Longrightarrow>
    (k, a', t', x) \<in> set dict \<or> size x < size v"
  "readEmbedded fs vs a dict = Inr dict' \<Longrightarrow> (k, a', t', x) \<in> set dict' \<Longrightarrow>
    (k, a', t', x) \<in> set dict \<or> size x < Suc (size_list size vs)"
proof (induction dict a t v and fs vs a dict arbitrary: dict' and dict' rule: readStruct_readEmbedded.induct)
  case (1 dict a t v)
  from "1.prems"(1) obtain fs vs where fs: "under t = TStruct fs" and vs: "v = VStruct vs"
    by (subst (asm) readStruct.simps) (cases "under t"; cases v; simp)
  with "1.prems"(1) obtain d where d: "readEmbedded fs vs a dict = Inr d" "dict' = readFields fs vs a d"
    by (subst (asm) readStruct.simps) (auto split: sum.splits)
  have "(k, a', t', x) \<in> set d \<or> size x < size v"
    using "1.prems"(2) readFields_size d(2) vs by fastforce
  then show ?case using "1.IH" [OF _ fs vs d(1)] fs vs by auto
next
  case (2 f t fs v vs a dict)
  then show ?case
    by (fastforce dest: getDirectValue_size split: if_splits option.splits sum.splits)
qed auto

section \<open>Values\<close>

text \<open>
  The method the type switch of \<open>encode\<close> finds on a value of type \<open>t\<close>, or on a pointer to one
  (\<open>ptr\<close>), whose method set has the value methods too: \<open>MarshalBencode\<close>, whose result is written
  as it is, before \<open>MarshalText\<close>, whose result becomes a string.
\<close>

datatype marshal_method = Direct bool "goval option \<Rightarrow> abort + bytes" | Text bool "goval option \<Rightarrow> abort + bytes"

definition methods_at :: "env \<Rightarrow> bool \<Rightarrow> gotype \<Rightarrow> marshal_method option" where
  "methods_at E ptr t =
     (case t of
        TNamed nm t' \<Rightarrow>
          (case (if ptr \<or> \<not> marshal_on_ptr (E nm) then marshal (E nm) else None) of
             Some f \<Rightarrow> Some (Direct (marshal_on_ptr (E nm)) f)
           | None \<Rightarrow>
          (case (if ptr \<or> \<not> marshal_text_on_ptr (E nm) then marshal_text (E nm) else None) of
             Some f \<Rightarrow> Some (Text (marshal_text_on_ptr (E nm)) f)
           | None \<Rightarrow> None))
      | _ \<Rightarrow> None)"

text \<open>The call: a method of the value panics when it is reached through a nil pointer.\<close>

definition invoke :: "bool \<Rightarrow> (goval option \<Rightarrow> abort + bytes) \<Rightarrow> goval option \<Rightarrow> abort + bytes" where
  "invoke on_ptr f recv =
     (if recv = None \<and> \<not> on_ptr then Inl (Panic ''value method called using nil pointer'') else f recv)"

definition write_method :: "marshal_method \<Rightarrow> goval option \<Rightarrow> written" where
  "write_method m recv =
     (case m of
        Direct on_ptr f \<Rightarrow>
          (case invoke on_ptr f recv of Inl e \<Rightarrow> (Some e, []) | Inr data \<Rightarrow> emit data)
      | Text on_ptr f \<Rightarrow>
          (case invoke on_ptr f recv of Inl e \<Rightarrow> (Some e, []) | Inr data \<Rightarrow> writeString data))"

text \<open>
  A non-nil interface offers the methods of what it holds. That may be a nil pointer, on which the
  method is then called.
\<close>

definition iface_method :: "env \<Rightarrow> gotype \<Rightarrow> goval \<Rightarrow> written option" where
  "iface_method E t v =
     (case t of
        TPtr t' \<Rightarrow>
          map_option (\<lambda>m. write_method m (case v of VPtr p \<Rightarrow> p | _ \<Rightarrow> None)) (methods_at E True t')
      | _ \<Rightarrow> map_option (\<lambda>m. write_method m (Some v)) (methods_at E False t))"

definition encodeArrayOrSlice :: "gotype \<Rightarrow> goval list \<Rightarrow> written list \<Rightarrow> written" where
  "encodeArrayOrSlice t vs elems =
     (if t = byte_slice
      then run_all [emit (show_nat (length vs) @ '':''), emit (to_bytes vs)]
      else run_all ([emit ''l''] @ elems @ [emit ''e'']))"

text \<open>
  The entries of \<open>encodeMap\<close> and \<open>encodeStruct\<close>: sorted by key, a nil element of a map left out. The
  keys of a map are distinct, so the order of a sorted list is determined; equal keys of a struct
  keep their order (the insertion sort \<open>sort.Sort\<close> uses on up to 12 entries is stable).
\<close>

definition map_entries :: "gotype \<Rightarrow> (bytes \<times> goval) list \<Rightarrow> dictionary" where
  "map_entries t' kvs =
     List.map_filter (\<lambda>(k, x). map_option (Pair k) (getDirectValue False t' x)) (sort_key fst kvs)"

definition struct_entries :: "dictionary \<Rightarrow> dictionary" where
  "struct_entries dict = sort_key fst dict"

lemma map_entries_size:
  assumes "(k, a', t'', x) \<in> set (map_entries t' kvs)"
  shows "size x < Suc (size_list (size_prod (\<lambda>_. 0) size) kvs)"
proof -
  obtain y where "(k, y) \<in> set kvs" and "getDirectValue False t' y = Some (a', t'', x)"
    using assms by (auto simp: map_entries_def List.map_filter_def split: prod.splits)
  then show ?thesis
    using size_map_elem [of k y kvs] getDirectValue_size by fastforce
qed

function encode :: "env \<Rightarrow> bool \<Rightarrow> gotype \<Rightarrow> goval \<Rightarrow> written"
  and encodeLoop :: "env \<Rightarrow> bool \<Rightarrow> gotype \<Rightarrow> goval \<Rightarrow> written"
  and encodeKind :: "env \<Rightarrow> bool \<Rightarrow> gotype \<Rightarrow> goval \<Rightarrow> written" where
  \<comment> \<open>an addressable named value is taken by its address first\<close>
  "encode E a t v =
     (case (if a then methods_at E True t else None) of
        Some m \<Rightarrow> write_method m (Some v)
      | None \<Rightarrow> encodeLoop E a t v)"
| "encodeLoop E a t v =
     (case (under t, v) of
        (TPtr t', VPtr None) \<Rightarrow> (None, [])
      | (TPtr t', VPtr (Some x)) \<Rightarrow>
          (case methods_at E True t' of
             Some m \<Rightarrow> write_method m (Some x)
           | None \<Rightarrow> encodeLoop E True t' x)
      | (TIface, VIface None) \<Rightarrow> (None, [])
      | (TIface, VIface (Some (t', x))) \<Rightarrow>
          (case iface_method E t' x of
             Some w \<Rightarrow> w
           | None \<Rightarrow> encodeLoop E False t' x)
      | _ \<Rightarrow>
          (case methods_at E False t of
             Some m \<Rightarrow> write_method m (Some v)
           | None \<Rightarrow> encodeKind E a t v))"
| "encodeKind E a t v =
     (case (under t, v) of
        (TInt w, VInt n) \<Rightarrow> writeInt n
      | (TUint w, VUint n) \<Rightarrow> writeInt n
      | (TBool, VBool b) \<Rightarrow> writeInt (if b then 1 else 0)
      | (TString, VString s) \<Rightarrow> writeString s
      | (TSlice t', VSlice s) \<Rightarrow>
          (case s of
             None \<Rightarrow> encodeArrayOrSlice t [] []
           | Some vs \<Rightarrow> encodeArrayOrSlice t vs (map (encode E True t') vs))
      | (TArray k t', VArray vs) \<Rightarrow> encodeArrayOrSlice t vs (map (encode E a t') vs)
      | (TMap kt t', VMap m) \<Rightarrow>
          (case m of
             None \<Rightarrow> run_all [emit ''d'', emit ''e'']
           | Some kvs \<Rightarrow>
               run_all ([emit ''d''] @
                 concat (map (\<lambda>(k, a', t'', x). [encode E False kt (VString k), encode E a' t'' x])
                   (map_entries t' kvs)) @
                 [emit ''e'']))
      | (TStruct fs, VStruct vs) \<Rightarrow>
          (case readStruct [] a t v of
             Inl e \<Rightarrow> (Some e, ''d'')
           | Inr dict \<Rightarrow>
               run_all ([emit ''d''] @
                 concat (map (\<lambda>(k, a', t', x). [writeString k, encode E a' t' x]) (struct_entries dict)) @
                 [emit ''e'']))
      | (TOther k, _) \<Rightarrow> (Some (Err (UnsupportedTypeError t)), [])
      | _ \<Rightarrow> (Some (Panic ''reflect: value of another type''), []))"
  by pat_completeness auto
termination
  by (relation "measures [case_sum (\<lambda>(E, a, t, v). size v) (case_sum (\<lambda>(E, a, t, v). size v) (\<lambda>(E, a, t, v). size v)),
        case_sum (\<lambda>_. 2) (case_sum (\<lambda>_. 1) (\<lambda>_. 0))]")
    (auto simp: struct_entries_def size_elem intro: less_SucI dest!: map_entries_size readStruct_size(1) split: prod.splits)

declare encode.simps [simp del] encodeLoop.simps [simp del] encodeKind.simps [simp del]

text \<open>\<open>Encode\<close> and \<open>Marshal\<close>; \<open>Marshal(nil)\<close> panics on the type of the invalid value.\<close>

definition Encode :: "env \<Rightarrow> (gotype \<times> goval) option \<Rightarrow> written" where
  "Encode E arg =
     (case arg of
        None \<Rightarrow> (Some (Panic ''reflect: call of reflect.Value.Type on zero Value''), [])
      | Some (t, v) \<Rightarrow> encode E False t v)"

definition Marshal :: "env \<Rightarrow> (gotype \<times> goval) option \<Rightarrow> bytes \<times> abort option" where
  "Marshal E arg = (case Encode E arg of (e, data) \<Rightarrow> (data, e))"

end
