(* ===== verification/Encode_Spec.thy ===== *)
theory Encode_Spec
  imports Bencode_Encode
begin

text \<open>
  The functional specification of \<open>encode\<close>: \<open>to_bval t v\<close> is the abstract value a Go value stands
  for, \<^const>\<open>None\<close> for nil. Where no type has marshalling methods, the encoder writes exactly its
  encoding, so its output is well-formed, its dictionaries sorted, and it does not depend on the
  order in which Go iterates over a map.
\<close>

section \<open>The specification\<close>

definition direct :: "gotype \<Rightarrow> goval \<Rightarrow> (gotype \<times> goval) option" where
  "direct t v = map_option snd (getDirectValue False t v)"

lemma direct_any: "map_option snd (getDirectValue a t v) = direct t v"
proof (induction "size v" arbitrary: a t v rule: less_induct)
  case less
  have same: "map_option snd (getDirectValue a' t' x) = map_option snd (getDirectValue a'' t' x)"
    if "size x < size v" for x t' a' a''
    using less that by metis
  show ?case
    unfolding direct_def
    by (cases a t v rule: getDirectValue_cases; cases False t v rule: getDirectValue_cases) (auto intro: same)
qed

lemma direct_cases:
  obtains (ptr) t' x where "under t = TPtr t'" "v = VPtr (Some x)" "direct t v = direct t' x"
  | (iface) t' x where "under t = TIface" "v = VIface (Some (t', x))" "direct t v = direct t' x"
  | (ptr_nil) t' where "under t = TPtr t'" "v = VPtr None" "direct t v = None"
  | (iface_nil) "under t = TIface" "v = VIface None" "direct t v = None"
  | (direct) "\<forall>t' p. under t = TPtr t' \<longrightarrow> v \<noteq> VPtr p" "\<forall>i. under t = TIface \<longrightarrow> v \<noteq> VIface i"
      "direct t v = Some (t, v)"
proof (cases False t v rule: getDirectValue_cases)
  case (ptr t' x)
  moreover from ptr(3) have "direct t v = direct t' x" using direct_any [of True t' x] by (simp add: direct_def)
  ultimately show ?thesis using that(1) by blast
next
  case (iface t' x)
  moreover from iface(3) have "direct t v = direct t' x" by (simp add: direct_def)
  ultimately show ?thesis using that(2) by blast
next
  case (ptr_nil t')
  then show ?thesis using that(3) by (simp add: direct_def)
next
  case iface_nil
  then show ?thesis using that(4) by (simp add: direct_def)
next
  case direct
  then show ?thesis using that(5) by (simp add: direct_def)
qed

lemma direct_size: "direct t v = Some (t', x) \<Longrightarrow> size x \<le> size v"
  unfolding direct_def using getDirectValue_size by fastforce

lemma map_filter_cong [fundef_cong]:
  "xs = ys \<Longrightarrow> (\<And>x. x \<in> set ys \<Longrightarrow> f x = g x) \<Longrightarrow> List.map_filter f xs = List.map_filter g ys"
  by (induction ys arbitrary: xs) (auto simp: List.map_filter_simps split: option.split)

text \<open>The name a field is written under, and whether it is left out.\<close>

definition own_field :: "(field_info \<times> gotype) \<times> goval \<Rightarrow> (string \<times> gotype \<times> goval) option" where
  "own_field fv =
     (case fv of ((f, t), v) \<Rightarrow>
       (if \<not> fld_exported f \<or> (fld_anonymous f \<and> fld_tag f = None) then None
        else (case direct t v of
                None \<Rightarrow> None
              | Some val \<Rightarrow>
                  (case fld_tag f of
                     None \<Rightarrow> Some (fld_name f, val)
                   | Some tag \<Rightarrow>
                       (if ignored (snd (parseTag tag)) \<or> omitEmpty (snd (parseTag tag)) \<and> isEmptyValue v then None
                        else Some (if fst (parseTag tag) \<noteq> [] then fst (parseTag tag) else fld_name f, val))))))"

text \<open>The fields of a struct: those of the embedded structs first, then its own.\<close>

definition struct_parts :: "gotype \<Rightarrow> goval \<Rightarrow> ((field_info \<times> gotype) \<times> goval) list" where
  "struct_parts t v = (case (under t, v) of (TStruct fs, VStruct vs) \<Rightarrow> zip fs vs | _ \<Rightarrow> [])"

lemma struct_parts_size: "(ft, x) \<in> set (struct_parts t v) \<Longrightarrow> size x < size v"
  using size_elem
  by (auto simp: struct_parts_def dest!: set_zip_rightD split: gotype.splits goval.splits)

function all_fields :: "gotype \<Rightarrow> goval \<Rightarrow> (string \<times> gotype \<times> goval) list" where
  "all_fields t v =
     concat (map (\<lambda>fv.
         if embedded (fst (fst fv))
         then (case direct (snd (fst fv)) (snd fv) of
                 None \<Rightarrow> []
               | Some tx \<Rightarrow> all_fields (fst tx) (snd tx))
         else []) (struct_parts t v)) @
     List.map_filter own_field (struct_parts t v)"
  by pat_completeness auto
termination
proof (relation "measure (\<lambda>p. size (snd p))")
  fix t v fv tx
  assume "fv \<in> set (struct_parts t v)" and "direct (snd (fst fv)) (snd fv) = Some tx"
  then have "size (snd fv) < size v" and "size (snd tx) \<le> size (snd fv)"
    using struct_parts_size [of "fst fv" "snd fv"] direct_size [of _ "snd fv" "fst tx" "snd tx"] by simp_all
  then show "((fst tx, snd tx), t, v) \<in> measure (\<lambda>p. size (snd p))" by simp
qed simp

declare all_fields.simps [simp del]

definition slice_elems :: "goval list option \<Rightarrow> goval list" where
  "slice_elems s = (case s of None \<Rightarrow> [] | Some vs \<Rightarrow> vs)"

definition map_elems :: "(bytes \<times> goval) list option \<Rightarrow> (bytes \<times> goval) list" where
  "map_elems m = (case m of None \<Rightarrow> [] | Some kvs \<Rightarrow> kvs)"

lemma own_field_size: "own_field ((f, t), v) = Some (k, t', x) \<Longrightarrow> size x \<le> size v"
  using direct_size [of t v] by (auto simp: own_field_def split: if_splits option.splits)

lemma all_fields_cases:
  assumes "e \<in> set (all_fields t v)"
  obtains (deep) ft x t' y where "(ft, x) \<in> set (struct_parts t v)" "embedded (fst ft)"
      "direct (snd ft) x = Some (t', y)" "e \<in> set (all_fields t' y)"
  | (own) ft x where "(ft, x) \<in> set (struct_parts t v)" "own_field (ft, x) = Some e"
proof -
  from assms consider fv where "fv \<in> set (struct_parts t v)" "embedded (fst (fst fv))"
      "e \<in> set (case direct (snd (fst fv)) (snd fv) of None \<Rightarrow> [] | Some tx \<Rightarrow> all_fields (fst tx) (snd tx))"
    | fv where "fv \<in> set (struct_parts t v)" "own_field fv = Some e"
    by (subst (asm) all_fields.simps [of t v]) (force simp: List.map_filter_def split: if_splits)
  then show ?thesis
  proof cases
    case 1
    then obtain tx where "direct (snd (fst fv)) (snd fv) = Some tx" "e \<in> set (all_fields (fst tx) (snd tx))"
      by (cases "direct (snd (fst fv)) (snd fv)") auto
    then show ?thesis using deep [of "fst fv" "snd fv" "fst tx" "snd tx"] 1 by simp
  next
    case 2
    then show ?thesis using own [of "fst fv" "snd fv"] by simp
  qed
qed

lemma all_fields_size: "e \<in> set (all_fields t v) \<Longrightarrow> size (snd (snd e)) < size v"
proof (induction "size v" arbitrary: t v rule: less_induct)
  case less
  from less.prems show ?case
  proof (cases rule: all_fields_cases)
    case (deep ft y t1 z)
    then have "size y < size v" "size z \<le> size y" using struct_parts_size direct_size by blast+
    moreover from this have "size (snd (snd e)) < size z" using less.hyps deep by simp
    ultimately show ?thesis by simp
  next
    case (own ft y)
    then show ?thesis
      using struct_parts_size [of ft y t v]
        own_field_size [of "fst ft" "snd ft" y "fst e" "fst (snd e)" "snd (snd e)"] by simp
  qed
qed

function to_bval :: "gotype \<Rightarrow> goval \<Rightarrow> bval option" where
  "to_bval t v =
     (case (under t, v) of
        (TPtr t', VPtr (Some x)) \<Rightarrow> to_bval t' x
      | (TIface, VIface (Some (t', x))) \<Rightarrow> to_bval t' x
      | (TInt w, VInt n) \<Rightarrow> Some (BInt n)
      | (TUint w, VUint n) \<Rightarrow> Some (BInt n)
      | (TBool, VBool b) \<Rightarrow> Some (BInt (if b then 1 else 0))
      | (TString, VString s) \<Rightarrow> Some (BStr s)
      | (TSlice t', VSlice s) \<Rightarrow>
          Some (if t = byte_slice then BStr (to_bytes (slice_elems s))
                else BList (List.map_filter (to_bval t') (slice_elems s)))
      | (TArray k t', VArray vs) \<Rightarrow> Some (BList (List.map_filter (to_bval t') vs))
      | (TMap kt t', VMap m) \<Rightarrow>
          Some (BDict (List.map_filter (\<lambda>(k, x). map_option (Pair k) (to_bval t' x)) (sort_key fst (map_elems m))))
      | (TStruct fs, VStruct vs) \<Rightarrow>
          Some (BDict (List.map_filter (\<lambda>e. map_option (Pair (fst e)) (to_bval (fst (snd e)) (snd (snd e))))
            (sort_key fst (all_fields t v))))
      | _ \<Rightarrow> None)"
  by pat_completeness auto
termination
proof (relation "measure (\<lambda>p. size (snd p))")
  fix t v x y fs vs and e :: "string \<times> gotype \<times> goval"
  assume "(x, y) = (under t, v)" and "y = VStruct vs" and "e \<in> set (sort_key fst (all_fields t v))"
  then show "((fst (snd e), snd (snd e)), t, v) \<in> measure (\<lambda>p. size (snd p))"
    using all_fields_size [of e t v] by simp
qed (auto simp: slice_elems_def map_elems_def intro: less_SucI dest!: size_elem size_map_elem split: option.splits)

declare to_bval.simps [simp del]

section \<open>Values the encoder accepts\<close>

text \<open>
  No float, channel or function inside, and no named type with a marshalling method of its own; the
  types and the value fit.
\<close>

fun plain_type :: "env \<Rightarrow> gotype \<Rightarrow> bool" where
  "plain_type E (TNamed nm t) \<longleftrightarrow> marshal (E nm) = None \<and> marshal_text (E nm) = None \<and> plain_type E t"
| "plain_type E (TSlice t) \<longleftrightarrow> plain_type E t"
| "plain_type E (TArray k t) \<longleftrightarrow> plain_type E t"
| "plain_type E (TMap kt t) \<longleftrightarrow> plain_type E t"
| "plain_type E (TStruct fs) \<longleftrightarrow> (\<forall>(f, t) \<in> set fs. plain_type E t)"
| "plain_type E (TPtr t) \<longleftrightarrow> plain_type E t"
| "plain_type E t \<longleftrightarrow> True"

fun encodable :: "env \<Rightarrow> goval \<Rightarrow> bool" where
  "encodable E (VOther z) \<longleftrightarrow> False"
| "encodable E (VSlice (Some vs)) \<longleftrightarrow> list_all (encodable E) vs"
| "encodable E (VArray vs) \<longleftrightarrow> list_all (encodable E) vs"
| "encodable E (VMap (Some kvs)) \<longleftrightarrow> list_all (\<lambda>(k, x). encodable E x) kvs"
| "encodable E (VStruct vs) \<longleftrightarrow> list_all (encodable E) vs"
| "encodable E (VPtr (Some v)) \<longleftrightarrow> encodable E v"
| "encodable E (VIface (Some (t, v))) \<longleftrightarrow> plain_type E t \<and> encodable E v"
| "encodable E v \<longleftrightarrow> True"

definition good :: "env \<Rightarrow> gotype \<Rightarrow> goval \<Rightarrow> bool" where
  "good E t v \<longleftrightarrow> wf_type t \<and> has_type t v \<and> plain_type E t \<and> encodable E v"

lemma plain_type_under: "plain_type E t \<Longrightarrow> plain_type E (under t)"
  by (induction t rule: under.induct) auto

lemma plain_methods [simp]: "plain_type E t \<Longrightarrow> methods_at E p t = None"
  by (cases t) (simp_all add: methods_at_def)

lemma plain_iface [simp]: "plain_type E t \<Longrightarrow> iface_method E t v = None"
  by (cases t) (simp_all add: iface_method_def)

lemma good_plain: "good E t v \<Longrightarrow> plain_type E t"
  by (simp add: good_def)

definition reached :: "gotype \<Rightarrow> bool" where
  "reached t \<longleftrightarrow> (\<forall>t'. under t \<noteq> TPtr t') \<and> under t \<noteq> TIface"

lemma good_under: "good E t v \<Longrightarrow> good E (under t) v"
  by (simp add: good_def wf_type_under has_type_under plain_type_under)

lemma good_ptr: "under t = TPtr t' \<Longrightarrow> good E t v \<Longrightarrow> \<exists>p. v = VPtr p \<and> (\<forall>x. p = Some x \<longrightarrow> good E t' x)"
  using good_under [of E t v] by (auto simp: good_def split: option.splits)

lemma good_iface:
  "under t = TIface \<Longrightarrow> good E t v \<Longrightarrow> \<exists>i. v = VIface i \<and> (\<forall>t' x. i = Some (t', x) \<longrightarrow> good E t' x)"
  using good_under [of E t v] by (auto simp: good_def split: option.splits)

lemma good_slice:
  "under t = TSlice t' \<Longrightarrow> good E t v \<Longrightarrow> \<exists>s. v = VSlice s \<and> (\<forall>x \<in> set (slice_elems s). good E t' x)"
  using good_under [of E t v] by (auto simp: good_def slice_elems_def list_all_iff split: option.splits)

lemma good_array: "under t = TArray k t' \<Longrightarrow> good E t v \<Longrightarrow> \<exists>vs. v = VArray vs \<and> (\<forall>x \<in> set vs. good E t' x)"
  using good_under [of E t v] by (auto simp: good_def list_all_iff)

lemma good_map:
  "under t = TMap kt t' \<Longrightarrow> good E t v \<Longrightarrow> \<exists>m. v = VMap m \<and> (\<forall>kx \<in> set (map_elems m). good E t' (snd kx)) \<and>
    distinct (map fst (map_elems m)) \<and> (m \<noteq> None \<longrightarrow> kt = TString)"
proof -
  assume "under t = TMap kt t'" and "good E t v"
  then have g: "good E (TMap kt t') v" using good_under [of E t v] by simp
  then obtain m where v: "v = VMap m" by (auto simp: good_def)
  show ?thesis using g by (cases m) (force simp: v good_def map_elems_def list_all_iff)+
qed

lemma has_types_zip: "has_types fs vs \<Longrightarrow> (ft, x) \<in> set (zip fs vs) \<Longrightarrow> has_type (snd ft) x"
  by (auto simp: set_zip dest: has_types_length has_types_nth)

lemma good_part:
  assumes "good E t v" and "(ft, x) \<in> set (struct_parts t v)"
  shows "good E (snd ft) x" and "field_ok (fst ft) (snd ft)"
proof -
  obtain fs vs where fs: "under t = TStruct fs" and vs: "v = VStruct vs" and mem: "(ft, x) \<in> set (zip fs vs)"
    using assms(2) by (cases "under t"; cases v; simp add: struct_parts_def)
  then have "has_types fs vs" "list_all (encodable E) vs"
    and wf: "\<forall>ft \<in> set fs. wf_type (snd ft) \<and> field_ok (fst ft) (snd ft) \<and> plain_type E (snd ft)"
    using good_under [OF assms(1)] by (auto simp: good_def)
  moreover have "ft \<in> set fs" "x \<in> set vs" using mem by (auto dest: set_zip_leftD set_zip_rightD)
  ultimately show "good E (snd ft) x" and "field_ok (fst ft) (snd ft)"
    using has_types_zip [OF _ mem] by (auto simp: good_def list_all_iff)
qed

lemma good_struct: "under t = TStruct fs \<Longrightarrow> good E t v \<Longrightarrow> \<exists>vs. v = VStruct vs \<and> struct_parts t v = zip fs vs"
  using good_under [of E t v] by (auto simp: good_def struct_parts_def)

lemma direct_good: "direct t v = Some (t', x) \<Longrightarrow> good E t v \<Longrightarrow> good E t' x \<and> reached t'"
proof (induction "size v" arbitrary: t v rule: less_induct)
  case less
  show ?case
  proof (cases t v rule: direct_cases)
    case (ptr t1 y)
    then have "good E t1 y" using good_ptr [OF ptr(1) less.prems(2)] by simp
    then show ?thesis using less.hyps [of y t1] less.prems(1) ptr by simp
  next
    case (iface t1 y)
    then have "good E t1 y" using good_iface [OF iface(1) less.prems(2)] by simp
    then show ?thesis using less.hyps [of y t1] less.prems(1) iface by simp
  next
    case direct
    then have "reached t"
      using good_ptr [of t _ E v] good_iface [of t E v] less.prems(2) by (auto simp: reached_def)
    then show ?thesis using direct less.prems by simp
  qed (use less.prems in auto)
qed

lemma direct_struct:
  assumes "is_struct (deref t)" and "has_type t v" and "direct t v = Some (t', x)"
  shows "is_struct t'"
proof (cases t v rule: direct_cases)
  case (ptr t1 y)
  then have "is_struct t1" using assms(1) by (simp add: deref_def)
  then have "direct t1 y = Some (t1, y)"
    by (cases t1 y rule: direct_cases) (auto simp: is_struct_def)
  then show ?thesis using ptr assms(3) \<open>is_struct t1\<close> by simp
next
  case (iface t1 y)
  then show ?thesis using assms(1) by (simp add: deref_def is_struct_def)
next
  case direct
  then have "deref t = t" using assms(2) has_type_under [of t v]
    by (cases "under t") (auto simp: deref_def)
  then show ?thesis using direct assms by simp
qed (use assms in auto)

lemma all_fields_good: "e \<in> set (all_fields t v) \<Longrightarrow> good E t v \<Longrightarrow> good E (fst (snd e)) (snd (snd e)) \<and> reached (fst (snd e))"
proof (induction "size v" arbitrary: t v rule: less_induct)
  case less
  from less.prems(1) show ?case
  proof (cases rule: all_fields_cases)
    case (deep ft y t1 z)
    then have "size z < size v" using struct_parts_size [OF deep(1)] direct_size [OF deep(3)] by simp
    moreover have "good E t1 z" using direct_good deep good_part less.prems(2) by blast
    ultimately show ?thesis using less.hyps deep(4) by blast
  next
    case (own ft y)
    then have "direct (snd ft) y = Some (snd e)"
      by (cases ft) (auto simp: own_field_def split: if_splits option.splits)
    then show ?thesis
      using direct_good [of "snd ft" y "fst (snd e)" "snd (snd e)" E] good_part own less.prems(2) by simp
  qed
qed

lemma to_bval_direct:
  "to_bval t v = (case direct t v of None \<Rightarrow> None | Some (t', x) \<Rightarrow> to_bval t' x)"
proof (induction "size v" arbitrary: t v rule: less_induct)
  case less
  show ?case
  proof (cases t v rule: direct_cases)
    case (ptr t1 y)
    then show ?thesis using less [of y t1] by (simp add: to_bval.simps [of t])
  next
    case (iface t1 y)
    then show ?thesis using less [of y t1] by (simp add: to_bval.simps [of t])
  qed (simp_all add: to_bval.simps [of t])
qed

lemma to_bval_reached:
  assumes "good E t v" and "reached t"
  shows "\<exists>b. to_bval t v = Some b"
  using assms good_under [of E t v]
  by (cases "under t") (auto simp: to_bval.simps [of t] reached_def good_def)

section \<open>Reading a struct\<close>

definition strip :: "dictionary \<Rightarrow> (string \<times> gotype \<times> goval) list" where
  "strip dict = map (\<lambda>(k, a, t, x). (k, t, x)) dict"

lemma strip_append [simp]: "strip (d @ d') = strip d @ strip d'"
  by (simp add: strip_def)

lemma strip_simps [simp]: "strip [] = []" "strip ((k, val) # d) = (k, snd val) # strip d"
  by (simp_all add: strip_def split_beta)

lemma readFields_strip: "strip (readFields fs vs a dict) = strip dict @ List.map_filter own_field (zip fs vs)"
proof (induction fs vs a dict rule: readFields.induct)
  case (1 f t fs v vs a dict)
  let ?dict = "if \<not> fld_exported f then dict
        else if fld_anonymous f \<and> fld_tag f = None then dict
        else (case getDirectValue a t v of
                None \<Rightarrow> dict
              | Some val \<Rightarrow>
                  (case fld_tag f of
                     None \<Rightarrow> dict @ [(fld_name f, val)]
                   | Some tag \<Rightarrow>
                       (case parseTag tag of
                          (name, opts) \<Rightarrow>
                            (if ignored opts then dict
                             else if omitEmpty opts \<and> isEmptyValue v then dict
                             else dict @ [(if name \<noteq> [] then name else fld_name f, val)]))))"
  have "strip ?dict = strip dict @ (case own_field ((f, t), v) of None \<Rightarrow> [] | Some e \<Rightarrow> [e])"
    using direct_any [of a t v]
    by (auto simp: own_field_def split: option.splits prod.splits)
  then show ?case using 1 by (simp add: List.map_filter_simps split: option.split)
qed (simp_all add: List.map_filter_simps)

text \<open>The embedded structs among the fields, in order.\<close>

definition deep_fields :: "((field_info \<times> gotype) \<times> goval) list \<Rightarrow> (string \<times> gotype \<times> goval) list" where
  "deep_fields fvs =
     concat (map (\<lambda>fv.
         if embedded (fst (fst fv))
         then (case direct (snd (fst fv)) (snd fv) of
                 None \<Rightarrow> []
               | Some tx \<Rightarrow> all_fields (fst tx) (snd tx))
         else []) fvs)"

lemma all_fields_parts:
  "all_fields t v = deep_fields (struct_parts t v) @ List.map_filter own_field (struct_parts t v)"
  by (subst all_fields.simps) (simp add: deep_fields_def)

lemma readStruct_fields:
  shows "good E t v \<Longrightarrow> is_struct t \<Longrightarrow>
      \<exists>d. readStruct dict a t v = Inr d \<and> strip d = strip dict @ all_fields t v"
    and "\<forall>(ft, x) \<in> set (zip fs vs). good E (snd ft) x \<and> field_ok (fst ft) (snd ft) \<Longrightarrow>
      \<exists>d. readEmbedded fs vs a dict = Inr d \<and> strip d = strip dict @ deep_fields (zip fs vs)"
proof (induction dict a t v and fs vs a dict rule: readStruct_readEmbedded.induct)
  case (1 dict a t v)
  then obtain fs where fs: "under t = TStruct fs" by (auto simp: is_struct_def split: gotype.splits)
  then obtain vs where vs: "v = VStruct vs" and parts: "struct_parts t v = zip fs vs"
    using good_struct "1.prems"(1) by blast
  have "\<forall>(ft, x) \<in> set (zip fs vs). good E (snd ft) x \<and> field_ok (fst ft) (snd ft)"
    using good_part [OF "1.prems"(1)] parts by auto
  then obtain d where "readEmbedded fs vs a dict = Inr d" "strip d = strip dict @ deep_fields (zip fs vs)"
    using "1.IH" [OF _ fs vs] fs vs by auto
  then show ?case
    by (subst readStruct.simps) (simp add: fs vs readFields_strip all_fields_parts parts [unfolded vs])
next
  case (2 f t fs v vs a dict)
  then have ok: "good E t v" "field_ok f t" by simp_all
  note rest = "2.prems"
  show ?case
  proof (cases "embedded f \<and> getDirectValue a t v \<noteq> None")
    case True
    then obtain a' t' x where gdv: "getDirectValue a t v = Some (a', t', x)" by auto
    then have dir: "direct t v = Some (t', x)" using direct_any [of a t v] by simp
    have emb: "fld_exported f \<and> fld_anonymous f \<and> fld_tag f = None" using True by (simp add: embedded_def)
    have "is_struct t'" using direct_struct [OF _ _ dir] ok True by (simp add: field_ok_def good_def)
    moreover have "good E t' x" using direct_good [OF dir ok(1)] by simp
    ultimately obtain d where d: "readStruct dict a' t' x = Inr d" "strip d = strip dict @ all_fields t' x"
      using "2.IH"(2) [OF emb gdv refl refl] by blast
    obtain d' where "readEmbedded fs vs a d = Inr d'" "strip d' = strip d @ deep_fields (zip fs vs)"
      using "2.IH"(3) [OF emb gdv refl refl d(1)] rest by auto
    then show ?thesis using True emb gdv dir d by (simp add: deep_fields_def)
  next
    case False
    then have "direct t v = None" "getDirectValue a t v = None" if "embedded f"
      using that direct_any [of a t v] by (cases "getDirectValue a t v"; auto)+
    moreover obtain d where "readEmbedded fs vs a dict = Inr d" "strip d = strip dict @ deep_fields (zip fs vs)"
    proof (cases "embedded f")
      case True
      then have "getDirectValue a t v = None" using False by (cases "getDirectValue a t v") auto
      then show ?thesis using "2.IH"(1) True rest that by (auto simp: embedded_def)
    next
      case no_emb: False
      then show ?thesis using "2.IH"(4) rest that by (auto simp: embedded_def)
    qed
    ultimately show ?thesis by (auto simp: deep_fields_def embedded_def)
  qed
qed (simp_all add: deep_fields_def)

section \<open>The refinement\<close>

definition benc_opt :: "bval option \<Rightarrow> bytes" where
  "benc_opt b = (case b of None \<Rightarrow> [] | Some x \<Rightarrow> benc x)"

lemma benc_opt_simps [simp]: "benc_opt None = []" "benc_opt (Some b) = benc b"
  by (simp_all add: benc_opt_def)

lemma run_all_append: "run_all (xs @ ys) =
    (case run_all xs of (Some e, s) \<Rightarrow> (Some e, s) | (None, s) \<Rightarrow> (case run_all ys of (e, s') \<Rightarrow> (e, s @ s')))"
  by (induction xs rule: run_all.induct) (auto split: prod.splits option.splits)

lemma run_all_ok: "\<forall>w \<in> set ws. fst w = None \<Longrightarrow> run_all ws = (None, concat (map snd ws))"
  by (induction ws rule: run_all.induct) auto

lemma benc_elems: "concat (map benc (List.map_filter f xs)) = concat (map (\<lambda>x. benc_opt (f x)) xs)"
  by (induction xs) (auto simp: List.map_filter_simps split: option.split)

lemma writeString_bstr: "writeString s = (None, bstr s)"
  by (simp add: writeString_def emit_def bstr_def)

lemma encode_string: "encode E a TString (VString k) = (None, bstr k)"
  by (simp add: encode.simps encodeLoop.simps encodeKind.simps methods_at_def writeString_bstr)

lemma sort_strip: "strip (sort_key fst d) = sort_key fst (strip d)"
proof -
  have ins: "strip (insort_key fst e d) = insort_key fst (fst e, snd (snd e)) (strip d)" for e d
    by (induction d) (auto simp: strip_def split_beta)
  show ?thesis
    by (induction d) (simp_all add: ins split_paired_all)
qed

text \<open>The two writes of an entry, its key and its value.\<close>

definition entry_text :: "bytes \<Rightarrow> bval option \<Rightarrow> bytes" where
  "entry_text k b = (case b of None \<Rightarrow> [] | Some x \<Rightarrow> bstr k @ benc x)"

lemma benc_entries:
  "concat (map (\<lambda>(k, b). bstr k @ benc b) (List.map_filter (\<lambda>e. map_option (Pair (kf e)) (f e)) xs)) =
   concat (map (\<lambda>e. entry_text (kf e) (f e)) xs)"
  by (induction xs) (auto simp: List.map_filter_simps entry_text_def split: option.split)

text \<open>\<open>enc\<close> is the recursive call: the entries of a map and of a struct come out as those of a dictionary.\<close>

lemma map_pieces:
  assumes key: "\<And>k. kw k = (None, bstr k)"
    and el: "\<And>k x a' t'' y. (k, x) \<in> set kvs \<Longrightarrow> getDirectValue False t' x = Some (a', t'', y) \<Longrightarrow>
      enc a' t'' y = (None, benc_opt (to_bval t'' y)) \<and> to_bval t'' y \<noteq> None"
  defines "ws \<equiv> concat (map (\<lambda>(k, a', t'', x). [kw k, enc a' t'' x])
      (List.map_filter (\<lambda>(k, x). map_option (Pair k) (getDirectValue False t' x)) kvs))"
  shows "(\<forall>w \<in> set ws. fst w = None) \<and>
    concat (map snd ws) = concat (map (\<lambda>e. entry_text (fst e) (to_bval t' (snd e))) kvs)"
  using el unfolding ws_def
proof (induction kvs)
  case Nil
  then show ?case by (simp add: List.map_filter_simps)
next
  case (Cons kx kvs)
  note rest = Cons.IH [OF Cons.prems [OF list.set_intros(2)]]
  obtain k x where kx: "kx = (k, x)" by fastforce
  have dir: "direct t' x = map_option snd (getDirectValue False t' x)" by (simp add: direct_def)
  show ?case
  proof (cases "getDirectValue False t' x")
    case None
    then have "to_bval t' x = None" by (subst to_bval_direct) (simp add: dir)
    then show ?thesis using rest None by (simp add: kx List.map_filter_simps entry_text_def)
  next
    case (Some val)
    obtain a' t'' y where val: "val = (a', t'', y)" by (cases val) auto
    have "to_bval t' x = to_bval t'' y" by (subst to_bval_direct) (simp add: dir Some val)
    moreover have "enc a' t'' y = (None, benc_opt (to_bval t'' y))" "to_bval t'' y \<noteq> None"
      using Cons.prems [of k x a' t'' y] kx Some val by simp_all
    ultimately show ?thesis
      using rest Some val key by (auto simp: kx List.map_filter_simps entry_text_def)
  qed
qed

lemma struct_pieces:
  assumes el: "\<And>k a' t' x. (k, a', t', x) \<in> set dict \<Longrightarrow>
      enc a' t' x = (None, benc_opt (to_bval t' x)) \<and> to_bval t' x \<noteq> None"
  defines "ws \<equiv> concat (map (\<lambda>(k, a', t', x). [writeString k, enc a' t' x]) dict)"
  shows "(\<forall>w \<in> set ws. fst w = None) \<and>
    concat (map snd ws) = concat (map (\<lambda>e. entry_text (fst e) (to_bval (fst (snd e)) (snd (snd e)))) (strip dict))"
  using el unfolding ws_def
proof (induction dict)
  case Nil
  then show ?case by simp
next
  case (Cons e dict)
  note rest = Cons.IH [OF Cons.prems [OF list.set_intros(2)]]
  obtain k a' t' x where e: "e = (k, a', t', x)" by (cases e) auto
  have "enc a' t' x = (None, benc_opt (to_bval t' x))" "to_bval t' x \<noteq> None"
    using Cons.prems [of k a' t' x] e by simp_all
  then show ?case using rest by (auto simp: e writeString_bstr entry_text_def)
qed

lemma encodeKind_to_bval:
  assumes g: "good E t v" and r: "reached t"
    and IH: "\<And>a t' x. size x < size v \<Longrightarrow> good E t' x \<Longrightarrow> encode E a t' x = (None, benc_opt (to_bval t' x))"
  shows "encodeKind E a t v = (None, benc_opt (to_bval t v))"
proof (cases "under t")
  case TBool
  then show ?thesis using good_under [OF g]
    by (auto simp: good_def encodeKind.simps [of E a t] to_bval.simps [of t] writeInt_def emit_def)
next
  case (TInt w)
  then show ?thesis using good_under [OF g]
    by (auto simp: good_def encodeKind.simps [of E a t] to_bval.simps [of t] writeInt_def emit_def)
next
  case (TUint w)
  then show ?thesis using good_under [OF g]
    by (auto simp: good_def encodeKind.simps [of E a t] to_bval.simps [of t] writeInt_def emit_def)
next
  case TString
  then show ?thesis using good_under [OF g]
    by (auto simp: good_def encodeKind.simps [of E a t] to_bval.simps [of t] writeString_bstr)
next
  case (TSlice t')
  then obtain s where s: "v = VSlice s" and el: "\<forall>x \<in> set (slice_elems s). good E t' x"
    using good_slice g by blast
  have "encode E True t' x = (None, benc_opt (to_bval t' x))" if "x \<in> set (slice_elems s)" for x
    using that el size_elem [of x "slice_elems s"] s
    by (intro IH) (auto simp: slice_elems_def split: option.splits)
  then have m: "map (encode E True t') (slice_elems s) = map (\<lambda>x. (None, benc_opt (to_bval t' x))) (slice_elems s)"
    by simp
  have "encodeKind E a t v = encodeArrayOrSlice t (slice_elems s) (map (encode E True t') (slice_elems s))"
    using TSlice s by (cases s) (simp_all add: encodeKind.simps [of E a t] slice_elems_def)
  moreover have "to_bval t v = Some (if t = byte_slice then BStr (to_bytes (slice_elems s))
      else BList (List.map_filter (to_bval t') (slice_elems s)))"
    using TSlice s by (simp add: to_bval.simps [of t])
  ultimately show ?thesis
    unfolding m
    by (simp add: encodeArrayOrSlice_def emit_def run_all_ok o_def bstr_def benc_elems)
next
  case (TArray k t')
  then obtain vs where vs: "v = VArray vs" and el: "\<forall>x \<in> set vs. good E t' x"
    using good_array g by blast
  have "encode E a t' x = (None, benc_opt (to_bval t' x))" if "x \<in> set vs" for x
    using that el size_elem [of x vs] vs by (intro IH) auto
  then have m: "map (encode E a t') vs = map (\<lambda>x. (None, benc_opt (to_bval t' x))) vs"
    by simp
  have "encodeKind E a t v = encodeArrayOrSlice t vs (map (encode E a t') vs)"
    using TArray vs by (simp add: encodeKind.simps [of E a t])
  moreover have "to_bval t v = Some (BList (List.map_filter (to_bval t') vs))"
    using TArray vs by (simp add: to_bval.simps [of t])
  ultimately show ?thesis
    using TArray unfolding m
    by (auto simp add: encodeArrayOrSlice_def emit_def run_all_ok o_def benc_elems)
next
  case (TMap kt t')
  then obtain m where m: "v = VMap m" and el: "\<forall>kx \<in> set (map_elems m). good E t' (snd kx)"
    and kt: "m \<noteq> None \<longrightarrow> kt = TString"
    using good_map g by blast
  show ?thesis
  proof (cases m)
    case None
    then show ?thesis using TMap m
      by (simp add: encodeKind.simps [of E a t] to_bval.simps [of t] map_elems_def emit_def List.map_filter_simps)
  next
    case (Some kvs)
    let ?ws = "concat (map (\<lambda>(k, a', t'', x). [encode E False kt (VString k), encode E a' t'' x])
        (map_entries t' kvs))"
    have "encode E a' t'' y = (None, benc_opt (to_bval t'' y)) \<and> to_bval t'' y \<noteq> None"
      if kx: "(k, x) \<in> set (sort_key fst kvs)" and gdv: "getDirectValue False t' x = Some (a', t'', y)" for k x a' t'' y
    proof -
      have "good E t' x" using el kx Some by (auto simp: map_elems_def)
      then have "good E t'' y" "reached t''"
        using direct_good [of t' x t'' y E] gdv by (simp_all add: direct_def)
      moreover have "size y < size v"
        using getDirectValue_size [OF gdv] size_map_elem [of k x kvs] kx m Some by simp
      ultimately show ?thesis using IH to_bval_reached by auto
    qed
    then have pieces: "(\<forall>w \<in> set ?ws. fst w = None) \<and>
        concat (map snd ?ws) = concat (map (\<lambda>e. entry_text (fst e) (to_bval t' (snd e))) (sort_key fst kvs))"
      unfolding map_entries_def using kt Some encode_string by (intro map_pieces) auto
    have "encodeKind E a t v = run_all ([emit ''d''] @ ?ws @ [emit ''e''])"
      using TMap m Some by (simp add: encodeKind.simps [of E a t])
    also have "\<dots> = (None, ''d'' @ concat (map snd ?ws) @ ''e'')"
      using pieces by (auto simp: emit_def run_all_ok)
    finally show ?thesis
      using pieces TMap m Some benc_entries [of fst "\<lambda>e. to_bval t' (snd e)" "sort_key fst kvs"]
      by (simp add: to_bval.simps [of t] map_elems_def case_prod_unfold)
  qed
next
  case (TStruct fs)
  then obtain vs where vs: "v = VStruct vs" using good_struct g by blast
  obtain dict where dict: "readStruct [] a t v = Inr dict" "strip dict = all_fields t v"
    using readStruct_fields(1) [OF g, of "[]" a] TStruct by (auto simp: is_struct_def)
  let ?ws = "concat (map (\<lambda>(k, a', t', x). [writeString k, encode E a' t' x]) (struct_entries dict))"
  have "encode E a' t' x = (None, benc_opt (to_bval t' x)) \<and> to_bval t' x \<noteq> None"
    if "(k, a', t', x) \<in> set (struct_entries dict)" for k a' t' x
  proof -
    have "(k, t', x) \<in> set (all_fields t v)"
      using that unfolding dict(2) [symmetric] by (force simp: struct_entries_def strip_def)
    then have "good E t' x" "reached t'" "size x < size v"
      using all_fields_good g all_fields_size by fastforce+
    then show ?thesis using IH to_bval_reached by auto
  qed
  then have pieces: "(\<forall>w \<in> set ?ws. fst w = None) \<and> concat (map snd ?ws) =
      concat (map (\<lambda>e. entry_text (fst e) (to_bval (fst (snd e)) (snd (snd e)))) (sort_key fst (all_fields t v)))"
    unfolding dict(2) [symmetric] sort_strip [symmetric] struct_entries_def [symmetric] by (rule struct_pieces)
  have "encodeKind E a t v = run_all ([emit ''d''] @ ?ws @ [emit ''e''])"
    using TStruct vs dict by (simp add: encodeKind.simps [of E a t])
  also have "\<dots> = (None, ''d'' @ concat (map snd ?ws) @ ''e'')"
    using pieces by (auto simp: emit_def run_all_ok)
  finally show ?thesis
    using pieces TStruct vs by (simp add: to_bval.simps [of t] benc_entries)
next
  case (TOther k)
  then show ?thesis using good_under [OF g] by (auto simp: good_def)
qed (use r in \<open>simp_all add: reached_def\<close>)

lemma encodeLoop_to_bval:
  "good E t v \<Longrightarrow> encodeLoop E a t v = (None, benc_opt (to_bval t v))"
proof (induction "size v" arbitrary: a t v rule: less_induct)
  case less
  have IH: "encode E a t' x = (None, benc_opt (to_bval t' x))" if "size x < size v" "good E t' x" for a t' x
    using that less by (simp add: encode.simps good_plain)
  show ?case
  proof (cases t v rule: direct_cases)
    case (ptr t1 y)
    then have "good E t1 y" using good_ptr [OF ptr(1) less.prems] by simp
    then show ?thesis
      using less.hyps [of y t1] ptr good_plain [of E t1 y] by (simp add: encodeLoop.simps [of E a t] to_bval.simps [of t])
  next
    case (iface t1 y)
    then have "good E t1 y" using good_iface [OF iface(1) less.prems] by simp
    then show ?thesis
      using less.hyps [of y t1] iface good_plain [of E t1 y] by (simp add: encodeLoop.simps [of E a t] to_bval.simps [of t])
  next
    case direct
    then have r: "reached t"
      using good_ptr [of t _ E v] good_iface [of t E v] less.prems by (auto simp: reached_def)
    then have "encodeLoop E a t v = encodeKind E a t v"
      using good_plain [OF less.prems] by (cases "under t") (simp_all add: encodeLoop.simps [of E a t] reached_def)
    then show ?thesis using encodeKind_to_bval [OF less.prems r IH] by simp
  qed (simp_all add: encodeLoop.simps [of E a t] to_bval.simps [of t])
qed

lemma encode_to_bval: "good E t v \<Longrightarrow> encode E a t v = (None, benc_opt (to_bval t v))"
  by (simp add: encode.simps encodeLoop_to_bval good_plain)

lemma Marshal_to_bval: "good E t v \<Longrightarrow> Marshal E (Some (t, v)) = (benc_opt (to_bval t v), None)"
  by (simp add: Marshal_def Encode_def encode_to_bval)

end
