(* ===== verification/Bencode_Codec.thy ===== *)
theory Bencode_Codec
  imports Decode_Spec Encode_Spec "HOL-Library.Multiset"
begin

text \<open>
  Encoder and decoder together, through their specifications: what \<open>Marshal\<close> writes is sorted and
  independent of the iteration order of maps, and \<open>Unmarshal\<close> into an \<open>interface{}\<close> inverts it.
\<close>

section \<open>Order\<close>

text \<open>The iteration order of a map does not show in the output.\<close>

lemma sort_key_mset:
  assumes "mset xs = mset ys" and "distinct (map fst xs)"
  shows "sort_key fst xs = sort_key fst ys"
proof -
  have set: "set xs = set ys" using assms(1) by (rule mset_eq_setD)
  have len: "length xs = length ys" using assms(1) by (rule mset_eq_length)
  have "distinct xs" using assms(2) by (simp add: distinct_map)
  then have "distinct ys" using assms(1) mset_eq_imp_distinct_iff by blast
  have inj: "inj_on fst (set (sort_key fst xs))" using assms(2) by (simp add: distinct_map)
  show ?thesis
    by (rule map_sorted_distinct_set_unique [OF _ sorted_sort_key _ sorted_sort_key])
      (use assms inj set \<open>distinct ys\<close> in \<open>auto simp: distinct_map\<close>)
qed

lemma encode_map_order:
  assumes "mset kvs = mset kvs'" and "distinct (map fst kvs)"
  shows "encode E a (TMap kt t) (VMap (Some kvs)) = encode E a (TMap kt t) (VMap (Some kvs'))"
  using sort_key_mset [OF assms]
  by (simp add: encode.simps encodeLoop.simps encodeKind.simps methods_at_def map_entries_def)

text \<open>Every dictionary in the output has its keys in ascending order.\<close>

fun ordered :: "bval \<Rightarrow> bool" where
  "ordered (BList bs) \<longleftrightarrow> list_all ordered bs"
| "ordered (BDict kvs) \<longleftrightarrow> sorted (map fst kvs) \<and> list_all (\<lambda>(k, b). ordered b) kvs"
| "ordered b \<longleftrightarrow> True"

lemma set_map_filter: "set (List.map_filter f xs) = {y. \<exists>x \<in> set xs. f x = Some y}"
  by (force simp: List.map_filter_def image_iff)

lemma sorted_map_filter:
  "sorted (map fst xs) \<Longrightarrow> sorted (map fst (List.map_filter (\<lambda>e. map_option (Pair (fst e)) (f e)) xs))"
  by (induction xs) (auto simp: List.map_filter_simps set_map_filter split: option.split)

lemma to_bval_ordered: "to_bval t v = Some b \<Longrightarrow> ordered b"
proof (induction "size v" arbitrary: t v b rule: less_induct)
  case less
  have IH: "ordered b" if "size x < size v" "to_bval t' x = Some b" for t' x b
    using less.hyps that by blast
  consider (ptr) t' x where "under t = TPtr t'" "v = VPtr (Some x)"
    | (iface) t' x where "under t = TIface" "v = VIface (Some (t', x))"
    | (sl) t' s where "under t = TSlice t'" "v = VSlice s"
    | (arr) k t' vs where "under t = TArray k t'" "v = VArray vs"
    | (map) kt t' m where "under t = TMap kt t'" "v = VMap m"
    | (str) fs vs where "under t = TStruct fs" "v = VStruct vs"
    | (leaf) "\<exists>n. b = BInt n \<or> (\<exists>s. b = BStr s)"
    using less.prems
    by (subst (asm) to_bval.simps) (cases "under t"; cases v; auto split: option.splits if_splits)
  then show ?case
  proof cases
    case ptr
    then show ?thesis using IH [of x t'] less.prems by (simp add: to_bval.simps [of t])
  next
    case iface
    then show ?thesis using IH [of x t'] less.prems by (simp add: to_bval.simps [of t])
  next
    case sl
    have "ordered c" if "x \<in> set (slice_elems s)" "to_bval t' x = Some c" for x c
      using IH [of x t' c] that size_elem [of x "slice_elems s"] sl
      by (auto simp: slice_elems_def split: option.splits)
    then show ?thesis
      using less.prems sl by (auto simp: to_bval.simps [of t] list_all_iff set_map_filter split: if_splits)
  next
    case arr
    have "ordered c" if "x \<in> set vs" "to_bval t' x = Some c" for x c
      using IH [of x t' c] that size_elem [of x vs] arr by auto
    then show ?thesis
      using less.prems arr by (auto simp: to_bval.simps [of t] list_all_iff set_map_filter)
  next
    case map
    have "ordered c" if "e \<in> set (map_elems m)" "to_bval t' (snd e) = Some c" for e c
      using IH [of "snd e" t' c] that size_map_elem [of "fst e" "snd e" "map_elems m"] map
      by (auto simp: map_elems_def split: option.splits)
    then show ?thesis
      using less.prems map sorted_map_filter [of "sort_key fst (map_elems m)" "\<lambda>e. to_bval t' (snd e)"]
      by (auto simp: to_bval.simps [of t] list_all_iff set_map_filter case_prod_unfold)
  next
    case str
    have "ordered c" if "e \<in> set (all_fields t v)" "to_bval (fst (snd e)) (snd (snd e)) = Some c" for e c
      using IH all_fields_size that by blast
    then show ?thesis
      using less.prems str
        sorted_map_filter [of "sort_key fst (all_fields t v)" "\<lambda>e. to_bval (fst (snd e)) (snd (snd e))"]
      by (auto simp: to_bval.simps [of t] list_all_iff set_map_filter)
  next
    case leaf
    then show ?thesis by auto
  qed
qed

section \<open>Round trip through an interface\<close>

text \<open>The value an \<open>interface{}\<close> variable has after decoding.\<close>

fun iface_val :: "bval \<Rightarrow> goval" where
  "iface_val (BInt n) = VIface (Some (TInt 64, VInt n))"
| "iface_val (BStr s) = VIface (Some (TString, VString s))"
| "iface_val (BList bs) =
     VIface (Some (TSlice TIface, VSlice (if bs = [] then None else Some (map iface_val bs))))"
| "iface_val (BDict kvs) =
     VIface (Some (TMap TString TIface, VMap (Some (map (\<lambda>(k, b). (k, iface_val b)) kvs))))"

text \<open>An interface that does not hold a pointer is overwritten.\<close>

definition no_pointer :: "goval \<Rightarrow> bool" where
  "no_pointer v \<longleftrightarrow> (\<forall>t x. v \<noteq> VIface (Some (TPtr t, x)))"

lemma no_pointer_iface_val [simp]: "no_pointer (iface_val b)" "no_pointer (VIface None)"
  by (cases b; simp add: no_pointer_def) (simp add: no_pointer_def)

lemma through_iface: "no_pointer v \<Longrightarrow> through k TIface v = k TIface v"
  by (subst through.simps) (auto simp: no_pointer_def split: goval.split option.split gotype.split)

lemma those_Some: "those (map (\<lambda>x. Some (f x)) xs) = Some (map f xs)"
  by (induction xs) auto

lemma assign_entries_map:
  assumes "distinct (map fst kfs)" and "\<forall>(k, f) \<in> set kfs. f t (zero t) = Some (g k)"
    and "fst ` set m \<inter> fst ` set kfs = {}"
  shows "assign_entries (IntoMap t) kfs (VMap (Some m)) = Some (VMap (Some (m @ map (\<lambda>(k, f). (k, g k)) kfs)))"
  using assms
proof (induction kfs arbitrary: m)
  case Nil
  then show ?case by simp
next
  case (Cons kf kfs)
  obtain k f where kf: "kf = (k, f)" by fastforce
  then have "map_set k (g k) (VMap (Some m)) = VMap (Some (m @ [(k, g k)]))"
    using Cons.prems(3) by (simp add: map_set_def update_fresh)
  then show ?case
    using Cons.IH [of "m @ [(k, g k)]"] Cons.prems kf by force
qed

text \<open>A dictionary decoded into an empty map: entry by entry, each into a zero element.\<close>

lemma assign_obj_map:
  assumes "distinct (map fst kvs)" and "\<forall>(k, b) \<in> set kvs. assign E b t (zero t) = Some (g b)"
    and "v = VMap None \<or> v = VMap (Some [])"
  shows "assign_obj (map (\<lambda>(k, b). (k, assign E b)) kvs) (TMap TString t) v =
    Some (VMap (Some (map (\<lambda>(k, b). (k, g b)) kvs)))"
proof -
  define h where "h k = (case map_of kvs k of Some b \<Rightarrow> g b | None \<Rightarrow> VIface None)" for k
  have h: "h k = g b" if "(k, b) \<in> set kvs" for k b
    using that assms(1) by (simp add: h_def)
  let ?kfs = "map (\<lambda>(k, b). (k, assign E b)) kvs"
  have "assign_entries (IntoMap t) ?kfs (VMap (Some [])) =
      Some (VMap (Some ([] @ map (\<lambda>(k, f). (k, h k)) ?kfs)))"
  proof (rule assign_entries_map)
    show "distinct (map fst ?kfs)" using assms(1) by (simp add: o_def split_beta)
    show "\<forall>(k, f) \<in> set ?kfs. f t (zero t) = Some (h k)"
      using assms(2) h by fastforce
  qed simp
  moreover have "map (\<lambda>(k, f). (k, h k)) ?kfs = map (\<lambda>(k, b). (k, g b)) kvs"
    using h by auto
  ultimately show ?thesis using assms(3) by (auto simp: assign_obj_def)
qed

lemma assign_map:
  assumes "distinct (map fst kvs)" and "\<forall>(k, b) \<in> set kvs. assign E b t (zero t) = Some (g b)"
    and "v = VMap None \<or> v = VMap (Some [])"
  shows "assign E (BDict kvs) (TMap TString t) v = Some (VMap (Some (map (\<lambda>(k, b). (k, g b)) kvs)))"
  using assign_obj_map [OF assms] by (simp add: through.simps assign_at_def assign_dict_def)

lemma assign_scalar [simp]:
  "assign E (BInt n) (TInt w) v = Some (VInt (signed_take_bit (w - 1) n))"
  "assign E (BInt n) (TUint w) v = (if n < 0 then None else Some (VUint (take_bit w n)))"
  "assign E (BStr s) TString v = Some (VString s)"
  "assign E (BStr s) byte_slice v = Some (VSlice (Some (of_bytes s)))"
  by (simp_all add: through.simps assign_at_def assign_int_def assign_str_def)

lemma assign_iface: "bval_ok b \<Longrightarrow> no_pointer v \<Longrightarrow> assign E b TIface v = Some (iface_val b)"
proof (induction b arbitrary: v)
  case (BInt n)
  then show ?case by (simp add: through_iface assign_at_def assign_int_def)
next
  case (BStr s)
  then show ?case by (simp add: through_iface assign_at_def assign_str_def)
next
  case (BList bs)
  then have "map (\<lambda>b. assign E b TIface (VIface None)) bs = map (\<lambda>b. Some (iface_val b)) bs"
    using no_pointer_iface_val(2) by (simp add: list_all_iff)
  then have "those (map (\<lambda>f. f TIface (VIface None)) (map (assign E) bs)) = Some (map iface_val bs)"
    by (simp only: map_map o_def those_Some)
  then show ?case
    using BList.prems(2) by (simp add: through_iface assign_at_def assign_list_def assign_seq_def)
next
  case (BDict kvs)
  then have "assign_obj (map (\<lambda>(k, b). (k, assign E b)) kvs) (TMap TString TIface) (VMap None) =
      Some (VMap (Some (map (\<lambda>(k, b). (k, iface_val b)) kvs)))"
    by (intro assign_obj_map) (fastforce simp: list_all_iff)+
  then show ?case
    using BDict.prems(2) by (simp add: through_iface assign_at_def assign_dict_def)
qed

lemma good_iface_val: "bval_ok b \<Longrightarrow> good E TIface (iface_val b)"
proof (induction b)
  case (BDict kvs)
  then show ?case by (fastforce simp: good_def list_all_iff o_def split_beta)
qed (auto simp: good_def list_all_iff)

lemma map_filter_map_Some: "\<forall>x \<in> set xs. f (g x) = Some x \<Longrightarrow> List.map_filter f (map g xs) = xs"
  by (induction xs) (auto simp: List.map_filter_simps)

lemma to_bval_iface_val: "canonical b \<Longrightarrow> to_bval TIface (iface_val b) = Some b"
proof (induction b)
  case (BList bs)
  have "List.map_filter (to_bval TIface) (map iface_val bs) = bs"
    using BList by (intro map_filter_map_Some) (auto simp: list_all_iff)
  then show ?case
    by (simp add: to_bval.simps [of TIface] to_bval.simps [of "TSlice TIface"] slice_elems_def List.map_filter_simps)
next
  case (BDict kvs)
  let ?kvs = "map (\<lambda>(k, b). (k, iface_val b)) kvs"
  have "sorted_wrt (<) (map fst kvs)" using BDict.prems by simp
  then have "sorted (map fst ?kvs)" by (simp add: o_def split_beta strict_sorted_imp_sorted)
  then have "sort_key fst ?kvs = ?kvs" by (rule sort_key_id_if_sorted)
  moreover have "List.map_filter (\<lambda>(k, x). map_option (Pair k) (to_bval TIface x)) ?kvs = kvs"
    using BDict by (intro map_filter_map_Some) (fastforce simp: list_all_iff)
  ultimately show ?case
    by (simp add: to_bval.simps [of TIface] to_bval.simps [of "TMap TString TIface"] map_elems_def)
qed (simp_all add: to_bval.simps)

lemma iface_roundtrip:
  assumes "env_safe E" and "canonical b" and "bval_ok b"
    and "iface_val b = VIface i" and "has_type TIface v" and "no_pointer v"
  shows "Marshal E i = (benc b, None)" and "unmarshal_var E (benc b) TIface v = (None, VIface i)"
proof -
  obtain t x where i: "i = Some (t, x)" using assms(4) by (cases b) auto
  have "good E t x" using good_iface_val [OF assms(3)] assms(4) i by (simp add: good_def)
  moreover have "to_bval t x = Some b"
    using to_bval_iface_val [OF assms(2)] assms(4) i by (simp add: to_bval.simps [of TIface])
  ultimately show "Marshal E i = (benc b, None)" using Marshal_to_bval i by simp
  show "unmarshal_var E (benc b) TIface v = (None, VIface i)"
    using unmarshal_var_assign [OF assms(1,3) _ assms(5), of "[]"] assign_iface [OF assms(3,6), of E] assms(4)
    by simp
qed

end
