(* ===== verification/Bencode_Raw.thy ===== *)
theory Bencode_Raw
  imports Bencode_Codec
begin

text \<open>
  \<open>bencode/raw.go\<close>, the type whose values are kept as they were encoded, and the messages of the
  errors in \<open>bencode/errors.go\<close>.
\<close>

section \<open>\<open>RawMessage\<close>\<close>

definition raw_type :: gotype where
  "raw_type = TNamed ''RawMessage'' byte_slice"

definition raw_val :: "bytes option \<Rightarrow> goval" where
  "raw_val m = VSlice (map_option of_bytes m)"

definition raw_of :: "goval \<Rightarrow> bytes option" where
  "raw_of v = (case v of VSlice (Some vs) \<Rightarrow> Some (to_bytes vs) | _ \<Rightarrow> None)"

lemma raw_of_val [simp]: "raw_of (raw_val m) = m"
  by (cases m) (simp_all add: raw_of_def raw_val_def)

text \<open>\<open>MarshalBencode\<close>, a method of the value\<close>

definition raw_MarshalBencode :: "bytes option \<Rightarrow> bytes" where
  "raw_MarshalBencode m = (case m of None \<Rightarrow> [] | Some data \<Rightarrow> data)"

text \<open>
  \<open>UnmarshalBencode\<close>, a method of the pointer, which is not nil where the decoder calls it:
  \<open>append((*m)[0:0], data...)\<close> is nil only if both are.
\<close>

definition raw_UnmarshalBencode :: "bytes option \<Rightarrow> bytes \<Rightarrow> bytes option" where
  "raw_UnmarshalBencode m data = (if m = None \<and> data = [] then None else Some data)"

definition raw_methods :: methods where
  "raw_methods = no_methods\<lparr>
     unmarshal := Some (\<lambda>v data. (None, raw_val (raw_UnmarshalBencode (raw_of v) data))),
     marshal := Some (\<lambda>recv. case recv of
        Some v \<Rightarrow> Inr (raw_MarshalBencode (raw_of v))
      | None \<Rightarrow> Inr [])\<rparr>"

text \<open>The types without methods, and those of package \<open>bencode\<close>.\<close>

definition env0 :: env where
  "env0 nm = no_methods"

definition bencode_env :: env where
  "bencode_env nm = (if nm = ''RawMessage'' then raw_methods else no_methods)"

lemma plain_env0 [simp]: "plain_type env0 t"
  by (induction t) (auto simp: env0_def no_methods_def)

lemma env0_methods [simp]: "unmarshal (env0 nm) = None" "unmarshal_text (env0 nm) = None"
  by (simp_all add: env0_def no_methods_def)

lemma env0_ok [simp]: "env_total env0" "env_safe env0"
  by (simp_all add: env_total_def env_safe_def)

lemma wf_raw_type [simp]: "wf_type raw_type"
  by (simp add: raw_type_def declared_def)

lemma has_type_raw [simp]: "has_type raw_type (raw_val m)"
  by (cases m) (simp_all add: raw_type_def raw_val_def)

lemma raw_val_typed: "has_type byte_slice (raw_val m)"
  by (cases m) (simp_all add: raw_val_def)

lemma declared_raw [simp]: "declared ''RawMessage'' = Some byte_slice"
  by (simp add: declared_def)

lemma raw_methods_simps [simp]:
  "unmarshal raw_methods = Some (\<lambda>v data. (None, raw_val (raw_UnmarshalBencode (raw_of v) data)))"
  "unmarshal_text raw_methods = None"
  "marshal raw_methods = Some (\<lambda>recv. case recv of
      Some v \<Rightarrow> Inr (raw_MarshalBencode (raw_of v)) | None \<Rightarrow> Inr [])"
  "marshal_on_ptr raw_methods = False" "marshal_text raw_methods = None"
  by (simp_all add: raw_methods_def no_methods_def)

lemma bencode_env_ok: "env_total bencode_env" "env_safe bencode_env"
  using raw_val_typed
  by (auto simp: env_total_def env_safe_def bencode_env_def no_methods_def)

text \<open>The contracts of the decoder hold for the types of the package.\<close>

interpretation bencode_typed: typed_decoder "readValueInto m" "decode bencode_env n" for m n
  by (rule typed_decode [OF bencode_env_ok(2)])

interpretation bencode_fuelled: fuelled_decoder "readValueInto (Suc n)" "decode bencode_env (Suc n)" n for n
  by (rule fuelled_decode [OF bencode_env_ok(1)])

interpretation bencode_spec: spec_decoder "readValueInto n" "decode bencode_env n" "assign bencode_env" n for n
  by (rule spec_decoder_decode [OF bencode_env_ok(2)])

text \<open>A raw value round-trips verbatim, whatever valid encoding it holds.\<close>

lemma encode_raw: "marshal (E ''RawMessage'') = marshal raw_methods \<Longrightarrow> \<not> marshal_on_ptr (E ''RawMessage'') \<Longrightarrow>
    encode E a raw_type (raw_val m) = (None, raw_MarshalBencode m)"
  by (simp add: encode.simps encodeLoop.simps raw_type_def methods_at_def write_method_def invoke_def
      emit_def raw_val_def split: option.split)
    (simp add: raw_of_val [unfolded raw_val_def])

lemma assign_raw_env:
  "E ''RawMessage'' = raw_methods \<Longrightarrow> assign E b raw_type (raw_val m) = Some (raw_val (Some (benc b)))"
  by (cases b) (simp_all add: through.simps raw_type_def assign_at_def raw_UnmarshalBencode_def)

lemma assign_raw: "assign bencode_env b raw_type (raw_val m) = Some (raw_val (Some (benc b)))"
  by (simp add: assign_raw_env bencode_env_def del: assign.simps)

section \<open>Error messages\<close>

text \<open>
  The \<open>Error\<close> methods of \<open>bencode/errors.go\<close>; \<open>reflect.Type.String\<close> and the quoting of
  \<open>%q\<close> are parameters. The decoder leaves \<open>Struct\<close> and \<open>Field\<close> empty.
\<close>

definition UnmarshalTypeError_Error :: "(gotype \<Rightarrow> string) \<Rightarrow> string \<Rightarrow> gotype \<Rightarrow> string \<Rightarrow> string \<Rightarrow> string" where
  "UnmarshalTypeError_Error tystr val t strct fld =
     (if strct \<noteq> [] \<or> fld \<noteq> []
      then ''bencode: cannot unmarshal '' @ val @ '' into Go struct field '' @ strct @ ''.'' @ fld @
        '' of type '' @ tystr t
      else ''bencode: cannot unmarshal '' @ val @ '' into Go value of type '' @ tystr t)"

definition SyntaxError_Error :: "(bytes \<Rightarrow> string) \<Rightarrow> syntax_msg \<Rightarrow> string" where
  "SyntaxError_Error quote m =
     (case m of
        InvalidInput \<Rightarrow> ''Invalid input''
      | NegativeLength n \<Rightarrow> ''invalid negative string length: '' @ show_int n
      | UnorderedDict a b \<Rightarrow> ''unordered dictionary: '' @ quote a @ '' appears before '' @ quote b
      | UnknownField k \<Rightarrow> ''disallow unknow fields '' @ k)"

definition InvalidUnmarshalError_Error :: "(gotype \<Rightarrow> string) \<Rightarrow> gotype option \<Rightarrow> string" where
  "InvalidUnmarshalError_Error tystr t =
     (case t of
        None \<Rightarrow> ''bencode: Unmarshal(nil)''
      | Some u \<Rightarrow>
          (case under u of
             TPtr _ \<Rightarrow> ''bencode: Unmarshal(nil '' @ tystr u @ '')''
           | _ \<Rightarrow> ''bencode: Unmarshal(non-pointer '' @ tystr u @ '')''))"

definition UnsupportedTypeError_Error :: "(gotype \<Rightarrow> string) \<Rightarrow> gotype \<Rightarrow> string" where
  "UnsupportedTypeError_Error tystr t = ''bencode: unsupported type: '' @ tystr t"

end
