(* ===== verification/Bencode_Structs.thy ===== *)
theory Bencode_Structs
  imports Bencode_Codec
begin

text \<open>
  Structs without embedded fields, the shape of every message of the repository: what the encoder
  makes of them, how the decoder fills them, and the round trip of typed values built from them.
\<close>

section \<open>Flat structs\<close>

definition field_key :: "field_info \<Rightarrow> string" where
  "field_key f =
     (case fld_tag f of
        None \<Rightarrow> fld_name f
      | Some tag \<Rightarrow> if fst (parseTag tag) \<noteq> [] then fst (parseTag tag) else fld_name f)"

definition field_opts :: "field_info \<Rightarrow> tag_options" where
  "field_opts f = (case fld_tag f of None \<Rightarrow> [] | Some tag \<Rightarrow> snd (parseTag tag))"

definition flat_field :: "field_info \<Rightarrow> bool" where
  "flat_field f \<longleftrightarrow> fld_exported f \<and> \<not> fld_anonymous f \<and> \<not> ignored (field_opts f)"

definition flat :: "(field_info \<times> gotype) list \<Rightarrow> bool" where
  "flat fs \<longleftrightarrow> list_all (\<lambda>ft. flat_field (fst ft)) fs \<and> distinct (map (\<lambda>ft. field_key (fst ft)) fs)"

text \<open>A field that leaves no entry: an empty one with \<open>omitempty\<close>, or a nil.\<close>

definition dropped :: "field_info \<Rightarrow> gotype \<Rightarrow> goval \<Rightarrow> bool" where
  "dropped f t v \<longleftrightarrow> omitEmpty (field_opts f) \<and> isEmptyValue v \<or> direct t v = None"

lemma own_field_flat:
  "flat_field f \<Longrightarrow> own_field ((f, t), v) = (if dropped f t v then None else map_option (Pair (field_key f)) (direct t v))"
  by (auto simp: own_field_def flat_field_def dropped_def field_opts_def field_key_def ignored_def omitEmpty_def
      split: option.split)

section \<open>Decoding into one\<close>

lemma wrapFields_flat:
  assumes "list_all (\<lambda>ft. flat_field (fst ft)) fs" and "distinct (map (\<lambda>ft. field_key (fst ft)) fs)"
    and "fst ` set m \<inter> (\<lambda>ft. field_key (fst ft)) ` set fs = {}"
  shows "wrapFields fs i p m = m @ map (\<lambda>(j, ft). (field_key (fst ft), (p @ [j], snd ft))) (enumerate i fs)"
  using assms
proof (induction fs arbitrary: i m)
  case (Cons ft fs)
  obtain f t where ft: "ft = (f, t)" by fastforce
  have "wrapFields (ft # fs) i p m = wrapFields fs (Suc i) p (AList.update (field_key f) (p @ [i], t) m)"
    using Cons.prems(1) by (auto simp: ft flat_field_def field_opts_def field_key_def split: option.split prod.split)
  also have "AList.update (field_key f) (p @ [i], t) m = m @ [(field_key f, (p @ [i], t))]"
    using Cons.prems(3) by (intro update_fresh) (auto simp: ft)
  also have "wrapFields fs (Suc i) p (m @ [(field_key f, (p @ [i], t))]) =
      (m @ [(field_key f, (p @ [i], t))]) @
        map (\<lambda>(j, ft). (field_key (fst ft), (p @ [j], snd ft))) (enumerate (Suc i) fs)"
    using Cons.prems by (intro Cons.IH) (auto simp: ft)
  finally show ?case by (simp add: ft)
qed simp

definition flat_map :: "(field_info \<times> gotype) list \<Rightarrow> field_map" where
  "flat_map fs = map (\<lambda>(j, ft). (field_key (fst ft), ([j], snd ft))) (enumerate 0 fs)"

lemma wrapEmbedded_flat:
  "list_all (\<lambda>ft. flat_field (fst ft)) fs \<Longrightarrow> length vs = length fs \<Longrightarrow> wrapEmbedded fs vs i p m = Inr (vs, m)"
proof (induction fs arbitrary: vs i)
  case (Cons ft fs)
  then show ?case by (cases vs) (auto simp: flat_field_def)
qed simp

lemma wrap_flat:
  assumes "flat fs" and "length vs = length fs"
  shows "wrapStruct2Map (TStruct fs) (VStruct vs) [] [] = Inr (VStruct vs, flat_map fs)"
proof -
  have fs: "list_all (\<lambda>ft. flat_field (fst ft)) fs" "distinct (map (\<lambda>ft. field_key (fst ft)) fs)"
    using assms(1) by (simp_all add: flat_def)
  show ?thesis
    using wrapFields_flat [OF fs, of "[]"]
    by (subst wrapStruct2Map.simps) (simp add: wrapEmbedded_flat [OF fs(1) assms(2)] flat_map_def)
qed

lemma flat_map_keys: "map fst (flat_map fs) = map (\<lambda>ft. field_key (fst ft)) fs"
proof -
  have "map fst (flat_map fs) = map ((\<lambda>ft. field_key (fst ft)) \<circ> snd) (enumerate 0 fs)"
    by (simp add: flat_map_def o_def split_beta)
  also have "\<dots> = map (\<lambda>ft. field_key (fst ft)) (map snd (enumerate 0 fs))" by (simp only: map_map)
  finally show ?thesis by simp
qed

lemma flat_map_of:
  assumes "flat fs"
  shows "map_of (flat_map fs) k = Some (p, t) \<longleftrightarrow> (\<exists>j < length fs. p = [j] \<and> k = field_key (fst (fs ! j)) \<and> t = snd (fs ! j))"
proof -
  have "distinct (map fst (flat_map fs))" using assms by (simp add: flat_map_keys flat_def)
  then have "map_of (flat_map fs) k = Some (p, t) \<longleftrightarrow> (k, p, t) \<in> set (flat_map fs)"
    by (rule map_of_eq_Some_iff)
  also have "\<dots> \<longleftrightarrow> (\<exists>j < length fs. p = [j] \<and> k = field_key (fst (fs ! j)) \<and> t = snd (fs ! j))"
    by (force simp: flat_map_def in_set_enumerate_eq)
  finally show ?thesis .
qed

lemma flat_key_inj:
  "flat fs \<Longrightarrow> i < length fs \<Longrightarrow> j < length fs \<Longrightarrow> field_key (fst (fs ! i)) = field_key (fst (fs ! j)) \<Longrightarrow> i = j"
  using nth_eq_iff_index_eq [of "map (\<lambda>ft. field_key (fst ft)) fs" i j] by (simp add: flat_def)

text \<open>Every entry goes to the field of its key; \<open>ws\<close> is what the fields come to.\<close>

lemma assign_entries_flat:
  assumes fs: "flat fs"
  shows "distinct (map fst kfs) \<Longrightarrow> length cs = length fs \<Longrightarrow> length ws = length fs \<Longrightarrow>
    \<forall>(k, f) \<in> set kfs. \<forall>j < length fs. field_key (fst (fs ! j)) = k \<longrightarrow> f (snd (fs ! j)) (cs ! j) = Some (ws ! j) \<Longrightarrow>
    \<forall>j < length fs. field_key (fst (fs ! j)) \<notin> fst ` set kfs \<longrightarrow> cs ! j = ws ! j \<Longrightarrow>
    assign_entries (IntoStruct (flat_map fs)) kfs (VStruct cs) = Some (VStruct ws)"
proof (induction kfs arbitrary: cs)
  case Nil
  then show ?case by (simp add: nth_equalityI)
next
  case (Cons kf kfs)
  obtain k f where kf: "kf = (k, f)" by fastforce
  show ?case
  proof (cases "map_of (flat_map fs) k")
    case None
    then have nokey: "field_key (fst (fs ! j)) \<noteq> k" if "j < length fs" for j
      using flat_map_of [OF fs, of k "[j]" "snd (fs ! j)"] that by auto
    have "assign_entries (IntoStruct (flat_map fs)) kfs (VStruct cs) = Some (VStruct ws)"
      using Cons.prems nokey kf by (intro Cons.IH) auto
    then show ?thesis using None by (simp add: kf)
  next
    case (Some pt)
    then obtain j where j: "pt = ([j], snd (fs ! j))" "j < length fs" "k = field_key (fst (fs ! j))"
      using flat_map_of [OF fs, of k "fst pt" "snd pt"] by (cases pt) auto
    have f: "f (snd (fs ! j)) (cs ! j) = Some (ws ! j)" using Cons.prems(4) j kf by auto
    have "assign_entries (IntoStruct (flat_map fs)) kfs (VStruct (cs[j := ws ! j])) = Some (VStruct ws)"
    proof (rule Cons.IH)
      have other: "cs[j := ws ! j] ! i = cs ! i" if "i < length fs" "field_key (fst (fs ! i)) \<noteq> k" for i
        using that j(3) by (cases "i = j") simp_all
      have k: "k \<notin> fst ` set kfs" using Cons.prems(1) kf by simp
      show "\<forall>(k', f) \<in> set kfs. \<forall>i < length fs. field_key (fst (fs ! i)) = k' \<longrightarrow>
          f (snd (fs ! i)) (cs[j := ws ! j] ! i) = Some (ws ! i)"
      proof clarify
        fix k' f' i assume "(field_key (fst (fs ! i)), f') \<in> set kfs" and i: "i < length fs"
        moreover from this have "field_key (fst (fs ! i)) \<noteq> k" using k by force
        ultimately show "f' (snd (fs ! i)) (cs[j := ws ! j] ! i) = Some (ws ! i)"
          using Cons.prems(4) other [OF i] by auto
      qed
      show "\<forall>i < length fs. field_key (fst (fs ! i)) \<notin> fst ` set kfs \<longrightarrow> cs[j := ws ! j] ! i = ws ! i"
      proof (intro allI impI)
        fix i assume i: "i < length fs" and "field_key (fst (fs ! i)) \<notin> fst ` set kfs"
        then show "cs[j := ws ! j] ! i = ws ! i"
          using Cons.prems(2,5) other [OF i] flat_key_inj [OF fs i j(2)] kf j(2,3) by (cases "i = j") auto
      qed
    qed (use Cons.prems in simp_all)
    then show ?thesis using Some j f by (simp add: kf)
  qed
qed

lemma assign_flat:
  assumes "flat fs" and "distinct (map fst kvs)" and "length vs = length fs" and "length ws = length fs"
    and "\<forall>j < length fs. case map_of kvs (field_key (fst (fs ! j))) of
        None \<Rightarrow> ws ! j = vs ! j
      | Some b \<Rightarrow> assign E b (snd (fs ! j)) (vs ! j) = Some (ws ! j)"
  shows "assign E (BDict kvs) (TStruct fs) (VStruct vs) = Some (VStruct ws)"
proof -
  have "assign_entries (IntoStruct (flat_map fs)) (map (\<lambda>(k, b). (k, assign E b)) kvs) (VStruct vs) = Some (VStruct ws)"
  proof (rule assign_entries_flat [OF assms(1) _ assms(3,4)])
    show "distinct (map fst (map (\<lambda>(k, b). (k, assign E b)) kvs))"
      using assms(2) by (simp add: o_def split_beta)
    show "\<forall>(k, f) \<in> set (map (\<lambda>(k, b). (k, assign E b)) kvs). \<forall>j < length fs.
        field_key (fst (fs ! j)) = k \<longrightarrow> f (snd (fs ! j)) (vs ! j) = Some (ws ! j)"
    proof clarify
      fix k f j assume "(field_key (fst (fs ! j)), f) \<in> set (map (\<lambda>(k, b). (k, assign E b)) kvs)" and j: "j < length fs"
      then obtain b where b: "(field_key (fst (fs ! j)), b) \<in> set kvs" "f = assign E b" by auto
      then have "map_of kvs (field_key (fst (fs ! j))) = Some b" using assms(2) by simp
      then show "f (snd (fs ! j)) (vs ! j) = Some (ws ! j)" using assms(5) j b(2) by fastforce
    qed
    show "\<forall>j < length fs. field_key (fst (fs ! j)) \<notin> fst ` set (map (\<lambda>(k, b). (k, assign E b)) kvs) \<longrightarrow> vs ! j = ws ! j"
    proof (intro allI impI)
      fix j assume "j < length fs" and "field_key (fst (fs ! j)) \<notin> fst ` set (map (\<lambda>(k, b). (k, assign E b)) kvs)"
      moreover from this have "map_of kvs (field_key (fst (fs ! j))) = None"
        by (force simp: map_of_eq_None_iff)
      ultimately show "vs ! j = ws ! j" using assms(5) by fastforce
    qed
  qed
  then show ?thesis
    by (simp add: through.simps assign_at_def assign_dict_def assign_obj_def wrap_flat [OF assms(1,3)])
qed

section \<open>Encoding one\<close>

lemma zip_left: "list_all P fs \<Longrightarrow> fv \<in> set (zip fs vs) \<Longrightarrow> P (fst fv)"
  by (metis list_all_iff prod.collapse set_zip_leftD)

lemma set_zip_nth: "length vs = length fs \<Longrightarrow> set (zip fs vs) = (\<lambda>j. (fs ! j, vs ! j)) ` {..<length fs}"
  by (force simp: set_zip)

lemma all_fields_flat:
  assumes "list_all (\<lambda>ft. flat_field (fst ft)) fs"
  shows "all_fields (TStruct fs) (VStruct vs) = List.map_filter own_field (zip fs vs)"
proof -
  have "\<not> embedded (fst (fst fv))" if "fv \<in> set (zip fs vs)" for fv
    using zip_left [OF assms that] by (simp add: embedded_def flat_field_def)
  then show ?thesis
    by (subst all_fields.simps) (simp add: struct_parts_def)
qed

lemma distinct_map_filter_keys:
  assumes "distinct (map g xs)" and "\<And>x y. x \<in> set xs \<Longrightarrow> f x = Some y \<Longrightarrow> h y = g x"
  shows "distinct (map h (List.map_filter f xs))"
  using assms
proof (induction xs)
  case (Cons x xs)
  have "distinct (map h (List.map_filter f xs))" using Cons by simp
  moreover have "h y \<notin> h ` set (List.map_filter f xs)" if "f x = Some y" for y
  proof
    assume "h y \<in> h ` set (List.map_filter f xs)"
    then obtain x' y' where "x' \<in> set xs" "f x' = Some y'" "h y = h y'" by (auto simp: List.map_filter_def)
    then have "g x = g x'" using Cons.prems(2) that by (metis list.set_intros)
    then show False using Cons.prems(1) \<open>x' \<in> set xs\<close> by simp
  qed
  ultimately show ?case by (simp add: List.map_filter_simps split: option.split)
qed (simp add: List.map_filter_simps)

lemma distinct_sort_key: "distinct (map h (sort_key h xs)) = distinct (map h xs)"
  by (metis mset_map mset_sort mset_eq_imp_distinct_iff)

lemma to_bval_flat:
  assumes "flat fs" and "length vs = length fs"
  obtains kvs where "to_bval (TStruct fs) (VStruct vs) = Some (BDict kvs)" "distinct (map fst kvs)"
    "\<And>k b. (k, b) \<in> set kvs \<longleftrightarrow> (\<exists>j < length fs. k = field_key (fst (fs ! j)) \<and>
       \<not> dropped (fst (fs ! j)) (snd (fs ! j)) (vs ! j) \<and> to_bval (snd (fs ! j)) (vs ! j) = Some b)"
proof -
  let ?es = "sort_key fst (List.map_filter own_field (zip fs vs))"
  let ?f = "\<lambda>e. map_option (Pair (fst e)) (to_bval (fst (snd e)) (snd (snd e)))"
  have fs: "list_all (\<lambda>ft. flat_field (fst ft)) fs" "distinct (map (\<lambda>ft. field_key (fst ft)) fs)"
    using assms(1) by (simp_all add: flat_def)
  have own: "own_field fv = (if dropped (fst (fst fv)) (snd (fst fv)) (snd fv) then None
      else map_option (Pair (field_key (fst (fst fv)))) (direct (snd (fst fv)) (snd fv)))"
    if "fv \<in> set (zip fs vs)" for fv
    using own_field_flat [OF zip_left [OF fs(1) that], of "snd (fst fv)" "snd fv"] by simp
  have es: "distinct (map fst ?es)"
  proof -
    have "map (\<lambda>fv. field_key (fst (fst fv))) (zip fs vs) = map ((\<lambda>ft. field_key (fst ft)) \<circ> fst) (zip fs vs)"
      by (simp add: o_def)
    also have "\<dots> = map (\<lambda>ft. field_key (fst ft)) (map fst (zip fs vs))" by (simp only: map_map)
    also have "\<dots> = map (\<lambda>ft. field_key (fst ft)) fs" using assms(2) by simp
    finally have "distinct (map (\<lambda>fv. field_key (fst (fst fv))) (zip fs vs))" using fs(2) by simp
    then have "distinct (map fst (List.map_filter own_field (zip fs vs)))"
      by (rule distinct_map_filter_keys) (auto simp: own split: if_splits)
    then show ?thesis by (simp only: distinct_sort_key)
  qed
  show ?thesis
  proof (rule that)
    show "to_bval (TStruct fs) (VStruct vs) = Some (BDict (List.map_filter ?f ?es))"
      by (simp add: to_bval.simps [of "TStruct fs"] all_fields_flat [OF fs(1)])
    show "distinct (map fst (List.map_filter ?f ?es))"
      using es by (rule distinct_map_filter_keys) auto
    fix k b
    have "(k, b) \<in> set (List.map_filter ?f ?es) \<longleftrightarrow>
        (\<exists>fv \<in> set (zip fs vs). \<exists>t x. own_field fv = Some (k, t, x) \<and> to_bval t x = Some b)"
      by (force simp: set_map_filter)
    also have "\<dots> \<longleftrightarrow> (\<exists>fv \<in> set (zip fs vs). k = field_key (fst (fst fv)) \<and>
        \<not> dropped (fst (fst fv)) (snd (fst fv)) (snd fv) \<and> to_bval (snd (fst fv)) (snd fv) = Some b)"
    proof (intro bex_cong refl)
      fix fv assume fv: "fv \<in> set (zip fs vs)"
      show "(\<exists>t x. own_field fv = Some (k, t, x) \<and> to_bval t x = Some b) \<longleftrightarrow> (k = field_key (fst (fst fv)) \<and>
          \<not> dropped (fst (fst fv)) (snd (fst fv)) (snd fv) \<and> to_bval (snd (fst fv)) (snd fv) = Some b)"
        unfolding own [OF fv] to_bval_direct [of "snd (fst fv)" "snd fv"]
        by (auto split: option.splits)
    qed
    also have "\<dots> \<longleftrightarrow> (\<exists>j < length fs. k = field_key (fst (fs ! j)) \<and>
        \<not> dropped (fst (fs ! j)) (snd (fs ! j)) (vs ! j) \<and> to_bval (snd (fs ! j)) (vs ! j) = Some b)"
      unfolding set_zip_nth [OF assms(2)] by auto
    finally show "(k, b) \<in> set (List.map_filter ?f ?es) \<longleftrightarrow> (\<exists>j < length fs. k = field_key (fst (fs ! j)) \<and>
        \<not> dropped (fst (fs ! j)) (snd (fs ! j)) (vs ! j) \<and> to_bval (snd (fs ! j)) (vs ! j) = Some b)" .
  qed
qed

section \<open>Round trip\<close>

text \<open>
  Values that come back as they were. Not among them: nil and empty slices, maps and pointers that
  leave an entry of another shape behind, unsigned numbers beyond \<open>int64\<close> and dynamic types.
\<close>

function keepable :: "gotype \<Rightarrow> goval \<Rightarrow> bool" where
  "keepable t v =
     (case (t, v) of
        (TBool, VBool b) \<Rightarrow> True
      | (TInt w, VInt n) \<Rightarrow> 0 < w \<and> w \<le> 64 \<and> - (2 ^ (w - 1)) \<le> n \<and> n < 2 ^ (w - 1)
      | (TUint w, VUint n) \<Rightarrow> 0 \<le> n \<and> n < 2 ^ w \<and> n < 2 ^ 63
      | (TString, VString s) \<Rightarrow> len_ok s
      | (TSlice t', VSlice (Some vs)) \<Rightarrow>
          (if t' = TUint 8 then length vs < 2 ^ 31 \<and> list_all (has_type (TUint 8)) vs
           else vs \<noteq> [] \<and> list_all (keepable t') vs)
      | (TArray k t', VArray vs) \<Rightarrow> length vs = k \<and> list_all (keepable t') vs
      | (TMap kt t', VMap (Some kvs)) \<Rightarrow>
          kt = TString \<and> sorted_wrt (<) (map fst kvs) \<and>
          list_all (\<lambda>kx. len_ok (fst kx)) kvs \<and> list_all (\<lambda>x. keepable t' x) (map snd kvs)
      | (TPtr t', VPtr (Some x)) \<Rightarrow> keepable t' x
      | (TStruct fs, VStruct vs) \<Rightarrow>
          flat fs \<and> length vs = length fs \<and> list_all (\<lambda>ft. len_ok (field_key (fst ft))) fs \<and>
          list_all (\<lambda>fv. if dropped (fst (fst fv)) (snd (fst fv)) (snd fv) then snd fv = zero (snd (fst fv))
                          else keepable (snd (fst fv)) (snd fv)) (zip fs vs)
      | _ \<Rightarrow> False)"
  by pat_completeness auto
termination
  by (relation "measure (\<lambda>(t, v). size v)")
    (auto dest!: size_elem size_map_elem set_zip_rightD)

declare keepable.simps [simp del]

lemma keepable_cases:
  assumes "keepable t v"
  obtains (bool) b where "t = TBool" "v = VBool b"
  | (int) w n where "t = TInt w" "v = VInt n" "0 < w" "w \<le> 64" "- (2 ^ (w - 1)) \<le> n" "n < 2 ^ (w - 1)"
  | (uint) w n where "t = TUint w" "v = VUint n" "0 \<le> n" "n < 2 ^ w" "n < 2 ^ 63"
  | (string) s where "t = TString" "v = VString s" "len_ok s"
  | (bytes) vs where "t = byte_slice" "v = VSlice (Some vs)" "length vs < 2 ^ 31" "list_all (has_type (TUint 8)) vs"
  | (slice) t' vs where "t = TSlice t'" "t' \<noteq> TUint 8" "v = VSlice (Some vs)" "vs \<noteq> []" "\<forall>x \<in> set vs. keepable t' x"
  | (array) k t' vs where "t = TArray k t'" "v = VArray vs" "length vs = k" "\<forall>x \<in> set vs. keepable t' x"
  | (map) t' kvs where "t = TMap TString t'" "v = VMap (Some kvs)" "sorted_wrt (<) (map fst kvs)"
      "\<forall>(k, x) \<in> set kvs. len_ok k \<and> keepable t' x"
  | (ptr) t' x where "t = TPtr t'" "v = VPtr (Some x)" "keepable t' x"
  | (struct) fs vs where "t = TStruct fs" "v = VStruct vs" "flat fs" "length vs = length fs"
      "\<forall>j < length fs. len_ok (field_key (fst (fs ! j))) \<and>
         (if dropped (fst (fs ! j)) (snd (fs ! j)) (vs ! j) then vs ! j = zero (snd (fs ! j))
          else keepable (snd (fs ! j)) (vs ! j))"
proof -
  have s: "(case (t, v) of
        (TBool, VBool b) \<Rightarrow> True
      | (TInt w, VInt n) \<Rightarrow> 0 < w \<and> w \<le> 64 \<and> - (2 ^ (w - 1)) \<le> n \<and> n < 2 ^ (w - 1)
      | (TUint w, VUint n) \<Rightarrow> 0 \<le> n \<and> n < 2 ^ w \<and> n < 2 ^ 63
      | (TString, VString s) \<Rightarrow> len_ok s
      | (TSlice t', VSlice (Some vs)) \<Rightarrow>
          (if t' = TUint 8 then length vs < 2 ^ 31 \<and> list_all (has_type (TUint 8)) vs
           else vs \<noteq> [] \<and> list_all (keepable t') vs)
      | (TArray k t', VArray vs) \<Rightarrow> length vs = k \<and> list_all (keepable t') vs
      | (TMap kt t', VMap (Some kvs)) \<Rightarrow>
          kt = TString \<and> sorted_wrt (<) (map fst kvs) \<and>
          list_all (\<lambda>kx. len_ok (fst kx)) kvs \<and> list_all (\<lambda>x. keepable t' x) (map snd kvs)
      | (TPtr t', VPtr (Some x)) \<Rightarrow> keepable t' x
      | (TStruct fs, VStruct vs) \<Rightarrow>
          flat fs \<and> length vs = length fs \<and> list_all (\<lambda>ft. len_ok (field_key (fst ft))) fs \<and>
          list_all (\<lambda>fv. if dropped (fst (fst fv)) (snd (fst fv)) (snd fv) then snd fv = zero (snd (fst fv))
                          else keepable (snd (fst fv)) (snd fv)) (zip fs vs)
      | _ \<Rightarrow> False)"
    using assms by (subst (asm) keepable.simps)
  show ?thesis
  proof (cases t)
    case (TSlice t')
    then show ?thesis using s bytes slice by (cases v) (auto simp: list_all_iff split: option.splits if_splits)
  next
    case (TMap kt t')
    then show ?thesis using s map by (cases v) (fastforce simp: list_all_iff split: option.splits)+
  next
    case (TStruct fs)
    then obtain vs where "v = VStruct vs" using s by (cases v) auto
    show ?thesis
    proof (rule struct [OF TStruct \<open>v = VStruct vs\<close>])
      show "flat fs" and len: "length vs = length fs" using s TStruct \<open>v = VStruct vs\<close> by simp_all
      show "\<forall>j < length fs. len_ok (field_key (fst (fs ! j))) \<and>
         (if dropped (fst (fs ! j)) (snd (fs ! j)) (vs ! j) then vs ! j = zero (snd (fs ! j))
          else keepable (snd (fs ! j)) (vs ! j))"
        using s TStruct \<open>v = VStruct vs\<close> set_zip_nth [OF len] by (auto simp: list_all_iff split: if_splits)
    qed
  next
    case TBool
    then show ?thesis using s bool by (cases v) simp_all
  next
    case (TInt w)
    then show ?thesis using s int by (cases v) simp_all
  next
    case (TUint w)
    then show ?thesis using s uint by (cases v) simp_all
  next
    case TString
    then show ?thesis using s string by (cases v) simp_all
  next
    case (TArray k t')
    then show ?thesis using s array by (cases v) (simp_all add: list_all_iff)
  next
    case (TPtr t')
    then show ?thesis using s ptr by (cases v) (simp_all split: option.splits)
  qed (use s in \<open>cases v; simp\<close>)+
qed

text \<open>What it means to come back.\<close>

definition returns :: "env \<Rightarrow> gotype \<Rightarrow> goval \<Rightarrow> bool" where
  "returns E t v \<longleftrightarrow> (\<exists>b. to_bval t v = Some b \<and> bval_ok b \<and> assign E b t (zero t) = Some v)"

lemma assign_bool: "assign E (BInt (if b then 1 else 0)) TBool v = Some (VBool b)"
  by (simp add: through.simps assign_at_def assign_int_def)

lemma assign_ptr:
  assumes "assign E b t (zero t) = Some x"
  shows "assign E b (TPtr t) (VPtr None) = Some (VPtr (Some x))"
proof -
  have "through k t (zero t) = through_new k t" for k :: spec_fn
    by (cases t) (simp_all add: through.simps)
  moreover have "through k (TPtr t) (VPtr None) = map_option (VPtr \<circ> Some) (through_new k t)" for k :: spec_fn
    by (simp add: through.simps)
  ultimately show ?thesis using assms by (cases b) simp_all
qed

lemma those_map: "\<forall>x \<in> set xs. f x = Some (g x) \<Longrightarrow> those (map f xs) = Some (map g xs)"
  by (induction xs) auto

lemma of_to_bytes: "list_all (has_type (TUint 8)) vs \<Longrightarrow> of_bytes (to_bytes vs) = vs"
proof (induction vs)
  case (Cons v vs)
  then obtain n where "v = VUint n" "0 \<le> n" "n < 256" by auto
  then have "VUint (int (of_char (to_byte v))) = v" by (simp add: to_byte_def of_char_of)
  then show ?case using Cons by (simp add: of_bytes_def to_bytes_def)
qed (simp add: of_bytes_def to_bytes_def)

lemma assign_array:
  assumes "length bs = length vs" and "\<forall>i < length vs. assign E (bs ! i) t (zero t) = Some (vs ! i)"
  shows "assign E (BList bs) (TArray (length vs) t) (VArray (replicate (length vs) (zero t))) = Some (VArray vs)"
proof -
  have "map2 (\<lambda>f. f t) (map (assign E) bs) (replicate (length vs) (zero t)) = map Some vs"
    using assms by (intro nth_equalityI) simp_all
  moreover have "those (map Some vs) = Some vs" using those_map [of vs Some "\<lambda>x. x"] by simp
  ultimately show ?thesis
    using assms(1) by (simp add: through.simps assign_at_def assign_list_def assign_seq_def)
qed

lemma assign_slice:
  assumes "bs \<noteq> []" and "length bs = length vs" and "\<forall>i < length vs. assign E (bs ! i) t (zero t) = Some (vs ! i)"
  shows "assign E (BList bs) (TSlice t) (VSlice None) = Some (VSlice (Some vs))"
proof -
  have "map (\<lambda>f. f t (zero t)) (map (assign E) bs) = map Some vs"
    using assms by (intro nth_equalityI) simp_all
  moreover have "those (map Some vs) = Some vs" using those_map [of vs Some "\<lambda>x. x"] by simp
  ultimately show ?thesis
    using assms(1) by (simp add: through.simps assign_at_def assign_list_def assign_seq_def o_def)
qed

lemma assign_strings:
  "assign E (BList (map BStr ss)) (TSlice TString) (VSlice None) =
   Some (VSlice (if ss = [] then None else Some (map VString ss)))"
proof (cases "ss = []")
  case True
  then show ?thesis by (simp add: through.simps assign_at_def assign_list_def assign_seq_def)
next
  case False
  then show ?thesis using assign_slice [of "map BStr ss" "map VString ss" E TString] by (simp del: assign.simps)
qed

lemma map_filter_total: "\<forall>x \<in> set xs. f x = Some (g x) \<Longrightarrow> List.map_filter f xs = map g xs"
  by (induction xs) (simp_all add: List.map_filter_simps)

text \<open>The elements of a list, all of which come back.\<close>

lemma returns_elems:
  assumes "\<forall>x \<in> set vs. returns E t x"
  obtains bs where "List.map_filter (to_bval t) vs = bs" "length bs = length vs" "list_all bval_ok bs"
    "\<forall>i < length vs. assign E (bs ! i) t (zero t) = Some (vs ! i)"
proof -
  let ?g = "\<lambda>x. the (to_bval t x)"
  have g: "to_bval t x = Some (?g x)" "bval_ok (?g x)" "assign E (?g x) t (zero t) = Some x" if "x \<in> set vs" for x
    using assms that by (auto simp: returns_def)
  have "List.map_filter (to_bval t) vs = map ?g vs" using g(1) by (intro map_filter_total) simp
  then show ?thesis using that [of "map ?g vs"] g by (simp add: list_all_iff)
qed

lemma returns_map:
  assumes "sorted_wrt (<) (map fst kvs)" and "\<forall>(k, x) \<in> set kvs. len_ok k \<and> returns E t x"
  shows "returns E (TMap TString t) (VMap (Some kvs))"
proof -
  let ?g = "\<lambda>x. the (to_bval t x)"
  let ?bs = "map (\<lambda>(k, x). (k, ?g x)) kvs"
  have g: "to_bval t x = Some (?g x)" "bval_ok (?g x)" "assign E (?g x) t (zero t) = Some x"
    if "(k, x) \<in> set kvs" for k x
    using assms(2) that by (auto simp: returns_def)
  have dist: "distinct (map fst kvs)" using assms(1) by (simp add: strict_sorted_iff)
  have "sort_key fst kvs = kvs" using assms(1) by (intro sort_key_id_if_sorted strict_sorted_imp_sorted)
  moreover have "List.map_filter (\<lambda>(k, x). map_option (Pair k) (to_bval t x)) kvs = ?bs"
    using g(1) by (intro map_filter_total) auto
  ultimately have "to_bval (TMap TString t) (VMap (Some kvs)) = Some (BDict ?bs)"
    by (simp add: to_bval.simps [of "TMap TString t"] map_elems_def)
  moreover have "bval_ok (BDict ?bs)"
    using dist assms(2) g(2) by (auto simp: o_def split_beta list_all_iff)
  moreover have "assign E (BDict ?bs) (TMap TString t) (VMap None) =
      Some (VMap (Some (map (\<lambda>(k, b). (k, the (assign E b t (zero t)))) ?bs)))"
    using dist g(3) by (intro assign_map) (auto simp: o_def split_beta)
  moreover have "map (\<lambda>(k, b). (k, the (assign E b t (zero t)))) ?bs = map (\<lambda>x. x) kvs"
    using g(3) by (auto simp del: map_ident)
  ultimately show ?thesis
    by (simp add: returns_def del: assign.simps)
qed

lemma returns_struct:
  assumes fs: "flat fs" "length vs = length fs"
    and el: "\<forall>j < length fs. len_ok (field_key (fst (fs ! j))) \<and>
        (if dropped (fst (fs ! j)) (snd (fs ! j)) (vs ! j) then vs ! j = zero (snd (fs ! j))
         else returns E (snd (fs ! j)) (vs ! j))"
  shows "returns E (TStruct fs) (VStruct vs)"
proof -
  obtain kvs where b: "to_bval (TStruct fs) (VStruct vs) = Some (BDict kvs)" "distinct (map fst kvs)"
    and kvs: "\<And>k b. (k, b) \<in> set kvs \<longleftrightarrow> (\<exists>j < length fs. k = field_key (fst (fs ! j)) \<and>
       \<not> dropped (fst (fs ! j)) (snd (fs ! j)) (vs ! j) \<and> to_bval (snd (fs ! j)) (vs ! j) = Some b)"
    using to_bval_flat [OF fs] by blast
  have "bval_ok (BDict kvs)"
    using b(2) kvs el by (fastforce simp: list_all_iff returns_def)
  moreover have "assign E (BDict kvs) (TStruct fs) (VStruct (map (\<lambda>(f, t). zero t) fs)) = Some (VStruct vs)"
  proof (rule assign_flat [OF fs(1) b(2) _ fs(2)])
    show "\<forall>j < length fs. case map_of kvs (field_key (fst (fs ! j))) of
        None \<Rightarrow> vs ! j = map (\<lambda>(f, t). zero t) fs ! j
      | Some b \<Rightarrow> assign E b (snd (fs ! j)) (map (\<lambda>(f, t). zero t) fs ! j) = Some (vs ! j)"
    proof (intro allI impI)
      fix j assume j: "j < length fs"
      let ?k = "field_key (fst (fs ! j))"
      have z: "map (\<lambda>(f, t). zero t) fs ! j = zero (snd (fs ! j))" using j by (simp add: split_beta)
      show "case map_of kvs ?k of
        None \<Rightarrow> vs ! j = map (\<lambda>(f, t). zero t) fs ! j
      | Some b \<Rightarrow> assign E b (snd (fs ! j)) (map (\<lambda>(f, t). zero t) fs ! j) = Some (vs ! j)"
      proof (cases "map_of kvs ?k")
        case None
        then have "(?k, b) \<notin> set kvs" for b by (metis map_of_eq_None_iff imageI fst_conv)
        then have "dropped (fst (fs ! j)) (snd (fs ! j)) (vs ! j)"
          using kvs el j by (metis returns_def)
        then show ?thesis using None el j z by simp
      next
        case (Some b)
        then obtain i where i: "i < length fs" "?k = field_key (fst (fs ! i))"
            "\<not> dropped (fst (fs ! i)) (snd (fs ! i)) (vs ! i)" "to_bval (snd (fs ! i)) (vs ! i) = Some b"
          using kvs map_of_SomeD by metis
        then have "i = j" using flat_key_inj [OF fs(1) j i(1)] by simp
        then have "returns E (snd (fs ! j)) (vs ! j)" using el i j by auto
        then show ?thesis using Some i(4) \<open>i = j\<close> z by (auto simp: returns_def)
      qed
    qed
  qed simp
  ultimately show ?thesis using b(1) by (simp add: returns_def del: assign.simps)
qed

lemma keepable_returns: "keepable t v \<Longrightarrow> returns E t v"
proof (induction "size v" arbitrary: t v rule: less_induct)
  case less
  from less.prems show ?case
  proof (cases rule: keepable_cases)
    case (bool b)
    then show ?thesis using assign_bool [of E b] by (simp add: returns_def to_bval.simps [of TBool] del: assign.simps)
  next
    case (int w n)
    have "(2 :: int) ^ (w - 1) \<le> 2 ^ 63" using int(4) by (intro power_increasing) simp_all
    then have "- (2 ^ 63) \<le> n \<and> n < 2 ^ 63" using int(5,6) by linarith
    moreover have "signed_take_bit (w - 1) n = n" using int(5,6) by (simp add: signed_take_bit_int_eq_self)
    ultimately show ?thesis using int(1,2) by (simp add: returns_def to_bval.simps [of "TInt w"] del: assign.simps)
  next
    case (uint w n)
    have "take_bit w n = n" using uint(3,4) by (simp add: take_bit_int_eq_self)
    then show ?thesis using uint by (simp add: returns_def to_bval.simps [of "TUint w"] del: assign.simps)
  next
    case (string s)
    then show ?thesis by (simp add: returns_def to_bval.simps [of TString] del: assign.simps)
  next
    case (bytes vs)
    then show ?thesis
      by (simp add: returns_def to_bval.simps [of byte_slice] slice_elems_def len_ok_def of_to_bytes del: assign.simps)
  next
    case (slice t' vs)
    then have "\<forall>x \<in> set vs. returns E t' x" using less.hyps size_elem [of _ vs] by fastforce
    then obtain bs where bs: "List.map_filter (to_bval t') vs = bs" "length bs = length vs" "list_all bval_ok bs"
        "\<forall>i < length vs. assign E (bs ! i) t' (zero t') = Some (vs ! i)"
      using returns_elems by blast
    moreover have "bs \<noteq> []" using bs(2) slice(4) by auto
    ultimately show ?thesis
      using slice(1-3) assign_slice [of bs vs E t']
      by (simp add: returns_def to_bval.simps [of "TSlice t'"] slice_elems_def del: assign.simps)
  next
    case (array k t' vs)
    then have "\<forall>x \<in> set vs. returns E t' x" using less.hyps size_elem [of _ vs] by fastforce
    then obtain bs where bs: "List.map_filter (to_bval t') vs = bs" "length bs = length vs" "list_all bval_ok bs"
        "\<forall>i < length vs. assign E (bs ! i) t' (zero t') = Some (vs ! i)"
      using returns_elems by blast
    then show ?thesis
      using array(1-3) assign_array [OF bs(2,4)]
      by (simp add: returns_def to_bval.simps [of "TArray k t'"] del: assign.simps)
  next
    case (map t' kvs)
    then have "\<forall>(k, x) \<in> set kvs. len_ok k \<and> returns E t' x" using less.hyps size_map_elem [of _ _ kvs] by fastforce
    then show ?thesis using returns_map map(1-3) by blast
  next
    case (ptr t' x)
    then have "returns E t' x" using less.hyps by simp
    then show ?thesis
      using ptr(1,2) assign_ptr [of E _ t' x] by (auto simp: returns_def to_bval.simps [of "TPtr t'"] simp del: assign.simps)
  next
    case (struct fs vs)
    have "returns E (snd (fs ! j)) (vs ! j)"
      if "j < length fs" "\<not> dropped (fst (fs ! j)) (snd (fs ! j)) (vs ! j)" for j
      using less.hyps [of "vs ! j" "snd (fs ! j)"] struct that size_elem [of "vs ! j" vs] by auto
    then show ?thesis using returns_struct [OF struct(3,4)] struct(1,2,5) by simp
  qed
qed

end
