(* ===== verification/Bencode_Properties.thy ===== *)
theory Bencode_Properties
  imports Bencode_Raw Bencode_Structs
begin

text \<open>
  What package \<open>bencode\<close> guarantees: the decoder implements its specification, keeps types and
  always ends; the encoder implements its own; and the two invert each other.
\<close>

section \<open>Decoding\<close>

text \<open>
  C1. \<open>Unmarshal\<close> implements the specification \<open>assign\<close>. On the encoding of any value, followed by
  anything, it stores what the specification assigns, and reports an error exactly when the
  specification has no value for the target. This covers every target type: integers of each width,
  strings, byte slices, slices, arrays, maps, structs with tags and embedded structs, pointers,
  interfaces and user types with their own methods.
\<close>

theorem Unmarshal_implements_assign:
  assumes "env_safe E" and "bval_ok b" and "wf_type t" and "has_type t v"
  shows "(case assign E b t v of
      Some x \<Rightarrow> unmarshal_var E (benc b @ rest) t v = (None, x)
    | None \<Rightarrow> fst (unmarshal_var E (benc b @ rest) t v) \<noteq> None)"
  using assms by (rule unmarshal_var_assign)

theorem Unmarshal_implements_assign_witness:
  "unmarshal_var bencode_env (benc (BDict [(''a'', BInt 300), (''x'', BStr ''q'')]))
     (TStruct [(tagged_field ''N'' ''a'', TInt 8), (field ''M'', TPtr TString)]) (VStruct [VInt 0, VPtr None]) =
   (None, VStruct [VInt 44, VPtr None])"
proof -
  let ?b = "BDict [(''a'', BInt 300), (''x'', BStr ''q'')]"
  let ?t = "TStruct [(tagged_field ''N'' ''a'', TInt 8), (field ''M'', TPtr TString)]"
  let ?v = "VStruct [VInt 0, VPtr None]"
  have ok: "bval_ok ?b" by (simp add: len_ok_def)
  have wf: "wf_type ?t" by (simp add: field_ok_def embedded_def tagged_field_def field_def)
  have ty: "has_type ?t ?v" by simp
  have "assign bencode_env ?b ?t ?v = Some (VStruct [VInt 44, VPtr None])" by code_simp
  with Unmarshal_implements_assign [OF bencode_env_ok(2) ok wf ty, of "[]"] show ?thesis
    by (simp only: option.case append_Nil2)
qed

text \<open>
  C2. Decoding is safe on every input, malformed ones included: the variable still holds a value of
  its type afterwards, also when an error is reported, and no panic escapes.
\<close>

theorem decode_keeps_types:
  assumes "env_safe E" and "wf_type t" and "has_type t v"
  shows "has_type t (snd (unmarshal_var E data t v)) \<and> (\<forall>msg. fst (unmarshal_var E data t v) \<noteq> Some (Panic msg))"
  using decodeInto_safe [OF assms, of "newDecoder data"]
  by (simp add: unmarshal_var_def safe_result_def split_beta)

theorem decode_keeps_types_witness:
  "has_type (TMap TString (TArray 2 (TUint 8)))
     (snd (unmarshal_var bencode_env ''d1:ali1ei2ei3eee'' (TMap TString (TArray 2 (TUint 8))) (VMap None)))"
proof -
  let ?t = "TMap TString (TArray 2 (TUint 8))"
  have "wf_type ?t" and "has_type ?t (VMap None)" by simp_all
  from decode_keeps_types [OF bencode_env_ok(2) this] show ?thesis by (rule conjunct1)
qed

text \<open>
  C3. Decoding ends: for every input, target type and current value, nested however deep, the
  recursion of \<open>decode\<close> and the loops of \<open>decodeList\<close> and \<open>decodeDict\<close> finish within the length of the
  input.
\<close>

theorem decode_terminates:
  assumes "env_total E"
  shows "fst (unmarshal_var E data t v) \<noteq> Some OutOfFuel"
  using decodeInto_total [OF assms, of t v "newDecoder data"]
  by (simp add: unmarshal_var_def split_beta)

theorem decode_terminates_witness:
  "fst (unmarshal_var bencode_env ''lllll'' TIface (VIface None)) \<noteq> Some OutOfFuel"
  by (rule decode_terminates [OF bencode_env_ok(1)])

text \<open>
  C16. A decoder that reports success has consumed a non-empty prefix of its input and nothing else,
  and \<open>BytesParsed\<close> grew by exactly its length, so values can be decoded one after the other from a
  stream and the bytes behind a message can be located.
\<close>

theorem BytesParsed_exact:
  assumes "decodeInto E t v d = (None, v', d')"
  shows "\<exists>c. c \<noteq> [] \<and> dr d = c @ dr d' \<and> bytesParsed d' = bytesParsed d + int (length c)"
proof -
  have "decode E (Suc (length (dr d))) t v d = (None, v', d')"
    using assms by (auto simp: decodeInto_def simp del: decode.simps split: prod.splits option.splits)
  then obtain c where "c \<noteq> []" "advance c d d'" using dec.consumes by blast
  then show ?thesis by (auto simp: advance_def bytesParsed_def)
qed

theorem BytesParsed_exact_witness:
  "\<exists>v' d'. decodeInto bencode_env raw_type (raw_val None) (newDecoder ''l3:abcd1:xi7eeeXYZ'') = (None, v', d') \<and>
     (\<exists>c. c \<noteq> [] \<and> ''l3:abcd1:xi7eeeXYZ'' = c @ dr d' \<and> bytesParsed d' = int (length c))"
proof -
  let ?d = "newDecoder ''l3:abcd1:xi7eeeXYZ''"
  let ?b = "BList [BStr ''abc'', BDict [(''x'', BInt 7)]]"
  have "benc ?b = ''l3:abcd1:xi7eee''" by code_simp
  then have "implements (benc ?b) ?d (assign bencode_env ?b raw_type (raw_val None))
      (decodeInto bencode_env raw_type (raw_val None) ?d)"
    by (intro decodeInto_assign [OF bencode_env_ok(2), of _ _ "''XYZ''"])
      (simp_all add: newDecoder_def quiet_def len_ok_def del: benc.simps)
  moreover have "assign bencode_env ?b raw_type (raw_val None) \<noteq> None" by code_simp
  ultimately obtain v' d' where r: "decodeInto bencode_env raw_type (raw_val None) ?d = (None, v', d')"
    by (auto simp: implements_def simp del: assign.simps benc.simps)
  have d: "dr ?d = ''l3:abcd1:xi7eeeXYZ''" "bytesParsed ?d = 0"
    by (simp_all add: newDecoder_def bytesParsed_def)
  from BytesParsed_exact [OF r] r show ?thesis unfolding d by simp
qed

text \<open>
  C17. The verbatim reader behind \<open>RawMessage\<close> and \<open>Unmarshaler\<close> takes exactly one encoded value
  off the stream: it copies its encoding byte for byte and leaves the decoder right behind it, for
  every value, every continuation of the input and any sufficient fuel.
\<close>

theorem raw_value_verbatim:
  assumes "bval_ok b" and "dr d = benc b @ rest" and "length (benc b) \<le> n"
  shows "readValueInto n buf d = (None, bufWrite buf (benc b), took (benc b) d)"
  using assms by (rule readValueInto_benc)

theorem raw_value_verbatim_witness:
  "readValueInto 20 (Some []) (newDecoder ''d1:ai7ee5:spare'') =
     (None, Some ''d1:ai7ee'', took ''d1:ai7ee'' (newDecoder ''d1:ai7ee5:spare''))"
proof -
  let ?b = "BDict [(''a'', BInt 7)]"
  have enc: "benc ?b = ''d1:ai7ee''" by code_simp
  have "bval_ok ?b" by (simp add: len_ok_def)
  moreover have "dr (newDecoder ''d1:ai7ee5:spare'') = benc ?b @ ''5:spare''"
    unfolding enc by (simp add: newDecoder_def)
  moreover have "length (benc ?b) \<le> 20" unfolding enc by simp
  ultimately have "readValueInto 20 (Some []) (newDecoder ''d1:ai7ee5:spare'') =
      (None, bufWrite (Some []) (benc ?b), took (benc ?b) (newDecoder ''d1:ai7ee5:spare''))"
    by (rule raw_value_verbatim)
  then show ?thesis by (simp only: enc bufWrite_def option.map append_Nil)
qed

section \<open>Encoding\<close>

text \<open>
  C4. \<open>Marshal\<close> implements the specification \<open>to_bval\<close>: for every value of a well-formed type
  without floats, channels or functions and without marshalling methods of its own it succeeds, panics
  nowhere, and writes exactly the encoding of the abstract value, nothing for a nil.
\<close>

theorem Marshal_implements_to_bval:
  assumes "good E t v"
  shows "Marshal E (Some (t, v)) = (benc_opt (to_bval t v), None)"
  using assms by (rule Marshal_to_bval)

theorem Marshal_implements_to_bval_witness:
  "Marshal env0 (Some (TStruct [(tagged_field ''B'' ''z,omitempty'', TInt 64), (field ''A'', TPtr TBool)],
      VStruct [VInt (- 7), VPtr (Some (VBool True))])) = (''d1:Ai1e1:zi-7ee'', None)"
proof -
  let ?t = "TStruct [(tagged_field ''B'' ''z,omitempty'', TInt 64), (field ''A'', TPtr TBool)]"
  let ?v = "VStruct [VInt (- 7), VPtr (Some (VBool True))]"
  have "good env0 ?t ?v"
    by (auto simp: good_def field_ok_def embedded_def tagged_field_def field_def)
  from Marshal_implements_to_bval [OF this]
  have "Marshal env0 (Some (?t, ?v)) = (benc_opt (to_bval ?t ?v), None)" .
  moreover have "benc_opt (to_bval ?t ?v) = ''d1:Ai1e1:zi-7ee''" by code_simp
  ultimately show ?thesis by simp
qed

text \<open>
  In what \<open>Marshal\<close> writes every dictionary, at every depth, has its keys in ascending order.
\<close>

lemma Marshal_sorted:
  assumes "good E t v"
  shows "\<exists>b. Marshal E (Some (t, v)) = (benc_opt b, None) \<and> (\<forall>x. b = Some x \<longrightarrow> ordered x)"
proof (intro exI conjI allI impI)
  show "Marshal E (Some (t, v)) = (benc_opt (to_bval t v), None)" using assms by (rule Marshal_to_bval)
  show "ordered x" if "to_bval t v = Some x" for x using that by (rule to_bval_ordered)
qed

lemma Marshal_sorted_witness:
  "\<exists>b. Marshal env0 (Some (TMap TString (TInt 64), VMap (Some [(''b'', VInt 1), (''a'', VInt 2)]))) =
     (benc_opt b, None) \<and> (\<forall>x. b = Some x \<longrightarrow> ordered x)"
  by (rule Marshal_sorted) (simp_all add: good_def)

text \<open>
  C18. The iteration order of a Go map does not show: two orders of the same entries encode alike, for
  any element type and any user types inside.
\<close>

theorem Marshal_map_order:
  assumes "mset kvs = mset kvs'" and "distinct (map fst kvs)"
  shows "Marshal E (Some (TMap kt t, VMap (Some kvs))) = Marshal E (Some (TMap kt t, VMap (Some kvs')))"
  using encode_map_order [OF assms] by (simp add: Marshal_def Encode_def)

theorem Marshal_map_order_witness:
  "Marshal bencode_env (Some (TMap TString raw_type, VMap (Some [(''a'', raw_val None), (''b'', raw_val (Some ''0:''))]))) =
   Marshal bencode_env (Some (TMap TString raw_type, VMap (Some [(''b'', raw_val (Some ''0:'')), (''a'', raw_val None)])))"
  by (rule Marshal_map_order) simp_all

section \<open>Both\<close>

text \<open>
  C6. Round trip: a dynamically typed value (integers, strings, lists and dictionaries nested in
  \<open>interface{}\<close>) comes back unchanged from \<open>Marshal\<close> followed by \<open>Unmarshal\<close> into an interface,
  whatever the interface held before, unless it was a pointer.
\<close>

theorem interface_roundtrip:
  assumes "env_safe E" and "canonical b" and "bval_ok b" and "iface_val b = VIface i"
    and "has_type TIface v" and "no_pointer v"
  shows "Marshal E i = (benc b, None) \<and> unmarshal_var E (fst (Marshal E i)) TIface v = (None, VIface i)"
  using iface_roundtrip [OF assms] by simp

theorem interface_roundtrip_witness:
  "Marshal env0 (Some (TSlice TIface, VSlice (Some [VIface (Some (TInt 64, VInt 5)), VIface (Some (TString, VString ''a''))])))
     = (benc (BList [BInt 5, BStr ''a'']), None)"
proof -
  let ?b = "BList [BInt 5, BStr ''a'']"
  have "bval_ok ?b" by (simp add: len_ok_def)
  then show ?thesis
    using interface_roundtrip [of env0 ?b _ "VIface None"] by (simp del: benc.simps bval_ok.simps)
qed

text \<open>
  C5. Round trip of typed values: numbers within their width, strings, byte slices, arrays, non-empty
  slices, maps, pointers and structs with tags and \<open>omitempty\<close> fields come back from \<open>Unmarshal\<close> into
  a fresh variable exactly as \<open>Marshal\<close> was given them, whatever follows in the input.
\<close>

theorem typed_roundtrip:
  assumes "env_safe E" and "good E t v" and "keepable t v"
  shows "snd (Marshal E (Some (t, v))) = None \<and>
    unmarshal_var E (fst (Marshal E (Some (t, v))) @ rest) t (zero t) = (None, v)"
proof -
  obtain b where b: "to_bval t v = Some b" "bval_ok b" "assign E b t (zero t) = Some v"
    using keepable_returns [OF assms(3)] unfolding returns_def by blast
  have wf: "wf_type t" using assms(2) by (simp add: good_def)
  show ?thesis
    using unmarshal_var_assign [OF assms(1) b(2) wf has_type_zero, of rest] wf b(1,3) Marshal_to_bval [OF assms(2)]
    by simp
qed

theorem typed_roundtrip_witness:
  "unmarshal_var bencode_env (fst (Marshal bencode_env
      (Some (TStruct [(tagged_field ''N'' ''n,omitempty'', TInt 8), (field ''M'', TPtr (TMap TString (TUint 16)))],
             VStruct [VInt 0, VPtr (Some (VMap (Some [(''a'', VUint 5)])))]))) @ ''rest'')
     (TStruct [(tagged_field ''N'' ''n,omitempty'', TInt 8), (field ''M'', TPtr (TMap TString (TUint 16)))])
     (VStruct [VInt 0, VPtr None]) = (None, VStruct [VInt 0, VPtr (Some (VMap (Some [(''a'', VUint 5)])))])"
proof -
  let ?fs = "[(tagged_field ''N'' ''n,omitempty'', TInt 8), (field ''M'', TPtr (TMap TString (TUint 16)))]"
  let ?v = "VStruct [VInt 0, VPtr (Some (VMap (Some [(''a'', VUint 5)])))]"
  have good: "good bencode_env (TStruct ?fs) ?v"
    by (auto simp: good_def field_ok_def embedded_def tagged_field_def field_def)
  have flat: "flat ?fs" by code_simp
  have fields: "field_key (tagged_field ''N'' ''n,omitempty'') = ''n''" "field_key (field ''M'') = ''M''"
      "dropped (tagged_field ''N'' ''n,omitempty'') (TInt 8) (VInt 0)"
      "\<not> dropped (field ''M'') (TPtr (TMap TString (TUint 16))) (VPtr (Some (VMap (Some [(''a'', VUint 5)]))))"
    by code_simp+
  have "keepable (TPtr (TMap TString (TUint 16))) (VPtr (Some (VMap (Some [(''a'', VUint 5)]))))"
    by (simp add: keepable.simps [of "TPtr t" for t] keepable.simps [of "TMap s t" for s t] keepable.simps [of "TUint w" for w]
        len_ok_def)
  then have keep: "keepable (TStruct ?fs) ?v"
    using flat fields by (simp add: keepable.simps [of "TStruct fs" for fs] len_ok_def)
  show ?thesis using typed_roundtrip [OF bencode_env_ok(2) good keep, THEN conjunct2, of "''rest''"] by simp
qed

text \<open>
  The format is self-delimiting: from the concatenation of any sequence of encodings the verbatim
  reader recovers exactly the sequence, and two different sequences never produce the same stream.
\<close>

lemma stream_of_values:
  assumes "\<forall>b \<in> set bs. bval_ok b"
  shows "dec_seq raw_frame (length bs) (concat (map benc bs) @ rest) = Some (map benc bs, rest)"
  using raw_frames.dec_seq_frames [of "map benc bs" rest] assms by (auto simp: valid_frame_def)

lemma stream_of_values_witness:
  "dec_seq raw_frame 2 (concat (map benc [BInt 1, BStr ''ab'']) @ ''junk'') =
     Some (map benc [BInt 1, BStr ''ab''], ''junk'')"
proof -
  have "\<forall>b \<in> set [BInt 1, BStr ''ab'']. bval_ok b" by (simp add: len_ok_def)
  moreover have "length [BInt 1, BStr ''ab''] = 2" by simp
  ultimately show ?thesis using stream_of_values [of "[BInt 1, BStr ''ab'']" "''junk''"] by (simp only:)
qed

text \<open>
  The tag of a struct field is taken apart without loss: the name and the options, joined with
  commas, are the tag, and a tag without a comma is the name itself unless it is the one that hides
  the field.
\<close>

lemma parseTag_lossless:
  "(if CHR '','' \<in> set tag then join_with '','' (fst (parseTag tag) # snd (parseTag tag)) = tag
    else parseTag tag = (if tag = ''-'' then ([], [''-'']) else (tag, [])))"
  using parseTag_parts [of tag] parseTag_plain [of tag] by (auto simp: parseTag_def)

text \<open>
  C19. A \<open>RawMessage\<close> delays decoding: decoded from any valid encoding it holds exactly those bytes,
  and encoding it writes them back.
\<close>

theorem RawMessage_roundtrip:
  assumes "bval_ok b"
  shows "unmarshal_var bencode_env (benc b @ rest) raw_type (raw_val m) = (None, raw_val (Some (benc b))) \<and>
    Marshal bencode_env (Some (raw_type, raw_val (Some (benc b)))) = (benc b, None)"
proof
  show "unmarshal_var bencode_env (benc b @ rest) raw_type (raw_val m) = (None, raw_val (Some (benc b)))"
    using unmarshal_var_assign [OF bencode_env_ok(2) assms wf_raw_type has_type_raw, of rest m]
    by (simp add: assign_raw)
  show "Marshal bencode_env (Some (raw_type, raw_val (Some (benc b)))) = (benc b, None)"
    by (simp add: Marshal_def Encode_def encode_raw bencode_env_def raw_MarshalBencode_def)
qed

theorem RawMessage_roundtrip_witness:
  "unmarshal_var bencode_env (benc (BList [BInt 3]) @ ''!'') raw_type (raw_val None) =
     (None, raw_val (Some (benc (BList [BInt 3]))))"
  by (rule RawMessage_roundtrip [THEN conjunct1]) simp

text \<open>
  Malformed strings: one with a negative length, and one that announces more bytes than there
  are, end the decoder with an error, and the target keeps its value.
\<close>

lemma decodeString_errors:
  assumes "CHR '':'' \<in> set s" and "parse_int 32 (takeWhile (\<lambda>c. c \<noteq> CHR '':'') s) = (None, l)"
    and "l < 0 \<or> length s < length (takeWhile (\<lambda>c. c \<noteq> CHR '':'') s) + 1 + nat l"
  shows "\<exists>e d'. decodeString t v (newDecoder s) = (Some (Err e), v, d')"
proof -
  have "length (takeWhile (\<lambda>c. c \<noteq> CHR '':'') s) < length s"
    using assms(1) by (induction s) auto
  then show ?thesis
    using assms
    by (auto simp: decodeString_def readBytes_def readFull_def took_def newDecoder_def Let_def split: prod.split)
qed

lemma decodeString_errors_witness:
  "\<exists>e d'. decodeString TString (VString ''keep'') (newDecoder ''-3:abc'') = (Some (Err e), VString ''keep'', d')"
proof (rule decodeString_errors)
  have "takeWhile (\<lambda>c. c \<noteq> CHR '':'') ''-3:abc'' = show_int (- 3)" by code_simp
  then show "parse_int 32 (takeWhile (\<lambda>c. c \<noteq> CHR '':'') ''-3:abc'') = (None, - 3)"
    using parse_int_show [of 32 "- 3"] by simp
qed simp_all

end
