(* ===== verification/Go_Io.thy ===== *)
theory Go_Io
  imports Go_Values
begin

text \<open>
  The streams the packages talk over. A writer is an operation \<open>put\<close> on a writer state, since the
  code writes to whatever \<open>io.Writer\<close> it is given; a reader is what will still arrive and the error
  that follows, \<open>io.EOF\<close> when the peer closes in order.
\<close>

section \<open>Writers\<close>

type_synonym 'w put = "'w \<Rightarrow> bytes \<Rightarrow> gerror option \<times> 'w"

definition and_then :: "gerror option \<times> 'w \<Rightarrow> ('w \<Rightarrow> gerror option \<times> 'w) \<Rightarrow> gerror option \<times> 'w" where
  "and_then r f = (case r of (Some e, w) \<Rightarrow> (Some e, w) | (None, w) \<Rightarrow> f w)"

text \<open>
  The contract of \<open>io.Writer\<close>: without an error everything was written, with one a part of it.
\<close>

locale sink =
  fixes put :: "'w put" and sent :: "'w \<Rightarrow> bytes"
  assumes put_all: "put w s = (None, w') \<Longrightarrow> sent w' = sent w @ s"
    and put_part: "put w s = (Some e, w') \<Longrightarrow> \<exists>p q. s = p @ q \<and> sent w' = sent w @ p"
begin

lemma put_prefix: "\<exists>p q. s = p @ q \<and> sent (snd (put w s)) = sent w @ p"
proof (cases "put w s")
  case (Pair r w')
  then show ?thesis using put_all put_part by (cases r) force+
qed

text \<open>
  An operation that writes \<open>s\<close> puts a prefix of it on the wire, all of it when it succeeds. Writing one
  text after the other is such an operation again.
\<close>

definition writes :: "('w \<Rightarrow> gerror option \<times> 'w) \<Rightarrow> bytes \<Rightarrow> bool" where
  "writes f s \<longleftrightarrow>
     (\<forall>w r w'. f w = (r, w') \<longrightarrow>
        (if r = None then sent w' = sent w @ s else \<exists>p q. s = p @ q \<and> sent w' = sent w @ p))"

lemma writesI:
  "(\<And>w w'. f w = (None, w') \<Longrightarrow> sent w' = sent w @ s) \<Longrightarrow>
   (\<And>w e w'. f w = (Some e, w') \<Longrightarrow> \<exists>p q. s = p @ q \<and> sent w' = sent w @ p) \<Longrightarrow> writes f s"
  unfolding writes_def by (metis not_None_eq)

lemma writes_all: "writes f s \<Longrightarrow> f w = (None, w') \<Longrightarrow> sent w' = sent w @ s"
  by (simp add: writes_def)

lemma writes_part: "writes f s \<Longrightarrow> f w = (Some e, w') \<Longrightarrow> \<exists>p q. s = p @ q \<and> sent w' = sent w @ p"
  unfolding writes_def by (metis option.distinct(1))

lemma writes_prefix: "writes f s \<Longrightarrow> \<exists>p q. s = p @ q \<and> sent (snd (f w)) = sent w @ p"
  using writes_all [of f s w] writes_part [of f s w] by (cases "f w"; cases "fst (f w)") force+

lemma writes_put: "writes (\<lambda>w. put w s) s"
  using put_all put_part by (intro writesI)

lemma writes_and_then:
  assumes f: "writes f s" and g: "writes g s'"
  shows "writes (\<lambda>w. and_then (f w) g) (s @ s')"
proof (rule writesI)
  fix w w'' assume "and_then (f w) g = (None, w'')"
  then obtain w' where "f w = (None, w')" "g w' = (None, w'')"
    by (auto simp: and_then_def split: prod.splits option.splits)
  then show "sent w'' = sent w @ s @ s'" using writes_all [OF f] writes_all [OF g] by fastforce
next
  fix w e w'' assume r: "and_then (f w) g = (Some e, w'')"
  show "\<exists>p q. s @ s' = p @ q \<and> sent w'' = sent w @ p"
  proof (cases "fst (f w)")
    case None
    then obtain w' where w': "f w = (None, w')" by (metis prod.collapse)
    with r have "g w' = (Some e, w'')" by (simp add: and_then_def)
    from writes_part [OF g this] writes_all [OF f w'] obtain p q where "s' = p @ q" "sent w'' = sent w @ s @ p"
      by auto
    then show ?thesis by - (rule exI [of _ "s @ p"], rule exI [of _ q], simp)
  next
    case (Some e')
    then have "f w = (Some e', w'')" using r by (cases "f w") (auto simp: and_then_def)
    from writes_part [OF f this] obtain p q where "s = p @ q" "sent w'' = sent w @ p" by blast
    then show ?thesis by - (rule exI [of _ p], rule exI [of _ "q @ s'"], simp)
  qed
qed

end

text \<open>\<open>bytes.Buffer\<close>, whose writes never fail\<close>

definition buffer_put :: "bytes put" where
  "buffer_put w s = (None, w @ s)"

interpretation buffer: sink buffer_put id
  by unfold_locales (auto simp: buffer_put_def)

text \<open>
  \<open>bufio.Writer\<close> with its 4096 bytes of buffer. An error sticks; what is larger than an empty buffer
  goes straight to the writer below.
\<close>

record 'w bufio =
  below :: 'w
  pending :: bytes
  failed :: "gerror option"

definition bufio_new :: "'w \<Rightarrow> 'w bufio" where
  "bufio_new w = \<lparr>below = w, pending = [], failed = None\<rparr>"

definition bufio_through :: "'w put \<Rightarrow> 'w bufio \<Rightarrow> bytes \<Rightarrow> gerror option \<times> 'w bufio" where
  "bufio_through put b s =
     (case put (below b) s of
        (None, w) \<Rightarrow> (None, b\<lparr>below := w, pending := []\<rparr>)
      | (Some e, w) \<Rightarrow> (Some e, b\<lparr>below := w, failed := Some e\<rparr>))"

definition bufio_flush :: "'w put \<Rightarrow> 'w bufio \<Rightarrow> gerror option \<times> 'w bufio" where
  "bufio_flush put b =
     (case failed b of
        Some e \<Rightarrow> (Some e, b)
      | None \<Rightarrow> if pending b = [] then (None, b) else bufio_through put b (pending b))"

definition bufio_write :: "'w put \<Rightarrow> 'w bufio put" where
  "bufio_write put b s =
     (case failed b of
        Some e \<Rightarrow> (Some e, b)
      | None \<Rightarrow>
          (let room = 4096 - length (pending b) in
           if length s \<le> room then (None, b\<lparr>pending := pending b @ s\<rparr>)
           else if pending b = [] then bufio_through put b s
           else and_then (bufio_through put b (pending b @ take room s))
             (\<lambda>b1. if length (drop room s) \<le> 4096 then (None, b1\<lparr>pending := drop room s\<rparr>)
                   else bufio_through put b1 (drop room s))))"

text \<open>Over a writer that does not fail it does not fail either.\<close>

definition reliable :: "'w put \<Rightarrow> bool" where
  "reliable put \<longleftrightarrow> (\<forall>w s. fst (put w s) = None)"

lemma reliable_put: "reliable put \<Longrightarrow> \<exists>w'. put w s = (None, w')"
  unfolding reliable_def by (metis prod.collapse)

lemma bufio_through_reliable: "reliable put \<Longrightarrow> \<exists>w. bufio_through put b s = (None, b\<lparr>below := w, pending := []\<rparr>)"
  using reliable_put [of put "below b" s] by (auto simp: bufio_through_def)

lemma bufio_flush_reliable: "reliable put \<Longrightarrow> failed b = None \<Longrightarrow> \<exists>b'. bufio_flush put b = (None, b') \<and> failed b' = None"
  using bufio_through_reliable [of put b "pending b"] by (auto simp: bufio_flush_def)

lemma bufio_write_reliable:
  assumes "reliable put" and "failed b = None"
  shows "\<exists>b'. bufio_write put b s = (None, b') \<and> failed b' = None"
proof -
  obtain w where "bufio_through put b (pending b @ take (4096 - length (pending b)) s) = (None, b\<lparr>below := w, pending := []\<rparr>)"
    using bufio_through_reliable [OF assms(1)] by blast
  moreover obtain w' where "bufio_through put (b\<lparr>below := w, pending := []\<rparr>) (drop (4096 - length (pending b)) s) =
      (None, b\<lparr>below := w', pending := []\<rparr>)"
    using bufio_through_reliable [OF assms(1), of "b\<lparr>below := w, pending := []\<rparr>"] by fastforce
  moreover obtain w'' where "bufio_through put b s = (None, b\<lparr>below := w'', pending := []\<rparr>)"
    using bufio_through_reliable [OF assms(1)] by blast
  ultimately show ?thesis using assms(2) by (simp add: bufio_write_def Let_def and_then_def)
qed

section \<open>Readers\<close>

record source =
  avail :: bytes
  closing :: gerror

definition read_rest :: "source \<Rightarrow> source" where
  "read_rest r = r\<lparr>avail := []\<rparr>"

definition read_off :: "nat \<Rightarrow> source \<Rightarrow> source" where
  "read_off n r = r\<lparr>avail := drop n (avail r)\<rparr>"

text \<open>
  \<open>io.ReadFull\<close> into a fresh buffer of \<open>n\<close> bytes: the buffer, the error, the reader. What did not
  arrive stays zero; an orderly end in the middle is \<open>io.ErrUnexpectedEOF\<close>.
\<close>

definition read_full :: "nat \<Rightarrow> source \<Rightarrow> bytes \<times> gerror option \<times> source" where
  "read_full n r =
     (if n \<le> length (avail r) then (take n (avail r), None, read_off n r)
      else (avail r @ replicate (n - length (avail r)) (CHR 0x00),
            Some (if closing r = EOF \<and> avail r \<noteq> [] then UnexpectedEOF else closing r),
            read_rest r))"

text \<open>\<open>binary.Read\<close> of a big-endian \<open>uint32\<close>\<close>

definition read_uint32 :: "source \<Rightarrow> (gerror + 32 word) \<times> source" where
  "read_uint32 r =
     (case read_full 4 r of
        (b, Some e, r1) \<Rightarrow> (Inl e, r1)
      | (b, None, r1) \<Rightarrow> (Inr (word_of_nat (get_be b)), r1))"

text \<open>\<open>io.CopyN\<close>: what was copied, the error, the reader; a short orderly stream is \<open>io.EOF\<close>.\<close>

definition copy_n :: "nat \<Rightarrow> source \<Rightarrow> bytes \<times> gerror option \<times> source" where
  "copy_n n r =
     (if n \<le> length (avail r) then (take n (avail r), None, read_off n r)
      else (avail r, Some (closing r), read_rest r))"

lemma read_full_append [wire]:
  "avail r = s @ rest \<Longrightarrow> read_full (length s) r = (s, None, r\<lparr>avail := rest\<rparr>)"
  by (simp add: read_full_def read_off_def)

lemma read_uint32_append [wire]:
  assumes "avail r = put_be 4 n @ rest" and "n < 2 ^ 32"
  shows "read_uint32 r = (Inr (word_of_nat n), r\<lparr>avail := rest\<rparr>)"
  using read_full_append [OF assms(1)] assms(2) by (simp add: read_uint32_def)

lemma copy_n_append [wire]:
  "avail r = s @ rest \<Longrightarrow> copy_n (length s) r = (s, None, r\<lparr>avail := rest\<rparr>)"
  by (simp add: copy_n_def read_off_def)

lemma read_full_size: "read_full n r = (buf, e, r') \<Longrightarrow> length buf = n"
  by (auto simp: read_full_def split: if_splits)

end
