(* ===== verification/Bt_Peerwire.thy ===== *)
theory Bt_Peerwire
  imports Go_Io Strconv
begin

text \<open>
  \<open>bt/peerwire.go\<close>: length-prefixed messages. A message is a 32-bit big-endian length and that many
  bytes; \<open>WriteMessage\<close> makes one of an id and a payload.
\<close>

section \<open>Reading\<close>

definition Protocol :: bytes where
  "Protocol = ''BitTorrent protocol''"

definition ReadMessage :: "source \<Rightarrow> bytes option \<times> gerror option \<times> source" where
  "ReadMessage reader =
     (case read_uint32 reader of
        (Inl e, r1) \<Rightarrow> (None, Some e, r1)
      | (Inr len, r1) \<Rightarrow> (case read_full (unat len) r1 of (buf, e, r2) \<Rightarrow> (Some buf, e, r2)))"

definition too_large :: "32 word \<Rightarrow> gerror" where
  "too_large len = OtherError (''message length is['' @ show_nat (unat len) @ ''] too large'')"

definition ReadMessageWithLimit :: "source \<Rightarrow> 32 word \<Rightarrow> bytes option \<times> gerror option \<times> source" where
  "ReadMessageWithLimit reader limit =
     (case read_uint32 reader of
        (Inl e, r1) \<Rightarrow> (None, Some e, r1)
      | (Inr len, r1) \<Rightarrow>
          (if len > limit then (None, Some (too_large len), r1)
           else (case read_full (unat len) r1 of (buf, e, r2) \<Rightarrow> (Some buf, e, r2))))"

text \<open>\<open>ReadMessageInto\<close> resets the buffer it is given; its content after the call is returned.\<close>

definition ReadMessageInto :: "source \<Rightarrow> bytes \<Rightarrow> bytes \<times> gerror option \<times> source" where
  "ReadMessageInto reader buf =
     (case read_uint32 reader of
        (Inl e, r1) \<Rightarrow> ([], Some e, r1)
      | (Inr len, r1) \<Rightarrow> copy_n (unat len) r1)"

section \<open>Writing\<close>

text \<open>The length is computed as an \<open>uint32\<close>. A failed write of the length is reported as no error.\<close>

definition WriteMessage :: "'w put \<Rightarrow> 'w \<Rightarrow> byte \<Rightarrow> bytes \<Rightarrow> gerror option \<times> 'w" where
  "WriteMessage put w mid payload =
     (case put w (put_be 4 (unat (word_of_nat (length payload + 1) :: 32 word))) of
        (Some e, w1) \<Rightarrow> (None, w1)
      | (None, w1) \<Rightarrow> and_then (put w1 [mid]) (\<lambda>w2. put w2 payload))"

section \<open>The format\<close>

definition message :: "bytes \<Rightarrow> bytes" where
  "message body = put_be 4 (length body) @ body"

definition body_ok :: "bytes \<Rightarrow> bool" where
  "body_ok body \<longleftrightarrow> length body < 2 ^ 32"

lemma unat_len [simp]: "n < 2 ^ 32 \<Longrightarrow> unat (word_of_nat n :: 32 word) = n"
  by (simp add: unat_of_nat)

lemma ReadMessage_message:
  assumes "body_ok body" and "avail r = message body @ rest"
  shows "ReadMessage r = (Some body, None, r\<lparr>avail := rest\<rparr>)"
proof -
  have "read_uint32 r = (Inr (word_of_nat (length body)), r\<lparr>avail := body @ rest\<rparr>)"
    using assms by (intro read_uint32_append) (simp_all add: message_def body_ok_def)
  then show ?thesis
    using assms(1) read_full_append [of "r\<lparr>avail := body @ rest\<rparr>" body rest]
    by (simp add: ReadMessage_def body_ok_def)
qed

text \<open>Reading one message from the front of a byte string.\<close>

definition read_frame :: "bytes \<Rightarrow> (bytes \<times> bytes) option" where
  "read_frame bs =
     (case ReadMessage \<lparr>avail = bs, closing = EOF\<rparr> of
        (Some body, None, r) \<Rightarrow> Some (body, avail r)
      | _ \<Rightarrow> None)"

interpretation messages: framing message read_frame body_ok
  by unfold_locales (simp add: read_frame_def ReadMessage_message)

text \<open>A limit only adds an error: below it the two readers agree.\<close>

lemma ReadMessageWithLimit_message:
  assumes "body_ok body" and "avail r = message body @ rest"
  shows "ReadMessageWithLimit r limit =
    (if length body \<le> unat limit then (Some body, None, r\<lparr>avail := rest\<rparr>)
     else (None, Some (too_large (word_of_nat (length body))), r\<lparr>avail := body @ rest\<rparr>))"
proof -
  have "read_uint32 r = (Inr (word_of_nat (length body)), r\<lparr>avail := body @ rest\<rparr>)"
    using assms by (intro read_uint32_append) (simp_all add: message_def body_ok_def)
  moreover have "limit < word_of_nat (length body) \<longleftrightarrow> \<not> length body \<le> unat limit"
    using assms(1) by (simp add: word_less_nat_alt body_ok_def not_le)
  ultimately show ?thesis
    using assms(1) read_full_append [of "r\<lparr>avail := body @ rest\<rparr>" body rest]
    by (simp add: ReadMessageWithLimit_def body_ok_def)
qed

lemma ReadMessageInto_message:
  assumes "body_ok body" and "avail r = message body @ rest"
  shows "ReadMessageInto r buf = (body, None, r\<lparr>avail := rest\<rparr>)"
proof -
  have "read_uint32 r = (Inr (word_of_nat (length body)), r\<lparr>avail := body @ rest\<rparr>)"
    using assms by (intro read_uint32_append) (simp_all add: message_def body_ok_def)
  then show ?thesis
    using assms(1) copy_n_append [of "r\<lparr>avail := body @ rest\<rparr>" body rest]
    by (simp add: ReadMessageInto_def body_ok_def)
qed

text \<open>Memory: a message read under a limit is never longer than the limit.\<close>

lemma ReadMessageWithLimit_bound:
  "ReadMessageWithLimit r limit = (Some buf, e, r') \<Longrightarrow> length buf \<le> unat limit"
  by (auto simp: ReadMessageWithLimit_def word_le_nat_alt not_less dest!: read_full_size
      split: prod.splits sum.splits if_splits)

text \<open>A message that was read took at least its length off the stream.\<close>

lemma ReadMessageWithLimit_shorter:
  "ReadMessageWithLimit r limit = (m, None, r') \<Longrightarrow> length (avail r') < length (avail r)"
  by (auto simp: ReadMessageWithLimit_def read_uint32_def read_full_def read_off_def
      split: prod.splits sum.splits if_splits)

lemma ReadMessage_shorter:
  "ReadMessage r = (m, None, r') \<Longrightarrow> length (avail r') < length (avail r)"
  by (auto simp: ReadMessage_def read_uint32_def read_full_def read_off_def
      split: prod.splits sum.splits if_splits)

context sink
begin

text \<open>
  A body behind its length, where a failed write of the length goes unreported: the wire has a prefix
  of the message in any case, and all of it if nothing failed.
\<close>

lemma length_first_prefix:
  assumes "writes f body"
    and "snd r = (case put w len of (Some e, w1) \<Rightarrow> w1 | (None, w1) \<Rightarrow> snd (f w1))"
  shows "\<exists>p q. len @ body = p @ q \<and> sent (snd r) = sent w @ p"
proof (cases "fst (put w len)")
  case None
  then obtain w1 where w1: "put w len = (None, w1)" by (metis prod.collapse)
  obtain p q where "body = p @ q" "sent (snd (f w1)) = sent w1 @ p" using writes_prefix [OF assms(1)] by blast
  then show ?thesis
    using w1 assms(2) put_all [OF w1] by - (rule exI [of _ "len @ p"], rule exI [of _ q], simp)
next
  case (Some e)
  then obtain w1 where w1: "put w len = (Some e, w1)" by (metis prod.collapse)
  obtain p q where "len = p @ q" "sent w1 = sent w @ p" using put_part [OF w1] by blast
  then show ?thesis
    using w1 assms(2) by - (rule exI [of _ p], rule exI [of _ "q @ body"], simp)
qed

lemma length_first_all:
  assumes "writes f body" and "put w len = (None, w1)" and "f w1 = (None, w')"
  shows "sent w' = sent w @ len @ body"
  using put_all [OF assms(2)] writes_all [OF assms(1,3)] by simp

lemma WriteMessage_prefix:
  assumes "body_ok (mid # payload)"
  shows "\<exists>p q. message (mid # payload) = p @ q \<and> sent (snd (WriteMessage put w mid payload)) = sent w @ p"
proof -
  have "writes (\<lambda>w1. and_then (put w1 [mid]) (\<lambda>w2. put w2 payload)) ([mid] @ payload)"
    by (intro writes_and_then writes_put)
  from length_first_prefix [OF this, of "WriteMessage put w mid payload" w "put_be 4 (Suc (length payload))"]
  show ?thesis
    using assms
    by (cases "put w (put_be 4 (Suc (length payload)))"; cases "fst (put w (put_be 4 (Suc (length payload))))")
      (simp_all add: WriteMessage_def message_def body_ok_def del: of_nat_Suc of_nat_add)
qed

lemma WriteMessage_sent:
  assumes "body_ok (mid # payload)" and "fst (put w (put_be 4 (Suc (length payload)))) = None"
    and "WriteMessage put w mid payload = (None, w')"
  shows "sent w' = sent w @ message (mid # payload)"
proof -
  obtain w1 where w1: "put w (put_be 4 (Suc (length payload))) = (None, w1)"
    using assms(2) by (metis prod.collapse)
  have "writes (\<lambda>w1. and_then (put w1 [mid]) (\<lambda>w2. put w2 payload)) ([mid] @ payload)"
    by (intro writes_and_then writes_put)
  moreover have "and_then (put w1 [mid]) (\<lambda>w2. put w2 payload) = (None, w')"
    using assms(1,3) w1 by (simp add: WriteMessage_def body_ok_def del: of_nat_Suc of_nat_add)
  ultimately show ?thesis using length_first_all [OF _ w1] by (fastforce simp: message_def)
qed

end

end
