(* ===== verification/Bt_Extension.thy ===== *)
theory Bt_Extension
  imports Bt_Peerwire Bencode_Raw
begin

text \<open>
  \<open>bt/extension.go\<close>: the extension protocol. Extensions are objects behind an interface; the center
  (\<open>ExtProtocol\<close>) and its clients share them, so they live in a store and the center keeps pointers,
  nil after the peer turned out not to support an extension.
\<close>

unbundle bit_operations_syntax

section \<open>The reserved bits\<close>

definition ExtID :: byte where
  "ExtID = CHR 0x14"

definition ExtReserved :: "64 word" where
  "ExtReserved = 0x100000"

definition SetExtReserved :: "64 word \<Rightarrow> 64 word" where
  "SetExtReserved reserved = reserved OR ExtReserved"

definition CheckExtReserved :: "64 word \<Rightarrow> bool" where
  "CheckExtReserved reserved \<longleftrightarrow> reserved AND ExtReserved \<noteq> 0"

text \<open>The constant is one bit: it is seen if and only if it was set, and the other bits stay.\<close>

lemma ExtReserved_bit: "bit ExtReserved i \<longleftrightarrow> i = 20"
proof -
  have "ExtReserved = push_bit 20 1" by (simp add: ExtReserved_def push_bit_eq_mult)
  then have "bit ExtReserved i = bit (push_bit 20 (1 :: 64 word)) i" by simp
  then show ?thesis by (auto simp: bit_push_bit_iff bit_1_iff simp del: push_bit_of_1)
qed

lemma CheckExtReserved_bit: "CheckExtReserved r \<longleftrightarrow> bit r 20"
proof
  assume "CheckExtReserved r"
  then obtain i where "bit (r AND ExtReserved) i"
    unfolding CheckExtReserved_def by (auto simp: bit_eq_iff)
  then show "bit r 20" by (auto simp: bit_and_iff ExtReserved_bit)
next
  assume "bit r 20"
  then have "bit (r AND ExtReserved) 20" by (simp add: bit_and_iff ExtReserved_bit)
  then show "CheckExtReserved r" by (auto simp: CheckExtReserved_def)
qed

lemma SetExtReserved_bit: "bit (SetExtReserved r) i \<longleftrightarrow> bit r i \<or> i = 20"
  by (auto simp: SetExtReserved_def bit_or_iff ExtReserved_bit)

section \<open>Sending\<close>

text \<open>As in \<open>WriteMessage\<close>, a failed write of the length is reported as no error.\<close>

definition WriteExtensionMessage :: "'w put \<Rightarrow> bool \<Rightarrow> 'w \<Rightarrow> 8 word \<Rightarrow> bytes \<Rightarrow> gerror option \<times> 'w" where
  "WriteExtensionMessage put byte_writer w ident content =
     (case put w (put_be 4 (unat (word_of_nat (length content + 2) :: 32 word))) of
        (Some e, w1) \<Rightarrow> (None, w1)
      | (None, w1) \<Rightarrow>
          and_then
            (if byte_writer then and_then (put w1 [ExtID]) (\<lambda>w2. put w2 [byte_of ident])
             else put w1 [ExtID, byte_of ident])
            (\<lambda>w3. put w3 content))"

text \<open>What the code sees of a writer: its \<open>Write\<close> and whether it is an \<open>io.ByteWriter\<close>.\<close>

record 'w writer =
  put_bytes :: "'w put"
  byte_writer :: bool

record 'w ExtMsgSender =
  sender_id :: "8 word"
  sender_w :: 'w

definition SendBytes :: "'w writer \<Rightarrow> 'w ExtMsgSender \<Rightarrow> bytes \<Rightarrow> gerror option \<times> 'w" where
  "SendBytes wr sender content =
     WriteExtensionMessage (put_bytes wr) (byte_writer wr) (sender_w sender) (sender_id sender) content"

section \<open>The entries of a handshake\<close>

text \<open>\<open>ExtHSPutter\<close> writes into a \<open>map[string]interface{}\<close>, \<open>ExtHSGetter\<close> reads a \<open>map[string]RawMessage\<close>.\<close>

type_synonym hs_out = "(bytes, goval) gomap"
type_synonym hs_in = "(bytes, bytes) gomap"

definition Put :: "hs_out \<Rightarrow> bytes \<Rightarrow> gotype \<times> goval \<Rightarrow> hs_out" where
  "Put hs k x = AList.update k (VIface (Some x)) hs"

text \<open>\<open>Get\<close>: whether the entry was there and decoded, and the variable after the call.\<close>

definition Get :: "env \<Rightarrow> hs_in \<Rightarrow> bytes \<Rightarrow> gotype \<Rightarrow> goval \<Rightarrow> (abort + bool) \<times> goval" where
  "Get E hs k t v =
     (case map_of hs k of
        None \<Rightarrow> (Inr False, v)
      | Some b \<Rightarrow>
          (case unmarshal_var E b t v of
             (None, x) \<Rightarrow> (Inr True, x)
           | (Some (Err e), x) \<Rightarrow> (Inr False, x)
           | (Some a, x) \<Rightarrow> (Inl a, x)))"

lemma Get_safe:
  assumes "env_safe E" and "wf_type t" and "has_type t v"
  shows "fst (Get E hs k t v) \<noteq> Inl (Panic msg)"
  using decodeInto_safe [OF assms] by (auto simp: Get_def unmarshal_var_def safe_result_def split_beta split: option.split abort.split)

lemma Get_ends: "env_total E \<Longrightarrow> fst (Get E hs k t v) \<noteq> Inl OutOfFuel"
  using decodeInto_total [of E t v]
  by (auto simp: Get_def unmarshal_var_def split_beta split: option.split abort.split)

section \<open>Extensions and their center\<close>

text \<open>
  The interface \<open>Extension\<close> as a table of methods over the states \<open>'x\<close> of an extension. A method
  that sends returns the writer, too.
\<close>

record ('x, 'w) Extension =
  MapKey :: "'x \<Rightarrow> bytes"
  BeforeHandshake :: "'x \<Rightarrow> hs_out \<Rightarrow> 'x \<times> hs_out"
  AfterHandshake :: "'x \<Rightarrow> hs_in \<Rightarrow> 'w ExtMsgSender \<Rightarrow> abort option \<times> 'x \<times> 'w"
  Unsupport :: "'x \<Rightarrow> 'x"
  HandleMessage :: "'x \<Rightarrow> bytes \<Rightarrow> 'w ExtMsgSender \<Rightarrow> abort option \<times> 'x \<times> 'w"

type_synonym 'x store = "nat \<Rightarrow> 'x"

record ExtProtocol =
  exts :: "nat option list"
  ids :: "(bytes, 8 word) gomap"    \<comment> \<open>the field \<open>m\<close>\<close>

definition NewExtProtocol :: "nat option list \<Rightarrow> ExtProtocol" where
  "NewExtProtocol es = \<lparr>exts = es, ids = []\<rparr>"

definition RegistExt :: "ExtProtocol \<Rightarrow> nat \<Rightarrow> ExtProtocol" where
  "RegistExt proto p = proto\<lparr>exts := exts proto @ [Some p]\<rparr>"

text \<open>A \<open>map[string]byte\<close> as a Go value\<close>

definition ids_type :: gotype where
  "ids_type = TMap TString (TUint 8)"

definition ids_val :: "(bytes, 8 word) gomap \<Rightarrow> goval" where
  "ids_val kvs = VMap (Some (map (\<lambda>(k, n). (k, VUint (uint n))) kvs))"

definition ids_of :: "goval \<Rightarrow> (bytes, 8 word) gomap" where
  "ids_of v =
     (case v of
        VMap (Some kvs) \<Rightarrow> map (\<lambda>(k, x). (k, case x of VUint n \<Rightarrow> word_of_int n | _ \<Rightarrow> 0)) kvs
      | _ \<Rightarrow> [])"

definition hs_type :: gotype where
  "hs_type = TMap TString raw_type"

definition hs_of :: "goval \<Rightarrow> hs_in" where
  "hs_of v =
     (case v of
        VMap (Some kvs) \<Rightarrow> map (\<lambda>(k, x). (k, case raw_of x of Some b \<Rightarrow> b | None \<Rightarrow> [])) kvs
      | _ \<Rightarrow> [])"

text \<open>
  The loop of \<open>WriteHandshake\<close> over the extensions, from index \<open>i\<close>: the entries of the handshake and
  the numbers offered for the extensions. A nil extension panics.
\<close>

definition nil_deref :: abort where
  "nil_deref = Panic ''invalid memory address or nil pointer dereference''"

definition out_of_range :: abort where
  "out_of_range = Panic ''index out of range''"

fun offer_exts :: "('x, 'w) Extension \<Rightarrow> nat \<Rightarrow> nat option list \<Rightarrow> 'x store \<Rightarrow> hs_out \<Rightarrow> (bytes, goval) gomap \<Rightarrow>
    abort option \<times> 'x store \<times> hs_out \<times> (bytes, goval) gomap" where
  "offer_exts X i [] st hs m = (None, st, hs, m)"
| "offer_exts X i (None # ps) st hs m = (Some nil_deref, st, hs, m)"
| "offer_exts X i (Some p # ps) st hs m =
     (case BeforeHandshake X (st p) hs of
        (x, hs') \<Rightarrow>
          offer_exts X (Suc i) ps (st(p := x)) hs' (AList.update (MapKey X x) (VInt (int (i + 1))) m))"

definition WriteHandshake :: "env \<Rightarrow> ('x, 'w) Extension \<Rightarrow> 'w writer \<Rightarrow> ExtProtocol \<Rightarrow> 'x store \<Rightarrow> 'w \<Rightarrow>
    abort option \<times> 'x store \<times> 'w" where
  "WriteHandshake E X wr proto st w =
     (case offer_exts X 0 (exts proto) st [] [] of
        (Some e, st1, hs, m) \<Rightarrow> (Some e, st1, w)
      | (None, st1, hs, m) \<Rightarrow>
          (let hs1 = Put hs ''m'' (TMap TString (TInt 64), VMap (Some m)) in
           (case Marshal E (Some (TMap TString TIface, VMap (Some hs1))) of
              (b, Some e) \<Rightarrow> (Some e, st1, w)
            | (b, None) \<Rightarrow>
                (case SendBytes wr \<lparr>sender_id = 0, sender_w = w\<rparr> b of
                   (r, w1) \<Rightarrow> (map_option Err r, st1, w1)))))"

text \<open>
  The loop of \<open>HandlePayload\<close> over the extensions after a handshake: what the peer has not named is
  told so and struck from the list, the others may answer.
\<close>

fun settle_exts :: "('x, 'w) Extension \<Rightarrow> (bytes, 8 word) gomap \<Rightarrow> hs_in \<Rightarrow> nat option list \<Rightarrow> 'x store \<Rightarrow> 'w \<Rightarrow>
    abort option \<times> nat option list \<times> 'x store \<times> 'w" where
  "settle_exts X m hs [] st w = (None, [], st, w)"
| "settle_exts X m hs (None # ps) st w = (Some nil_deref, None # ps, st, w)"
| "settle_exts X m hs (Some p # ps) st w =
     (case map_of m (MapKey X (st p)) of
        Some ident \<Rightarrow>
          (if ident = 0
           then (case settle_exts X m hs ps (st(p := Unsupport X (st p))) w of
                   (r, ps', st', w') \<Rightarrow> (r, None # ps', st', w'))
           else (case AfterHandshake X (st p) hs \<lparr>sender_id = ident, sender_w = w\<rparr> of
                   (Some e, x, w1) \<Rightarrow> (Some e, Some p # ps, st(p := x), w1)
                 | (None, x, w1) \<Rightarrow>
                     (case settle_exts X m hs ps (st(p := x)) w1 of
                        (r, ps', st', w') \<Rightarrow> (r, Some p # ps', st', w'))))
      | None \<Rightarrow>
          (case settle_exts X m hs ps (st(p := Unsupport X (st p))) w of
             (r, ps', st', w') \<Rightarrow> (r, None # ps', st', w')))"

text \<open>The two branches of \<open>HandlePayload\<close>: the peer's handshake, and a message for an extension.\<close>

definition peer_handshake :: "env \<Rightarrow> ('x, 'w) Extension \<Rightarrow> ExtProtocol \<Rightarrow> 'x store \<Rightarrow> bytes \<Rightarrow> 'w \<Rightarrow>
    abort option \<times> ExtProtocol \<times> 'x store \<times> 'w" where
  "peer_handshake E X proto st content w =
     (case unmarshal_var E content hs_type (VMap None) of
        (Some e, v) \<Rightarrow> (Some e, proto, st, w)
      | (None, v) \<Rightarrow>
          (case map_of (hs_of v) ''m'' of
             None \<Rightarrow> (Some (Err (OtherError ''invalid handshake'')), proto, st, w)
           | Some rawm \<Rightarrow>
               (case unmarshal_var E rawm ids_type (ids_val (ids proto)) of
                  (Some e, mv) \<Rightarrow> (Some e, proto\<lparr>ids := ids_of mv\<rparr>, st, w)
                | (None, mv) \<Rightarrow>
                    (case settle_exts X (ids_of mv) (hs_of v) (exts proto) st w of
                       (r, es, st', w') \<Rightarrow> (r, \<lparr>exts = es, ids = ids_of mv\<rparr>, st', w')))))"

definition unknown_ext :: abort where
  "unknown_ext = Err (OtherError ''unknown this extension id'')"

definition peer_message :: "('x, 'w) Extension \<Rightarrow> ExtProtocol \<Rightarrow> 'x store \<Rightarrow> byte \<Rightarrow> bytes \<Rightarrow> 'w \<Rightarrow>
    abort option \<times> ExtProtocol \<times> 'x store \<times> 'w" where
  "peer_message X proto st b0 content w =
     (if ids proto = [] then (Some (Err (OtherError ''have not handshake'')), proto, st, w)
      else
        (let i = unat (u8 b0 - 1) in
         if i \<ge> length (exts proto) then (Some unknown_ext, proto, st, w)
         else (case exts proto ! i of
            None \<Rightarrow> (Some unknown_ext, proto, st, w)
          | Some p \<Rightarrow>
              (case HandleMessage X (st p) content
                     \<lparr>sender_id = (case map_of (ids proto) (MapKey X (st p)) of Some n \<Rightarrow> n | None \<Rightarrow> 0),
                      sender_w = w\<rparr> of
                 (r, x, w1) \<Rightarrow> (r, proto, st(p := x), w1)))))"

definition HandlePayload :: "env \<Rightarrow> ('x, 'w) Extension \<Rightarrow> ExtProtocol \<Rightarrow> 'x store \<Rightarrow> bytes \<Rightarrow> 'w \<Rightarrow>
    abort option \<times> ExtProtocol \<times> 'x store \<times> 'w" where
  "HandlePayload E X proto st payload w =
     (case payload of
        [] \<Rightarrow> (Some out_of_range, proto, st, w)
      | b0 # content \<Rightarrow>
          (if b0 = CHR 0x00 then peer_handshake E X proto st content w
           else peer_message X proto st b0 content w))"

section \<open>What is sent\<close>

context sink
begin

lemma writes_extension_body:
  "writes (\<lambda>w1. and_then
       (if bw then and_then (put w1 [ExtID]) (\<lambda>w2. put w2 [byte_of ident])
        else put w1 [ExtID, byte_of ident])
       (\<lambda>w3. put w3 content)) (ExtID # byte_of ident # content)"
proof -
  have two: "writes (\<lambda>w. and_then (put w [ExtID]) (\<lambda>w2. put w2 [byte_of ident])) ([ExtID] @ [byte_of ident])"
    by (intro writes_and_then writes_put)
  show ?thesis
    using writes_and_then [OF two writes_put, of content] writes_and_then [OF writes_put writes_put, of "[ExtID, byte_of ident]" content]
    by (cases bw) simp_all
qed

lemma WriteExtensionMessage_prefix:
  assumes "body_ok (ExtID # byte_of ident # content)"
  shows "\<exists>p q. message (ExtID # byte_of ident # content) = p @ q \<and>
    sent (snd (WriteExtensionMessage put bw w ident content)) = sent w @ p"
  using length_first_prefix [OF writes_extension_body [of bw ident content], of "WriteExtensionMessage put bw w ident content" w
      "put_be 4 (Suc (Suc (length content)))"] assms
  by (cases "put w (put_be 4 (Suc (Suc (length content))))";
      cases "fst (put w (put_be 4 (Suc (Suc (length content)))))")
    (simp_all add: WriteExtensionMessage_def message_def body_ok_def del: of_nat_Suc of_nat_add)

lemma WriteExtensionMessage_sent:
  assumes "body_ok (ExtID # byte_of ident # content)"
    and "fst (put w (put_be 4 (Suc (Suc (length content))))) = None"
    and "WriteExtensionMessage put bw w ident content = (None, w')"
  shows "sent w' = sent w @ message (ExtID # byte_of ident # content)"
proof -
  obtain w1 where w1: "put w (put_be 4 (Suc (Suc (length content)))) = (None, w1)"
    using assms(2) by (metis prod.collapse)
  show ?thesis
    using length_first_all [OF writes_extension_body [of bw ident content] w1, of w'] assms(1,3) w1
    by (simp add: WriteExtensionMessage_def message_def body_ok_def del: of_nat_Suc of_nat_add)
qed

end

section \<open>Sessions\<close>

text \<open>
  What happens on a connection: the payloads that arrive, one after the other, none of which ended it.
\<close>

inductive received :: "env \<Rightarrow> ('x, 'w) Extension \<Rightarrow> ExtProtocol \<times> 'x store \<times> 'w \<Rightarrow> bytes list \<Rightarrow>
    ExtProtocol \<times> 'x store \<times> 'w \<Rightarrow> bool" for E X c where
  start: "received E X c [] c"
| payload: "received E X c bs (proto, st, w) \<Longrightarrow> HandlePayload E X proto st b w = (None, proto', st', w') \<Longrightarrow>
    received E X c (bs @ [b]) (proto', st', w')"

inductive_cases received_snocE: "received E X c (bs @ [b]) c'"

text \<open>How a payload can go through.\<close>

lemma HandlePayload_cases:
  assumes "HandlePayload E X proto st payload w = (None, proto', st', w')"
  obtains (hello) content v rawm mv where "payload = CHR 0x00 # content"
      "unmarshal_var E content hs_type (VMap None) = (None, v)" "map_of (hs_of v) ''m'' = Some rawm"
      "unmarshal_var E rawm ids_type (ids_val (ids proto)) = (None, mv)" "ids proto' = ids_of mv"
      "settle_exts X (ids_of mv) (hs_of v) (exts proto) st w = (None, exts proto', st', w')"
  | (message) b0 content p x where "payload = b0 # content" "b0 \<noteq> CHR 0x00" "ids proto \<noteq> []"
      "unat (u8 b0 - 1) < length (exts proto)" "exts proto ! unat (u8 b0 - 1) = Some p" "proto' = proto"
      "HandleMessage X (st p) content
         \<lparr>sender_id = (case map_of (ids proto) (MapKey X (st p)) of Some n \<Rightarrow> n | None \<Rightarrow> 0), sender_w = w\<rparr> =
       (None, x, w')" "st' = st(p := x)"
proof -
  obtain b0 content where pl: "payload = b0 # content"
    using assms by (cases payload) (auto simp: HandlePayload_def)
  show ?thesis
  proof (cases "b0 = CHR 0x00")
    case True
    then show ?thesis
      using assms pl hello by (fastforce simp: HandlePayload_def peer_handshake_def split: prod.splits option.splits)
  next
    case False
    obtain p where p: "exts proto ! unat (u8 b0 - 1) = Some p" "ids proto \<noteq> []" "unat (u8 b0 - 1) < length (exts proto)"
      using assms pl False by (auto simp: HandlePayload_def peer_message_def Let_def split: option.splits if_splits)
    obtain r x w1 where "HandleMessage X (st p) content
        \<lparr>sender_id = (case map_of (ids proto) (MapKey X (st p)) of Some n \<Rightarrow> n | None \<Rightarrow> 0), sender_w = w\<rparr> = (r, x, w1)"
      using prod_cases3 by blast
    then show ?thesis
      using message [OF pl False p(2,3,1), of x] assms pl False p by (simp add: HandlePayload_def peer_message_def)
  qed
qed

section \<open>The loop after a handshake\<close>

text \<open>The cases of one round of the loop after a handshake.\<close>

lemma settle_cases:
  assumes "settle_exts X m hs (q # ps) st w = (r, ps', st', w')"
  obtains (panic) "q = None" "r = Some nil_deref" "ps' = q # ps" "st' = st"
  | (gone) p ps1 where "q = Some p" "map_of m (MapKey X (st p)) \<in> {None, Some 0}" "ps' = None # ps1"
      "settle_exts X m hs ps (st(p := Unsupport X (st p))) w = (r, ps1, st', w')"
  | (failed) p n x e where "q = Some p" "map_of m (MapKey X (st p)) = Some n" "n \<noteq> 0" "r = Some e"
      "AfterHandshake X (st p) hs \<lparr>sender_id = n, sender_w = w\<rparr> = (Some e, x, w')"
      "ps' = q # ps" "st' = st(p := x)"
  | (kept) p n x w1 ps1 where "q = Some p" "map_of m (MapKey X (st p)) = Some n" "n \<noteq> 0"
      "AfterHandshake X (st p) hs \<lparr>sender_id = n, sender_w = w\<rparr> = (None, x, w1)" "ps' = Some p # ps1"
      "settle_exts X m hs ps (st(p := x)) w1 = (r, ps1, st', w')"
proof (cases q)
  case None
  then show ?thesis using assms panic by simp
next
  case (Some p)
  show ?thesis
  proof (cases "map_of m (MapKey X (st p)) \<in> {None, Some 0}")
    case True
    then show ?thesis using assms Some gone [of p] by (auto split: prod.splits)
  next
    case False
    then obtain n where "map_of m (MapKey X (st p)) = Some n" "n \<noteq> 0" by (cases "map_of m (MapKey X (st p))") auto
    then show ?thesis
      using assms Some failed [of p n] kept [of p n] by (auto split: prod.splits option.splits)
  qed
qed

lemma settle_frame:
  "settle_exts X m hs ps st w = (r, ps', st', w') \<Longrightarrow> Some p \<notin> set ps \<Longrightarrow> st' p = st p"
proof (induction ps arbitrary: st w r ps' st' w')
  case (Cons q ps)
  from Cons.prems(1) show ?case
  proof (cases rule: settle_cases)
    case (gone p0 ps1)
    then show ?thesis using Cons.IH [OF gone(4)] Cons.prems(2) by simp
  next
    case (kept p0 n x w1 ps1)
    then show ?thesis using Cons.IH [OF kept(6)] Cons.prems(2) by simp
  qed (use Cons.prems(2) in auto)
qed simp

lemma settle_subset: "settle_exts X m hs ps st w = (r, ps', st', w') \<Longrightarrow> set ps' \<subseteq> insert None (set ps)"
proof (induction ps arbitrary: st w r ps' st' w')
  case (Cons q ps)
  from Cons.prems show ?case
    by (cases rule: settle_cases; use Cons.IH in fastforce)
qed simp

lemma settle_length: "settle_exts X m hs ps st w = (r, ps', st', w') \<Longrightarrow> length ps' = length ps"
proof (induction ps arbitrary: st w r ps' st' w')
  case (Cons q ps)
  from Cons.prems show ?case
    by (cases rule: settle_cases; use Cons.IH in fastforce)
qed simp

lemma settle_no_nil: "settle_exts X m hs ps st w = (None, ps', st', w') \<Longrightarrow> None \<notin> set ps"
proof (induction ps arbitrary: st w ps' st' w')
  case (Cons q ps)
  from Cons.prems show ?case by (cases rule: settle_cases) (auto dest: Cons.IH)
qed simp

lemma settle_distinct:
  "settle_exts X m hs ps st w = (None, ps', st', w') \<Longrightarrow> distinct ps \<Longrightarrow> distinct (filter (\<lambda>q. q \<noteq> None) ps')"
proof (induction ps arbitrary: st w ps' st' w')
  case (Cons q ps)
  from Cons.prems(1) show ?case
  proof (cases rule: settle_cases)
    case (gone p ps1)
    then show ?thesis using Cons.IH Cons.prems(2) by simp
  next
    case (kept p n x w1 ps1)
    then have "Some p \<notin> set ps1" using settle_subset [OF kept(6)] Cons.prems(2) by auto
    then show ?thesis using Cons.IH [OF kept(6)] Cons.prems(2) kept(5) by simp
  qed simp_all
qed simp

section \<open>The contract of an extension\<close>

text \<open>Something about an extension that none of its methods changes.\<close>

locale keeps =
  fixes X :: "('x, 'w) Extension" and K :: "'x \<Rightarrow> 'k"
  assumes keep_offer: "BeforeHandshake X x hs = (x1, hs1) \<Longrightarrow> K x1 = K x"
    and keep_handshake: "AfterHandshake X x hin s = (r, x1, w1) \<Longrightarrow> K x1 = K x"
    and keep_unsupport: "K (Unsupport X x) = K x"
    and keep_message: "HandleMessage X x c s = (r, x1, w1) \<Longrightarrow> K x1 = K x"
begin

lemma offer_keeps: "offer_exts X i ps st hs m = (r, st', hs', m') \<Longrightarrow> K (st' p) = K (st p)"
proof (induction ps arbitrary: i st hs m)
  case (Cons q ps)
  then show ?case by (cases q) (fastforce split: prod.splits dest: keep_offer)+
qed simp

lemma settle_keeps:
  "settle_exts X m hs ps st w = (r, ps', st', w') \<Longrightarrow> K (st' p) = K (st p)"
proof (induction ps arbitrary: st w r ps' st' w')
  case (Cons q ps)
  from Cons.prems show ?case
  proof (cases rule: settle_cases)
    case (gone p0 ps1)
    then show ?thesis using Cons.IH [OF gone(4)] keep_unsupport by simp
  next
    case (kept p0 n x w1 ps1)
    then show ?thesis using Cons.IH [OF kept(6)] keep_handshake [OF kept(4)] by simp
  qed (auto dest: keep_handshake)
qed simp

lemma payload_keeps:
  assumes "HandlePayload E X proto st b w = (None, proto', st', w')"
  shows "K (st' p) = K (st p)"
  using assms by (cases rule: HandlePayload_cases) (auto dest: settle_keeps keep_message)

lemma WriteHandshake_keeps:
  "WriteHandshake E X wr proto st w = (r, st', w') \<Longrightarrow> K (st' p) = K (st p)"
  by (auto simp: WriteHandshake_def Let_def dest: offer_keeps split: prod.splits option.splits)

lemma received_keeps:
  "received E X (proto, st, w) bs c \<Longrightarrow> K (fst (snd c) p) = K (st p)"
proof (induction rule: received.induct)
  case (payload bs proto1 st1 w1 b proto' st' w')
  then show ?case using payload_keeps [OF payload.hyps(2)] by simp
qed simp

end

text \<open>
  What the center relies on: an extension keeps its name, and it knows whether the peer supports it:
  from the handshake on, until told otherwise.
\<close>

locale extension = keeps X "MapKey X" for X :: "('x, 'w) Extension" +
  fixes supported :: "'x \<Rightarrow> bool"
  assumes support_handshake: "AfterHandshake X x hin s = (r, x1, w1) \<Longrightarrow> supported x1"
    and support_unsupport: "\<not> supported (Unsupport X x)"
    and support_message: "HandleMessage X x c s = (r, x1, w1) \<Longrightarrow> supported x1 = supported x"
begin

text \<open>
  After a handshake that went through, an extension is supported if and only if it is still in the
  list, and that is when the peer has given it a number.
\<close>

lemma settle_supported:
  assumes "settle_exts X m hs ps st w = (None, ps', st', w')" and "distinct ps" and "Some p \<in> set ps"
  shows "(Some p \<in> set ps' \<longleftrightarrow> supported (st' p)) \<and>
    (supported (st' p) \<longleftrightarrow> (\<exists>n. n \<noteq> 0 \<and> map_of m (MapKey X (st p)) = Some n))"
  using assms
proof (induction ps arbitrary: st w ps' st' w')
  case (Cons q ps)
  from Cons.prems(1) show ?case
  proof (cases rule: settle_cases)
    case (gone p0 ps1)
    show ?thesis
    proof (cases "p = p0")
      case True
      then have "st' p = Unsupport X (st p)" using settle_frame [OF gone(4), of p] Cons.prems(2) gone(1) by simp
      then show ?thesis using gone(1-3) True support_unsupport
        settle_subset [OF gone(4)] Cons.prems(2) by auto
    next
      case False
      then show ?thesis using Cons.IH [OF gone(4)] Cons.prems gone(1,3) by simp
    qed
  next
    case (kept p0 n x w1 ps1)
    show ?thesis
    proof (cases "p = p0")
      case True
      then have "st' p = x" using settle_frame [OF kept(6), of p] Cons.prems(2) kept(1) by simp
      then show ?thesis using kept True support_handshake by auto
    next
      case False
      then show ?thesis using Cons.IH [OF kept(6)] Cons.prems kept(1,5) by simp
    qed
  qed simp_all
qed simp

text \<open>
  The invariant of a connection: once the peer has named its numbers, every extension in the list is
  supported and has one, which is never 0.
\<close>

definition settled :: "ExtProtocol \<Rightarrow> 'x store \<Rightarrow> bool" where
  "settled proto st \<longleftrightarrow> distinct (filter (\<lambda>q. q \<noteq> None) (exts proto)) \<and>
     (ids proto \<noteq> [] \<longrightarrow> (\<forall>p. Some p \<in> set (exts proto) \<longrightarrow>
        supported (st p) \<and> (\<exists>n. n \<noteq> 0 \<and> map_of (ids proto) (MapKey X (st p)) = Some n)))"

lemma settled_step:
  assumes "HandlePayload E X proto st b w = (None, proto', st', w')" and "settled proto st"
  shows "settled proto' st' \<and> MapKey X (st' p) = MapKey X (st p)"
  using assms(1)
proof (cases rule: HandlePayload_cases)
  case (hello content v rawm mv)
  have "None \<notin> set (exts proto)" using settle_no_nil [OF hello(6)] .
  then have "filter (\<lambda>q. q \<noteq> None) (exts proto) = exts proto" by (intro filter_True) metis
  then have d: "distinct (exts proto)" using assms(2) by (simp add: settled_def)
  have "supported (st' q) \<and> (\<exists>n. n \<noteq> 0 \<and> map_of (ids proto') (MapKey X (st' q)) = Some n)"
    if "Some q \<in> set (exts proto')" for q
  proof -
    have "Some q \<in> set (exts proto)" using settle_subset [OF hello(6)] that by auto
    from settle_supported [OF hello(6) d this] that show ?thesis
      using hello(5) settle_keeps [OF hello(6)] by auto
  qed
  then show ?thesis
    using settle_distinct [OF hello(6) d] settle_keeps [OF hello(6)] by (simp add: settled_def)
next
  case (message b0 content q x)
  then show ?thesis
    using assms(2) keep_message [OF message(7)] support_message [OF message(7)] by (auto simp: settled_def)
qed

lemma received_settled:
  "received E X (proto, st, w) bs c \<Longrightarrow> settled proto st \<Longrightarrow>
    settled (fst c) (fst (snd c)) \<and> (\<forall>p. MapKey X (fst (snd c) p) = MapKey X (st p))"
proof (induction rule: received.induct)
  case (payload bs proto1 st1 w1 b proto' st' w')
  then show ?case using settled_step by fastforce
qed simp

text \<open>
  A message goes to the extension whose number it carries, and to no other; it is answered under the
  number the peer has given that extension.
\<close>

lemma message_dispatch:
  assumes "HandlePayload E X proto st (b0 # content) w = (None, proto', st', w')" and "b0 \<noteq> CHR 0x00"
    and "settled proto st"
  obtains p n x where "exts proto ! unat (u8 b0 - 1) = Some p" "supported (st p)"
    "map_of (ids proto) (MapKey X (st p)) = Some n" "n \<noteq> 0"
    "HandleMessage X (st p) content \<lparr>sender_id = n, sender_w = w\<rparr> = (None, x, w')" "st' = st(p := x)"
  using assms(1)
proof (cases rule: HandlePayload_cases)
  case (message c0 content' p x)
  then have "Some p \<in> set (exts proto)" using nth_mem by metis
  then obtain n where "supported (st p)" "map_of (ids proto) (MapKey X (st p)) = Some n" "n \<noteq> 0"
    using assms(3) message(3) by (auto simp: settled_def)
  then show ?thesis using that [of p n x] message by simp
qed (use assms(2) in simp)

end

section \<open>Extensions that come to an end\<close>

text \<open>An extension whose methods return also does so behind the center.\<close>

locale ending =
  fixes X :: "('x, 'w) Extension"
  assumes handshake_ends: "fst (AfterHandshake X x hin s) \<noteq> Some OutOfFuel"
    and message_ends: "fst (HandleMessage X x c s) \<noteq> Some OutOfFuel"
begin

lemma settle_ends: "fst (settle_exts X m hs ps st w) \<noteq> Some OutOfFuel"
proof (induction ps arbitrary: st w)
  case (Cons q ps)
  obtain r ps' st' w' where eq: "settle_exts X m hs (q # ps) st w = (r, ps', st', w')" using prod_cases4 by blast
  then have "r \<noteq> Some OutOfFuel"
  proof (cases rule: settle_cases)
    case (gone p ps1)
    then show ?thesis using Cons.IH by (metis fst_conv)
  next
    case (failed p n x e)
    then show ?thesis using handshake_ends by (metis fst_conv)
  next
    case (kept p n x w1 ps1)
    then show ?thesis using Cons.IH by (metis fst_conv)
  qed (simp add: nil_deref_def)
  then show ?case by (simp add: eq)
qed simp

lemma payload_ends:
  assumes "env_total E"
  shows "fst (HandlePayload E X proto st b w) \<noteq> Some OutOfFuel"
proof -
  have un: "fst (unmarshal_var E c t v) \<noteq> Some OutOfFuel" for c t v
    using decodeInto_total [OF assms, of t v "newDecoder c"] by (auto simp: unmarshal_var_def split_beta)
  have "fst (peer_handshake E X proto st c w) \<noteq> Some OutOfFuel" for c
    using un [of c hs_type "VMap None"] un [of _ ids_type "ids_val (ids proto)"] settle_ends
    by (auto simp: peer_handshake_def split_beta split: option.split)
  moreover have "fst (peer_message X proto st b0 c w) \<noteq> Some OutOfFuel" for b0 c
    using message_ends by (auto simp: peer_message_def unknown_ext_def Let_def split_beta split: option.split)
  ultimately show ?thesis
    by (simp add: HandlePayload_def out_of_range_def split: list.split)
qed

end

end
