(* ===== verification/Bt_Stream.thy ===== *)
theory Bt_Stream
  imports Bt_Peerwire
begin

text \<open>
  \<open>bt/stream.go\<close>: the BitTorrent handshake on a TCP connection. Both sides send 68 bytes: a length
  byte, the protocol name, eight reserved bytes, the info hash and the peer ID. The stream sets a
  deadline before every operation of its connection; what comes of both together is the writer
  (\<open>put\<close>) and the reader (\<open>source\<close>) of the other definitions.
\<close>

record 'w conn =
  conn_out :: 'w
  conn_in :: source
  closed :: bool

record 'w implStream =
  conn :: "'w conn"
  protocol :: bytes
  reserved :: "64 word"
  infoHash :: bytes
  peerID :: bytes

definition new_stream :: "'w conn \<Rightarrow> 'w implStream" where
  "new_stream c = \<lparr>conn = c, protocol = [], reserved = 0, infoHash = [], peerID = []\<rparr>"

definition greeting :: "bytes \<Rightarrow> bytes \<Rightarrow> 64 word \<Rightarrow> bytes" where
  "greeting ih pid res = [CHR 0x13] @ Protocol @ put_be 8 (unat res) @ ih @ pid"

text \<open>The slices \<open>b[1:20]\<close>, \<open>b[20:28]\<close>, \<open>b[28:48]\<close> and \<open>b[48:]\<close> of the answer.\<close>

definition set_greeting :: "bytes \<Rightarrow> 'w implStream \<Rightarrow> 'w implStream" where
  "set_greeting b s = s\<lparr>protocol := take 19 (drop 1 b), reserved := word_of_nat (get_be (take 8 (drop 20 b))),
     infoHash := take 20 (drop 28 b), peerID := drop 48 b\<rparr>"

definition handshake :: "'w put \<Rightarrow> 'w implStream \<Rightarrow> bytes \<Rightarrow> bytes \<Rightarrow> 64 word \<Rightarrow> gerror option \<times> 'w implStream" where
  "handshake put s ih pid res =
     (case put (conn_out (conn s)) (greeting ih pid res) of
        (Some e, w) \<Rightarrow> (Some e, s\<lparr>conn := (conn s)\<lparr>conn_out := w\<rparr>\<rparr>)
      | (None, w) \<Rightarrow>
          (case read_full 68 (conn_in (conn s)) of
             (b, Some e, r) \<Rightarrow> (Some e, s\<lparr>conn := (conn s)\<lparr>conn_out := w, conn_in := r\<rparr>\<rparr>)
           | (b, None, r) \<Rightarrow>
               (None, set_greeting b (s\<lparr>conn := (conn s)\<lparr>conn_out := w, conn_in := r\<rparr>\<rparr>))))"

definition close :: "'w implStream \<Rightarrow> 'w implStream" where
  "close s = s\<lparr>conn := (conn s)\<lparr>closed := True\<rparr>\<rparr>"

text \<open>
  \<open>Write\<close> and \<open>Read\<close>: nothing is written or read when the deadline, ten seconds from now, cannot be
  set. The operations of the \<open>net.Conn\<close> and the clock are parameters.
\<close>

definition ten_seconds :: int where
  "ten_seconds = 10 * 10 ^ 9"

definition stream_Write :: "('c \<Rightarrow> int \<Rightarrow> gerror option \<times> 'c) \<Rightarrow> 'c put \<Rightarrow> int \<Rightarrow> 'c put" where
  "stream_Write SetWriteDeadline conn_Write now c p =
     (case SetWriteDeadline c (now + ten_seconds) of
        (Some e, c1) \<Rightarrow> (Some e, c1)
      | (None, c1) \<Rightarrow> conn_Write c1 p)"

definition stream_Read :: "('c \<Rightarrow> int \<Rightarrow> gerror option \<times> 'c) \<Rightarrow> ('c \<Rightarrow> nat \<Rightarrow> (bytes \<times> gerror option) \<times> 'c) \<Rightarrow>
    int \<Rightarrow> 'c \<Rightarrow> nat \<Rightarrow> (bytes \<times> gerror option) \<times> 'c" where
  "stream_Read SetReadDeadline conn_Read now c n =
     (case SetReadDeadline c (now + ten_seconds) of
        (Some e, c1) \<Rightarrow> (([], Some e), c1)
      | (None, c1) \<Rightarrow> conn_Read c1 n)"

lemma stream_Write_reliable:
  assumes "\<And>c d. fst (SetWriteDeadline c d) = None" and "\<And>c p. fst (conn_Write c p) = None"
  shows "fst (stream_Write SetWriteDeadline conn_Write now c p) = None"
  using assms(1) [of c "now + ten_seconds"] assms(2) by (simp add: stream_Write_def split_beta)

lemma stream_Write_late:
  assumes "SetWriteDeadline c (now + ten_seconds) = (Some e, c1)"
  shows "stream_Write SetWriteDeadline conn_Write now c p = (Some e, c1)"
  using assms by (simp add: stream_Write_def)

text \<open>
  \<open>DialUseTCP\<close>; what \<open>net.DialTimeout\<close> came back with is an argument. The stream is returned also
  on failure, for what becomes of its connection.
\<close>

definition DialUseTCP :: "'w put \<Rightarrow> gerror + 'w conn \<Rightarrow> bytes \<Rightarrow> bytes \<Rightarrow> 64 word \<Rightarrow>
    gerror option \<times> 'w implStream option" where
  "DialUseTCP put dialled ih pid res =
     (case dialled of
        Inl e \<Rightarrow> (Some e, None)
      | Inr c \<Rightarrow>
          (case handshake put (new_stream c) ih pid res of
             (Some e, s) \<Rightarrow> (Some e, Some (close s))
           | (None, s) \<Rightarrow>
               (if protocol s \<noteq> Protocol
                then (Some (OtherError ''unknown prorocol''), Some (close s))
                else (None, Some s))))"

section \<open>The format\<close>

lemma length_Protocol [simp]: "length Protocol = 19"
  by (simp add: Protocol_def)

lemma length_greeting: "length ih = 20 \<Longrightarrow> length pid = 20 \<Longrightarrow> length (greeting ih pid res) = 68"
  by (simp add: greeting_def)

text \<open>Reading the other side's greeting gives back what it put in, and nothing more is read.\<close>

lemma handshake_greeting:
  assumes "length ih' = 20" and "length pid' = 20"
    and "avail (conn_in (conn s)) = greeting ih' pid' res' @ rest"
    and "put (conn_out (conn s)) (greeting ih pid res) = (None, w)"
  shows "handshake put s ih pid res =
    (None, s\<lparr>conn := (conn s)\<lparr>conn_out := w, conn_in := (conn_in (conn s))\<lparr>avail := rest\<rparr>\<rparr>,
      protocol := Protocol, reserved := res', infoHash := ih', peerID := pid'\<rparr>)"
proof -
  have "read_full 68 (conn_in (conn s)) =
      (greeting ih' pid' res', None, (conn_in (conn s))\<lparr>avail := rest\<rparr>)"
    using read_full_append [OF assms(3)] length_greeting [OF assms(1,2), of res'] by simp
  moreover have "unat res' < 2 ^ 64" using unsigned_less [of res'] by simp
  then have "word_of_nat (get_be (put_be 8 (unat res'))) = res'"
    by simp
  ultimately show ?thesis
    using assms by (simp add: handshake_def set_greeting_def greeting_def)
qed

text \<open>A greeting as a frame, read by a side that sends nothing itself.\<close>

definition read_greeting :: "bytes \<Rightarrow> ((bytes \<times> bytes \<times> 64 word) \<times> bytes) option" where
  "read_greeting bs =
     (case handshake buffer_put (new_stream \<lparr>conn_out = [], conn_in = \<lparr>avail = bs, closing = EOF\<rparr>, closed = False\<rparr>)
             [] [] 0 of
        (None, s) \<Rightarrow> Some ((infoHash s, peerID s, reserved s), avail (conn_in (conn s)))
      | _ \<Rightarrow> None)"

interpretation greetings: framing "\<lambda>(ih, pid, res). greeting ih pid res" read_greeting
    "\<lambda>(ih, pid, res). length ih = 20 \<and> length pid = 20"
  by unfold_locales (auto simp: read_greeting_def handshake_greeting buffer_put_def new_stream_def)

lemma DialUseTCP_protocol:
  "DialUseTCP put dialled ih pid res = (None, r) \<Longrightarrow> \<exists>s. r = Some s \<and> protocol s = Protocol"
  by (auto simp: DialUseTCP_def split: sum.splits prod.splits option.splits if_splits)

lemma DialUseTCP_failed_closed:
  "DialUseTCP put dialled ih pid res = (Some e, Some s) \<Longrightarrow> closed (conn s)"
  by (auto simp: DialUseTCP_def close_def split: sum.splits prod.splits option.splits if_splits)

end
