(* ===== verification/Tools.thy ===== *)
theory Tools
  imports Go_Values
begin

text \<open>
  Package \<open>tools\<close>: the distance of two node IDs, the compact form of an address, and the readers and
  writers with a deadline. The model shows where \<open>CommonPrefixLen\<close> is the length of the common bit
  prefix and where the compact form survives a round trip.
\<close>

unbundle bit_operations_syntax

section \<open>Random strings\<close>

text \<open>\<open>rand.Read\<close> is a parameter, applied to the number of bytes asked for.\<close>

definition RandomString :: "(nat \<Rightarrow> bytes) \<Rightarrow> nat \<Rightarrow> bytes" where
  "RandomString rand n = (if n = 0 then [] else rand n)"

section \<open>\<open>CommonPrefixLen\<close>\<close>

text \<open>
  The first loop: the index where it stops and the two bytes there, zero when it ran through.
  Indexing past the end of a string panics.
\<close>

function prefix_loop :: "nat \<Rightarrow> bytes \<Rightarrow> bytes \<Rightarrow> abort + (nat \<times> 8 word \<times> 8 word)" where
  "prefix_loop i a b =
     (if i \<ge> 20 then Inr (20, 0, 0)
      else if i \<ge> length a \<or> i \<ge> length b then Inl (Panic ''index out of range'')
      else if a ! i \<noteq> b ! i then Inr (i, u8 (a ! i), u8 (b ! i))
      else prefix_loop (Suc i) a b)"
  by pat_completeness auto
termination
  by (relation "measure (\<lambda>(i, a, b). 20 - i)") auto

declare prefix_loop.simps [simp del]

text \<open>The second loop, over the bits of the differing byte.\<close>

function bit_loop :: "nat \<Rightarrow> 8 word \<Rightarrow> nat" where
  "bit_loop j v = (if j > 8 then j else if drop_bit (8 - j) v > 0 then j else bit_loop (Suc j) v)"
  by pat_completeness auto
termination
  by (relation "measure (\<lambda>(j, v). 9 - j)") auto

declare bit_loop.simps [simp del]

definition CommonPrefixLen :: "bytes \<Rightarrow> bytes \<Rightarrow> abort + nat" where
  "CommonPrefixLen a b =
     (case prefix_loop 0 a b of
        Inl e \<Rightarrow> Inl e
      | Inr (i, aa, bb) \<Rightarrow> Inr (i * 8 + bit_loop 1 (aa XOR bb) - 1))"

text \<open>The specification: the common prefix of the two strings as bits, most significant first.\<close>

fun common_prefix :: "'a list \<Rightarrow> 'a list \<Rightarrow> nat" where
  "common_prefix (x # xs) (y # ys) = (if x = y then Suc (common_prefix xs ys) else 0)"
| "common_prefix xs ys = 0"

definition byte_bits :: "byte \<Rightarrow> bool list" where
  "byte_bits c = map (\<lambda>k. bit (u8 c) (7 - k)) [0..<8]"

definition bits :: "bytes \<Rightarrow> bool list" where
  "bits s = concat (map byte_bits s)"

lemma length_byte_bits [simp]: "length (byte_bits c) = 8"
  by (simp add: byte_bits_def)

lemma length_bits [simp]: "length (bits s) = 8 * length s"
  by (induction s) (simp_all add: bits_def)

lemma common_prefix_append_same: "common_prefix (xs @ ys) (xs @ zs) = length xs + common_prefix ys zs"
  by (induction xs) auto

lemma common_prefix_differ:
  "length xs = length ys \<Longrightarrow> xs \<noteq> ys \<Longrightarrow> common_prefix (xs @ as) (ys @ bs) = common_prefix xs ys"
  by (induction xs ys rule: list_induct2) auto

lemma common_prefix_self [simp]: "common_prefix xs xs = length xs"
  by (induction xs) auto

text \<open>The common prefix of two equally long lists ends at the first difference.\<close>

lemma common_prefix_first:
  assumes "length xs = length ys" and "k < length xs" and "\<forall>i < k. xs ! i = ys ! i" and "xs ! k \<noteq> ys ! k"
  shows "common_prefix xs ys = k"
  using assms
proof (induction xs ys arbitrary: k rule: list_induct2)
  case (Cons x xs y ys)
  show ?case
  proof (cases k)
    case 0
    then show ?thesis using Cons.prems by simp
  next
    case (Suc k')
    then have "x = y" using Cons.prems(2) by fastforce
    moreover have "common_prefix xs ys = k'"
      using Cons.prems Suc by (intro Cons.IH) fastforce+
    ultimately show ?thesis using Suc by simp
  qed
qed simp

text \<open>The shifted byte is positive exactly when one of its upper bits is set.\<close>

lemma word8_nonzero: "(v :: 8 word) \<noteq> 0 \<longleftrightarrow> (\<exists>i < 8. bit v i)"
  using bit_eqI [of v 0] bit_imp_le_length by (fastforce simp: bit_eq_iff)

lemma word8_differ: "(v :: 8 word) \<noteq> w \<Longrightarrow> \<exists>i < 8. bit v i \<noteq> bit w i"
  using bit_eqI [of v w] bit_imp_le_length by fastforce

lemma drop_bit_pos: "drop_bit n (v :: 8 word) > 0 \<longleftrightarrow> (\<exists>i. n \<le> i \<and> i < 8 \<and> bit v i)"
proof
  assume "drop_bit n v > 0"
  then obtain i where "bit v (n + i)" by (auto simp: word_gt_0 word8_nonzero bit_simps)
  then show "\<exists>i. n \<le> i \<and> i < 8 \<and> bit v i"
    using bit_imp_le_length [of v "n + i"] by (intro exI [of _ "n + i"]) simp
next
  assume "\<exists>i. n \<le> i \<and> i < 8 \<and> bit v i"
  then obtain i where "n \<le> i" "i < 8" "bit v i" by blast
  then have "bit (drop_bit n v) (i - n)" "i - n < 8" by (simp_all add: bit_simps)
  then show "drop_bit n v > 0" by (auto simp: word_gt_0 word8_nonzero simp del: bit_drop_bit_eq)
qed

lemma bit_loop_first:
  assumes "k < 8" and "bit v (7 - k)" and "\<forall>i < k. \<not> bit v (7 - i)"
  shows "j \<le> Suc k \<Longrightarrow> 0 < j \<Longrightarrow> bit_loop j v = Suc k"
proof (induction "Suc k - j" arbitrary: j)
  case 0
  then have j: "j = Suc k" by simp
  have "drop_bit (8 - j) v > 0" using assms(1,2) j by (auto simp: drop_bit_pos intro!: exI [of _ "7 - k"])
  then show ?case using assms(1) j by (subst bit_loop.simps) simp
next
  case (Suc n)
  then have "j \<le> k" by simp
  have "\<not> drop_bit (8 - j) v > 0"
  proof
    assume "drop_bit (8 - j) v > 0"
    then obtain i where i: "8 - j \<le> i" "i < 8" "bit v i" by (auto simp: drop_bit_pos)
    then have "7 - i < k" "7 - (7 - i) = i" using \<open>j \<le> k\<close> Suc.prems(2) by auto
    then show False using assms(3) i(3) by metis
  qed
  then show ?case
    using Suc \<open>j \<le> k\<close> assms(1) by (subst bit_loop.simps) simp
qed

lemma bit_loop_byte:
  assumes "a \<noteq> b"
  shows "bit_loop 1 (u8 a XOR u8 b) = Suc (common_prefix (byte_bits a) (byte_bits b))"
proof -
  have "u8 a \<noteq> u8 b" using assms byte_of_u8 by metis
  then obtain i where "i < 8" "bit (u8 a) i \<noteq> bit (u8 b) i" using word8_differ by blast
  then have ex: "\<exists>k. k < 8 \<and> bit (u8 a) (7 - k) \<noteq> bit (u8 b) (7 - k)"
    by (intro exI [of _ "7 - i"]) auto
  define k where "k = (LEAST k. k < 8 \<and> bit (u8 a) (7 - k) \<noteq> bit (u8 b) (7 - k))"
  have k: "k < 8" "bit (u8 a) (7 - k) \<noteq> bit (u8 b) (7 - k)"
    using LeastI_ex [OF ex] by (simp_all add: k_def)
  have least: "bit (u8 a) (7 - i) = bit (u8 b) (7 - i)" if "i < k" for i
    using not_less_Least [of i "\<lambda>k. k < 8 \<and> bit (u8 a) (7 - k) \<noteq> bit (u8 b) (7 - k)"] that k(1)
    by (simp add: k_def)
  have "common_prefix (byte_bits a) (byte_bits b) = k"
    using k least by (intro common_prefix_first) (simp_all add: byte_bits_def)
  moreover have "bit_loop 1 (u8 a XOR u8 b) = Suc k"
    using k least by (intro bit_loop_first) (simp_all add: bit_simps)
  ultimately show ?thesis by simp
qed

lemma prefix_loop_result:
  assumes "length a = 20" and "length b = 20" and "i \<le> 20" and "take i a = take i b"
  shows "prefix_loop i a b =
    (if a = b then Inr (20, 0, 0)
     else let k = common_prefix a b in Inr (k, u8 (a ! k), u8 (b ! k)))"
  using assms(3,4)
proof (induction "20 - i" arbitrary: i)
  case 0
  then have "a = b" using assms by simp
  then show ?case using 0 by (subst prefix_loop.simps) simp
next
  case (Suc n)
  then have i: "i < 20" by simp
  show ?case
  proof (cases "a ! i = b ! i")
    case True
    then have "take (Suc i) a = take (Suc i) b"
      using Suc.prems i assms(1,2) by (simp add: take_Suc_conv_app_nth)
    then have "prefix_loop (Suc i) a b =
        (if a = b then Inr (20, 0, 0) else let k = common_prefix a b in Inr (k, u8 (a ! k), u8 (b ! k)))"
      using Suc by (intro Suc.hyps(1)) auto
    then show ?thesis
      using True i assms(1,2) by (subst prefix_loop.simps) simp
  next
    case False
    then have "a \<noteq> b" by auto
    have "\<forall>j < i. a ! j = b ! j" using Suc.prems(2) by (metis nth_take)
    then have "common_prefix a b = i" using False i assms(1,2) by (intro common_prefix_first) auto
    then show ?thesis
      using False \<open>a \<noteq> b\<close> i assms(1,2) by (subst prefix_loop.simps) simp
  qed
qed

lemma common_prefix_bits:
  assumes "length a = length b" and "a \<noteq> b"
  defines "k \<equiv> common_prefix a b"
  shows "common_prefix (bits a) (bits b) = k * 8 + common_prefix (byte_bits (a ! k)) (byte_bits (b ! k)) \<and>
    k < length a \<and> a ! k \<noteq> b ! k"
  using assms(1,2) unfolding k_def
proof (induction a b rule: list_induct2)
  case (Cons x xs y ys)
  show ?case
  proof (cases "x = y")
    case True
    then show ?thesis using Cons by (auto simp: bits_def common_prefix_append_same)
  next
    case False
    then have "u8 x \<noteq> u8 y" using byte_of_u8 by metis
    then have "byte_bits x \<noteq> byte_bits y"
    proof -
      obtain i where "i < 8" "bit (u8 x) i \<noteq> bit (u8 y) i" using \<open>u8 x \<noteq> u8 y\<close> word8_differ by blast
      moreover have "7 - i < 8" by simp
      ultimately have "byte_bits x ! (7 - i) \<noteq> byte_bits y ! (7 - i)"
        by (simp only: byte_bits_def nth_map length_upt nth_upt diff_zero add_0) simp
      then show ?thesis by metis
    qed
    then show ?thesis using False by (simp add: bits_def common_prefix_differ)
  qed
qed simp

lemma CommonPrefixLen_bits:
  assumes "length a = 20" and "length b = 20"
  shows "CommonPrefixLen a b = Inr (if a = b then 168 else common_prefix (bits a) (bits b))"
proof (cases "a = b")
  case True
  have "bit_loop 1 0 = 9" by (simp add: bit_loop.simps)
  then show ?thesis
    using prefix_loop_result [OF assms, of 0] True by (simp add: CommonPrefixLen_def)
next
  case False
  then show ?thesis
    using prefix_loop_result [OF assms, of 0] common_prefix_bits [of a b] bit_loop_byte assms
    by (simp add: CommonPrefixLen_def Let_def)
qed

section \<open>Compact addresses\<close>

text \<open>
  A \<open>net.IP\<close> is a byte slice; \<open>net.IPv4\<close> makes one of 16 bytes, the address behind the prefix of
  IPv4-mapped addresses.
\<close>

definition net_IPv4 :: "byte \<Rightarrow> byte \<Rightarrow> byte \<Rightarrow> byte \<Rightarrow> bytes" where
  "net_IPv4 a b c d = replicate 10 (CHR 0x00) @ [CHR 0xff, CHR 0xff, a, b, c, d]"

definition DecodeCompactIPPortInfo :: "bytes \<Rightarrow> gerror + (bytes \<times> int)" where
  "DecodeCompactIPPortInfo info =
     (if length info \<noteq> 6 then Inl (OtherError ''compact info should be 6-length long'')
      else Inr (net_IPv4 (info ! 0) (info ! 1) (info ! 2) (info ! 3),
                uint ((push_bit 8 (ucast (u8 (info ! 4))) OR ucast (u8 (info ! 5))) :: 16 word)))"

text \<open>\<open>copy\<close> takes the first bytes of the address; the port then overwrites the last two of the six.\<close>

definition EncodeCompactIPPortInfo :: "bytes \<Rightarrow> int \<Rightarrow> gerror + bytes" where
  "EncodeCompactIPPortInfo ip port =
     (if port > 65535 \<or> port < 0
      then Inl (OtherError ''port should be no greater than 65535 and no less than 0'')
      else
        let buf = take 6 ip @ replicate (6 - length ip) (CHR 0x00)
        in Inr (take 4 buf @ put_be 2 (unat (word_of_int port :: 16 word))))"

lemma uint16_bytes:
  fixes h l :: "8 word"
  shows "unat ((push_bit 8 (ucast h) OR ucast l) :: 16 word) = unat h * 256 + unat l"
proof -
  have h: "unat h < 256" and l: "unat l < 256"
    using unsigned_less [of h] unsigned_less [of l] by simp_all
  have "push_bit 8 (unat h) AND unat l = 0"
  proof (rule bit_eqI)
    fix n
    show "bit (push_bit 8 (unat h) AND unat l) n = bit (0 :: nat) n"
      using bit_imp_le_length [of l n] by (auto simp: bit_simps)
  qed
  then have "push_bit 8 (unat h) OR unat l = unat h * 256 + unat l"
    by (simp add: push_bit_eq_mult flip: disjunctive_add_eq_or)
  moreover have "unat ((push_bit 8 (ucast h) OR ucast l) :: 16 word) = take_bit 16 (push_bit 8 (unat h)) OR unat l"
    using h l by (simp add: unsigned_or_eq unsigned_push_bit_eq unsigned_ucast_eq take_bit_nat_eq_self)
  moreover have "take_bit 16 (push_bit 8 (unat h)) = push_bit 8 (unat h)"
    using h by (simp add: take_bit_eq_mod push_bit_eq_mult)
  ultimately show ?thesis by simp
qed

lemma put_be2: "n < 65536 \<Longrightarrow> \<exists>h l. put_be 2 n = [h, l] \<and> of_char h * 256 + of_char l = n"
  by (auto simp: numeral_2_eq_2 of_char_of)

lemma port_word: "n < 65536 \<Longrightarrow> unat (word_of_int (int n) :: 16 word) = n"
  by (simp add: unat_of_nat)

text \<open>Four-byte addresses survive the round trip (in the form \<open>net.IPv4\<close> gives them).\<close>

lemma compact_encode:
  assumes "n < 65536"
  shows "EncodeCompactIPPortInfo ip (int n) =
    Inr (take 4 (take 6 ip @ replicate (6 - length ip) (CHR 0x00)) @ put_be 2 n)"
proof -
  have "\<not> (int n > 65535 \<or> int n < 0)" using assms by simp
  then show ?thesis by (simp only: EncodeCompactIPPortInfo_def port_word [OF assms] Let_def if_False)
qed

lemma compact_decode:
  assumes "n < 65536"
  shows "DecodeCompactIPPortInfo ([a, b, c, d] @ put_be 2 n) = Inr (net_IPv4 a b c d, int n)"
proof -
  obtain h l where hl: "put_be 2 n = [h, l]" "of_char h * 256 + of_char l = n" using put_be2 [OF assms] by blast
  have "unat ((push_bit 8 (ucast (u8 h)) OR ucast (u8 l)) :: 16 word) = n"
    using uint16_bytes [of "u8 h" "u8 l"] hl(2) by simp
  then have "uint ((push_bit 8 (ucast (u8 h)) OR ucast (u8 l)) :: 16 word) = int n"
    by (metis uint_nat)
  then show ?thesis by (simp add: DecodeCompactIPPortInfo_def hl(1))
qed

lemma compact_roundtrip:
  assumes "n < 65536"
  shows "EncodeCompactIPPortInfo [a, b, c, d] (int n) = Inr ([a, b, c, d] @ put_be 2 n)"
    and "DecodeCompactIPPortInfo ([a, b, c, d] @ put_be 2 n) = Inr (net_IPv4 a b c d, int n)"
  using compact_decode [OF assms, of a b c d] by (simp_all add: compact_encode [OF assms])

text \<open>The 16-byte form loses the address: \<open>copy\<close> takes the zeros in front.\<close>

lemma compact_mapped:
  "n < 65536 \<Longrightarrow> EncodeCompactIPPortInfo (net_IPv4 a b c d) (int n) = Inr (replicate 4 (CHR 0x00) @ put_be 2 n)"
  by (simp add: compact_encode net_IPv4_def)

section \<open>Reading and writing with a deadline\<close>

text \<open>
  \<open>StreamReader.Read\<close> and \<open>StreamWriter.Write\<close>: the deadline is set before every operation, and
  nothing is read or written when that fails. The operations of the \<open>net.Conn\<close> are parameters.
\<close>

definition StreamReader_Read :: "('c \<Rightarrow> int \<Rightarrow> gerror option \<times> 'c) \<Rightarrow> ('c \<Rightarrow> nat \<Rightarrow> (bytes \<times> gerror option) \<times> 'c) \<Rightarrow>
    int \<Rightarrow> int \<Rightarrow> 'c \<Rightarrow> nat \<Rightarrow> (bytes \<times> gerror option) \<times> 'c" where
  "StreamReader_Read set_deadline conn_read timeout now conn n =
     (case set_deadline conn (now + timeout) of
        (Some e, c) \<Rightarrow> (([], Some e), c)
      | (None, c) \<Rightarrow> conn_read c n)"

definition StreamWriter_Write :: "('c \<Rightarrow> int \<Rightarrow> gerror option \<times> 'c) \<Rightarrow> ('c \<Rightarrow> bytes \<Rightarrow> (nat \<times> gerror option) \<times> 'c) \<Rightarrow>
    int \<Rightarrow> int \<Rightarrow> 'c \<Rightarrow> bytes \<Rightarrow> (nat \<times> gerror option) \<times> 'c" where
  "StreamWriter_Write set_deadline conn_write timeout now conn b =
     (case set_deadline conn (now + timeout) of
        (Some e, c) \<Rightarrow> ((0, Some e), c)
      | (None, c) \<Rightarrow> conn_write c b)"

end
