(* ===== verification/Bt_Fetchmeta.thy ===== *)
theory Bt_Fetchmeta
  imports Bt_Extension Bt_Stream Tools "HOL-Library.Signed_Division"
begin

text \<open>
  \<open>bt/fetchmeta.go\<close>: fetching metadata from a peer. \<open>FetchMetaExt\<close> collects the pieces behind the
  extension protocol, \<open>FetchMetadata\<close> runs the connection. SHA-1 is a parameter.
\<close>

section \<open>The extension\<close>

text \<open>A nil piece is an empty one: the code only looks at lengths and joins.\<close>

record FetchMetaExt =
  fm_infoHash :: bytes
  pieces :: "bytes list"
  support :: bool

definition NewFetchMetaExt :: "bytes \<Rightarrow> FetchMetaExt" where
  "NewFetchMetaExt ih = \<lparr>fm_infoHash = ih, pieces = [], support = False\<rparr>"

definition IsSupoort :: "FetchMetaExt \<Rightarrow> bool" where
  "IsSupoort fm = support fm"

definition fm_MapKey :: "FetchMetaExt \<Rightarrow> bytes" where
  "fm_MapKey fm = ''ut_metadata''"

definition fm_BeforeHandshake :: "FetchMetaExt \<Rightarrow> hs_out \<Rightarrow> FetchMetaExt \<times> hs_out" where
  "fm_BeforeHandshake fm hs = (fm, hs)"

definition maxPieceSize :: int where
  "maxPieceSize = 16 * 1024"

definition getPiecesNum :: "int \<Rightarrow> int" where
  "getPiecesNum msize = msize sdiv maxPieceSize + (if msize smod maxPieceSize \<noteq> 0 then 1 else 0)"

text \<open>A \<open>map[string]int\<close>\<close>

definition int_map :: gotype where
  "int_map = TMap TString (TInt 64)"

definition int_entry :: "goval \<Rightarrow> bytes \<Rightarrow> int" where
  "int_entry v k =
     (case v of
        VMap (Some kvs) \<Rightarrow> (case map_of kvs k of Some (VInt n) \<Rightarrow> n | _ \<Rightarrow> 0)
      | _ \<Rightarrow> 0)"

definition request :: int where "request = 0"
definition data_msg :: int where "data_msg = 1"
definition reject :: int where "reject = 2"

definition request_val :: "int \<Rightarrow> goval" where
  "request_val i = VMap (Some [(''msg_type'', VInt request), (''piece'', VInt i)])"

text \<open>The loop of \<open>AfterHandshake\<close>: a request for each piece from \<open>i\<close>, \<open>n\<close> of them.\<close>

fun request_pieces :: "env \<Rightarrow> 'w writer \<Rightarrow> nat \<Rightarrow> int \<Rightarrow> 'w ExtMsgSender \<Rightarrow> abort option \<times> 'w" where
  "request_pieces E wr 0 i s = (None, sender_w s)"
| "request_pieces E wr (Suc n) i s =
     (case Marshal E (Some (int_map, request_val i)) of
        (b, Some e) \<Rightarrow> (Some e, sender_w s)
      | (b, None) \<Rightarrow>
          (case SendBytes wr s b of
             (Some e, w1) \<Rightarrow> (Some (Err e), w1)
           | (None, w1) \<Rightarrow> request_pieces E wr n (i + 1) (s\<lparr>sender_w := w1\<rparr>)))"

definition fm_AfterHandshake :: "env \<Rightarrow> 'w writer \<Rightarrow> FetchMetaExt \<Rightarrow> hs_in \<Rightarrow> 'w ExtMsgSender \<Rightarrow>
    abort option \<times> FetchMetaExt \<times> 'w" where
  "fm_AfterHandshake E wr fm hs sender =
     (let fm1 = fm\<lparr>support := True\<rparr> in
      case Get E hs ''metadata_size'' (TInt 64) (VInt 0) of
        (Inl a, v) \<Rightarrow> (Some a, fm1, sender_w sender)
      | (Inr False, v) \<Rightarrow> (Some (Err (OtherError ''don't known metadata size'')), fm1, sender_w sender)
      | (Inr True, v) \<Rightarrow>
          (let msize = (case v of VInt n \<Rightarrow> n | _ \<Rightarrow> 0) in
           if msize \<le> 0 then (Some (Err (OtherError ''wrong size'')), fm1, sender_w sender)
           else
             (let piecesNum = nat (getPiecesNum msize);
                  fm2 = fm1\<lparr>pieces := replicate piecesNum []\<rparr> in
              (case request_pieces E wr piecesNum 0 sender of (r, w1) \<Rightarrow> (r, fm2, w1)))))"

definition fm_Unsupport :: "FetchMetaExt \<Rightarrow> FetchMetaExt" where
  "fm_Unsupport fm = fm\<lparr>support := False\<rparr>"

text \<open>The piece number comes from the peer; one that is no index panics.\<close>

definition fm_HandleMessage :: "env \<Rightarrow> FetchMetaExt \<Rightarrow> bytes \<Rightarrow> 'w ExtMsgSender \<Rightarrow>
    abort option \<times> FetchMetaExt \<times> 'w" where
  "fm_HandleMessage E fm content sender =
     (case decodeInto E int_map (VMap None) (newDecoder content) of
        (Some e, v, d) \<Rightarrow> (Some e, fm, sender_w sender)
      | (None, v, d) \<Rightarrow>
          (let msg_type = int_entry v ''msg_type'' in
           if msg_type = reject then (Some (Err (OtherError ''peer reject out request'')), fm, sender_w sender)
           else if msg_type = data_msg then
             (let no = int_entry v ''piece'' in
              if bytesParsed d < 0 \<or> int (length content) < bytesParsed d
                \<or> no < 0 \<or> int (length (pieces fm)) \<le> no
              then (Some out_of_range, fm, sender_w sender)
              else (None, fm\<lparr>pieces := (pieces fm)[nat no := drop (nat (bytesParsed d)) content]\<rparr>, sender_w sender))
           else (None, fm, sender_w sender)))"

definition CheckDone :: "FetchMetaExt \<Rightarrow> bool" where
  "CheckDone fm \<longleftrightarrow> list_all (\<lambda>piece. piece \<noteq> []) (pieces fm)"

definition FetchRawMeta :: "(bytes \<Rightarrow> bytes) \<Rightarrow> FetchMetaExt \<Rightarrow> gerror + bytes" where
  "FetchRawMeta sha1 fm =
     (let metadata = concat (pieces fm) in
      if sha1 metadata = fm_infoHash fm then Inr metadata
      else Inl (OtherError ''metadata's sha1 hash is different from info_hash''))"

definition fm_extension :: "env \<Rightarrow> 'w writer \<Rightarrow> (FetchMetaExt, 'w) Extension" where
  "fm_extension E wr = \<lparr>MapKey = fm_MapKey, BeforeHandshake = fm_BeforeHandshake,
     AfterHandshake = fm_AfterHandshake E wr, Unsupport = fm_Unsupport, HandleMessage = fm_HandleMessage E\<rparr>"

lemma fm_extension_sel [simp]:
  "MapKey (fm_extension E wr) = fm_MapKey" "BeforeHandshake (fm_extension E wr) = fm_BeforeHandshake"
  "AfterHandshake (fm_extension E wr) = fm_AfterHandshake E wr" "Unsupport (fm_extension E wr) = fm_Unsupport"
  "HandleMessage (fm_extension E wr) = fm_HandleMessage E"
  by (simp_all add: fm_extension_def)

interpretation fm: extension "fm_extension E wr" support for E wr
  by unfold_locales
    (auto simp: fm_MapKey_def fm_Unsupport_def fm_AfterHandshake_def fm_HandleMessage_def Let_def
      split: prod.splits sum.splits bool.splits option.splits if_splits)

section \<open>The connection\<close>

text \<open>
  \<open>FetchMetadata\<close> after the handshake. The buffered writer belongs to this connection; \<open>ctx i\<close> is what
  the context reports in round \<open>i\<close>; \<open>n\<close> bounds the rounds, each of which takes a message off the stream.
\<close>

definition fm_writer :: "'w put \<Rightarrow> 'w bufio writer" where
  "fm_writer put = \<lparr>put_bytes = bufio_write put, byte_writer = True\<rparr>"

fun fetch_loop :: "env \<Rightarrow> (bytes \<Rightarrow> bytes) \<Rightarrow> 'w put \<Rightarrow> (nat \<Rightarrow> gerror option) \<Rightarrow> nat \<Rightarrow> nat \<Rightarrow> source \<Rightarrow>
    ExtProtocol \<Rightarrow> FetchMetaExt store \<Rightarrow> 'w bufio \<Rightarrow> (abort + bytes) \<times> 'w bufio \<times> source" where
  "fetch_loop E sha1 put ctx 0 i r proto st w = (Inl OutOfFuel, w, r)"
| "fetch_loop E sha1 put ctx (Suc n) i r proto st w =
     (case ctx i of
        Some e \<Rightarrow> (Inl (Err e), w, r)
      | None \<Rightarrow>
     (case ReadMessageWithLimit r 99999 of
        (_, Some e, r1) \<Rightarrow> (Inl (Err e), w, r1)
      | (msg, None, r1) \<Rightarrow>
          (case msg of
             Some (c # payload) \<Rightarrow>
               (if c \<noteq> ExtID then fetch_loop E sha1 put ctx n (Suc i) r1 proto st w
                else
                  (case HandlePayload E (fm_extension E (fm_writer put)) proto st payload w of
                     (Some e, proto1, st1, w1) \<Rightarrow> (Inl e, w1, r1)
                   | (None, proto1, st1, w1) \<Rightarrow>
                       (case bufio_flush put w1 of
                          (Some e, w2) \<Rightarrow> (Inl (Err e), w2, r1)
                        | (None, w2) \<Rightarrow>
                            (if \<not> IsSupoort (st1 0)
                             then (Inl (Err (OtherError ''not support Extension for Peers to Send Metadata Files'')), w2, r1)
                             else if CheckDone (st1 0)
                             then (case FetchRawMeta sha1 (st1 0) of
                                     Inr meta \<Rightarrow> (Inr meta, w2, r1)
                                   | Inl e \<Rightarrow> fetch_loop E sha1 put ctx n (Suc i) r1 proto1 st1 w2)
                             else fetch_loop E sha1 put ctx n (Suc i) r1 proto1 st1 w2))))
           | _ \<Rightarrow> fetch_loop E sha1 put ctx n (Suc i) r1 proto st w)))"

text \<open>
  The extension is the object 0 of the store. What \<open>net.Dial\<close> came back with and the random peer ID are
  arguments; the stream is returned for what became of it, closed by the deferred call.
\<close>

definition fetch_from :: "env \<Rightarrow> (bytes \<Rightarrow> bytes) \<Rightarrow> 'w put \<Rightarrow> (nat \<Rightarrow> gerror option) \<Rightarrow> bytes \<Rightarrow> 'w implStream \<Rightarrow>
    (abort + bytes) \<times> 'w bufio \<times> source" where
  "fetch_from E sha1 put ctx ih s =
     (let proto = RegistExt (NewExtProtocol []) 0;
          st = (\<lambda>p. NewFetchMetaExt ih);
          w = bufio_new (conn_out (conn s)); r = conn_in (conn s) in
      case WriteHandshake E (fm_extension E (fm_writer put)) (fm_writer put) proto st w of
        (Some e, st1, w1) \<Rightarrow> (Inl e, w1, r)
      | (None, st1, w1) \<Rightarrow>
          (case bufio_flush put w1 of
             (Some e, w2) \<Rightarrow> (Inl (Err e), w2, r)
           | (None, w2) \<Rightarrow> fetch_loop E sha1 put ctx (Suc (length (avail r))) 0 r proto st1 w2))"

definition FetchMetadata :: "env \<Rightarrow> (bytes \<Rightarrow> bytes) \<Rightarrow> 'w put \<Rightarrow> (nat \<Rightarrow> gerror option) \<Rightarrow> bytes \<Rightarrow>
    gerror + 'w conn \<Rightarrow> bytes \<Rightarrow> (abort + bytes) \<times> 'w implStream option" where
  "FetchMetadata E sha1 put ctx ih dialled rand_id =
     (case DialUseTCP put dialled ih rand_id (SetExtReserved 0) of
        (Some e, s) \<Rightarrow> (Inl (Err e), s)
      | (None, None) \<Rightarrow> (Inl nil_deref, None)
      | (None, Some s) \<Rightarrow>
          (if infoHash s \<noteq> ih
           then (Inl (Err (OtherError ''handshake failed: different info_hash'')), Some (close s))
           else if \<not> CheckExtReserved (reserved s)
           then (Inl (Err (OtherError ''not support extensions'')), Some (close s))
           else
             (case fetch_from E sha1 put ctx ih s of
                (res, w, r) \<Rightarrow>
                  (res, Some (close (s\<lparr>conn := (conn s)\<lparr>conn_out := below w, conn_in := r\<rparr>\<rparr>))))))"

section \<open>Termination\<close>

text \<open>What the extension sends.\<close>

lemma run_all_emits: "run_all (map emit ss) = (None, concat ss)"
  by (induction ss) (simp_all add: emit_def)

lemma Marshal_request:
  "Marshal E (Some (int_map, request_val i)) = (benc (BDict [(''msg_type'', BInt request), (''piece'', BInt i)]), None)"
  by (simp add: Marshal_def Encode_def encode.simps encodeLoop.simps encodeKind.simps methods_at_def int_map_def
      request_val_def map_entries_def List.map_filter_simps getDirectValue.simps emit_def writeInt_def writeString_def bstr_def)

lemma request_pieces_ends: "fst (request_pieces E wr n i s) \<noteq> Some OutOfFuel"
  by (induction n arbitrary: i s) (auto simp: Marshal_request split: prod.split option.split)

lemma fm_ending: "env_total E \<Longrightarrow> ending (fm_extension E wr)"
proof
  assume E: "env_total E"
  show "fst (AfterHandshake (fm_extension E wr) x hin s) \<noteq> Some OutOfFuel" for x hin s
    using Get_ends [OF E, of hin "''metadata_size''" "TInt 64" "VInt 0"]
    by (auto simp: request_pieces_ends fm_AfterHandshake_def Let_def split_beta split: sum.split bool.split)
  show "fst (HandleMessage (fm_extension E wr) x c s) \<noteq> Some OutOfFuel" for x c s
    using decodeInto_total [OF E, of int_map "VMap None" "newDecoder c"]
    by (auto simp: fm_HandleMessage_def Let_def out_of_range_def split_beta split: option.split)
qed

lemma fetch_loop_ends:
  assumes "env_total E"
  shows "length (avail r) < n \<Longrightarrow> fst (fetch_loop E sha1 put ctx n i r proto st w) \<noteq> Inl OutOfFuel"
proof (induction n arbitrary: i r proto st w)
  case (Suc n)
  have "fst (fetch_loop E sha1 put ctx n (Suc i) r1 proto1 st1 w1) \<noteq> Inl OutOfFuel"
    if "ReadMessageWithLimit r 99999 = (m, None, r1)" for m r1 proto1 st1 w1
    using ReadMessageWithLimit_shorter [OF that] Suc by simp
  moreover have "e \<noteq> OutOfFuel" if "HandlePayload E (fm_extension E (fm_writer put)) proto st b w = (Some e, c)" for b e c
    using ending.payload_ends [OF fm_ending [OF assms] assms, of "fm_writer put" proto st b w] that by simp
  ultimately show ?case
    by (auto split: option.split prod.split list.split sum.split)
qed simp

section \<open>Safety\<close>

lemma fm_keeps_hash: "keeps (fm_extension E wr) fm_infoHash"
  by unfold_locales
    (auto simp: fm_BeforeHandshake_def fm_Unsupport_def fm_AfterHandshake_def fm_HandleMessage_def Let_def
      split: prod.splits sum.splits bool.splits option.splits if_splits)

interpretation fm_hash: keeps "fm_extension E wr" fm_infoHash for E wr
  by (rule fm_keeps_hash)

text \<open>What ends the loop with a result was hashed, and hashes to what the extension was made for.\<close>

lemma fetch_loop_hash:
  "fetch_loop E sha1 put ctx n i r proto st w = (Inr meta, w', r') \<Longrightarrow> sha1 meta = fm_infoHash (st 0)"
proof (induction n arbitrary: i r proto st w)
  case (Suc n)
  from Suc.prems obtain msg r1 where m: "ReadMessageWithLimit r 99999 = (msg, None, r1)" "ctx i = None"
    by (auto split: option.splits prod.splits)
  consider (other) "fetch_loop E sha1 put ctx n (Suc i) r1 proto st w = (Inr meta, w', r')"
    | (ext) payload proto1 st1 w1 where "HandlePayload E (fm_extension E (fm_writer put)) proto st payload w = (None, proto1, st1, w1)"
        "sha1 meta = fm_infoHash (st1 0)"
    using Suc.prems m Suc.IH
    by (fastforce simp: FetchRawMeta_def Let_def split: option.splits prod.splits list.splits if_splits sum.splits)
  then show ?case
  proof cases
    case other
    then show ?thesis by (rule Suc.IH)
  next
    case ext
    then show ?thesis using fm_hash.payload_keeps [OF ext(1), of 0] by simp
  qed
qed simp

text \<open>The two phases behind the handshake.\<close>

lemma fetch_from_cases:
  obtains (hello) e st1 w1 where "WriteHandshake E (fm_extension E (fm_writer put)) (fm_writer put)
      (RegistExt (NewExtProtocol []) 0) (\<lambda>p. NewFetchMetaExt ih) (bufio_new (conn_out (conn s))) = (Some e, st1, w1)"
      "fetch_from E sha1 put ctx ih s = (Inl e, w1, conn_in (conn s))"
  | (flush) e w2 where "fetch_from E sha1 put ctx ih s = (Inl (Err e), w2, conn_in (conn s))"
  | (loop) st1 w1 w2 where "WriteHandshake E (fm_extension E (fm_writer put)) (fm_writer put)
      (RegistExt (NewExtProtocol []) 0) (\<lambda>p. NewFetchMetaExt ih) (bufio_new (conn_out (conn s))) = (None, st1, w1)"
      "bufio_flush put w1 = (None, w2)"
      "fetch_from E sha1 put ctx ih s = fetch_loop E sha1 put ctx (Suc (length (avail (conn_in (conn s))))) 0
         (conn_in (conn s)) (RegistExt (NewExtProtocol []) 0) st1 w2"
proof -
  let ?h = "WriteHandshake E (fm_extension E (fm_writer put)) (fm_writer put)
      (RegistExt (NewExtProtocol []) 0) (\<lambda>p. NewFetchMetaExt ih) (bufio_new (conn_out (conn s)))"
  obtain r st1 w1 where h: "?h = (r, st1, w1)" using prod_cases3 by blast
  obtain r2 w2 where f: "bufio_flush put w1 = (r2, w2)" by fastforce
  show ?thesis
  proof (cases r)
    case None
    then show ?thesis
      using h f flush loop by (cases r2) (simp_all add: fetch_from_def Let_def del: fetch_loop.simps)
  next
    case (Some e)
    then show ?thesis using h hello by (simp add: fetch_from_def Let_def)
  qed
qed

lemma fetch_from_hash:
  assumes "fetch_from E sha1 put ctx ih s = (Inr meta, w, r)"
  shows "sha1 meta = ih"
proof (cases rule: fetch_from_cases [where E = E and put = put and ih = ih and s = s and ?sha1.0 = sha1 and ctx = ctx])
  case (loop st1 w1 w2)
  show ?thesis
    using fetch_loop_hash [OF loop(3) [symmetric, unfolded assms]] fm_hash.WriteHandshake_keeps [OF loop(1), of 0]
    by (simp add: NewFetchMetaExt_def)
qed (use assms in simp_all)

end
