(* ===== verification/Bt_Handshake.thy ===== *)
theory Bt_Handshake
  imports Bt_Extension
begin

text \<open>
  What the extension handshake comes to when both sides speak proper bencode: how the center reads the
  peer's dictionary, and that the numbers one center offers are those the other one settles on.
\<close>

section \<open>Reading the peer's dictionary\<close>

lemma unmarshal_hs:
  assumes "bval_ok (BDict kvs)"
  shows "unmarshal_var bencode_env (benc (BDict kvs)) hs_type (VMap None) =
    (None, VMap (Some (map (\<lambda>(k, b). (k, raw_val (Some (benc b)))) kvs)))"
proof -
  have zero: "zero raw_type = raw_val None" by (simp add: raw_type_def raw_val_def)
  have "assign bencode_env (BDict kvs) hs_type (VMap None) =
      Some (VMap (Some (map (\<lambda>(k, b). (k, raw_val (Some (benc b)))) kvs)))"
    unfolding hs_type_def using assms by (intro assign_map) (auto simp: zero assign_raw)
  then show ?thesis
    using unmarshal_var_assign [OF bencode_env_ok(2) assms, of hs_type "VMap None" "[]"]
    by (simp add: hs_type_def del: benc.simps assign.simps)
qed

lemma hs_of_raw [simp]:
  "hs_of (VMap (Some (map (\<lambda>(k, b). (k, raw_val (Some (benc b)))) kvs))) = map (\<lambda>(k, b). (k, benc b)) kvs"
  by (auto simp: hs_of_def)

lemma byte_take_bit [simp]: "(word_of_int (take_bit 8 n) :: 8 word) = word_of_int n"
  by (rule bit_eqI) (simp add: bit_simps)

text \<open>The numbers of a peer, and what becomes of one that is no byte.\<close>

definition numbers :: "(bytes, int) gomap \<Rightarrow> bval" where
  "numbers ms = BDict (map (\<lambda>(k, n). (k, BInt n)) ms)"

definition bytes_of_numbers :: "(bytes, int) gomap \<Rightarrow> (bytes, 8 word) gomap" where
  "bytes_of_numbers ms = map (\<lambda>(k, n). (k, word_of_int n)) ms"

lemma unmarshal_ids:
  assumes "env_safe E" and "bval_ok (numbers ms)" and "\<forall>(k, n) \<in> set ms. 0 \<le> n"
  shows "\<exists>v. unmarshal_var E (benc (numbers ms)) ids_type (ids_val []) = (None, v) \<and> ids_of v = bytes_of_numbers ms"
proof -
  let ?g = "\<lambda>b. case b of BInt n \<Rightarrow> VUint (take_bit 8 n) | _ \<Rightarrow> VUint 0"
  let ?kvs = "map (\<lambda>(k, n). (k, BInt n)) ms"
  have "assign E (numbers ms) ids_type (ids_val []) = Some (VMap (Some (map (\<lambda>(k, b). (k, ?g b)) ?kvs)))"
    unfolding ids_type_def numbers_def using assms(2,3)
    by (intro assign_map) (auto simp: ids_val_def numbers_def simp del: assign.simps)
  moreover have "ids_of (VMap (Some (map (\<lambda>(k, b). (k, ?g b)) ?kvs))) = bytes_of_numbers ms"
    by (auto simp: ids_of_def bytes_of_numbers_def)
  ultimately show ?thesis
    using unmarshal_var_assign [OF assms(1,2), of ids_type "ids_val []" "[]"]
    by (auto simp: ids_type_def ids_val_def simp del: benc.simps assign.simps)
qed

lemma peer_handshake_benc:
  assumes ok: "bval_ok (BDict kvs)" and m: "map_of kvs ''m'' = Some (numbers ms)"
    and "\<forall>(k, n) \<in> set ms. 0 \<le> n" and new: "ids proto = []"
  shows "peer_handshake bencode_env X proto st (benc (BDict kvs)) w =
    (case settle_exts X (bytes_of_numbers ms) (map (\<lambda>(k, b). (k, benc b)) kvs) (exts proto) st w of
       (r, es, st', w') \<Rightarrow> (r, \<lparr>exts = es, ids = bytes_of_numbers ms\<rparr>, st', w'))"
proof -
  have "bval_ok (numbers ms)" using ok map_of_SomeD [OF m] by (auto simp: list_all_iff)
  from unmarshal_ids [OF bencode_env_ok(2) this assms(3)]
  obtain v where v: "unmarshal_var bencode_env (benc (numbers ms)) ids_type (ids_val []) = (None, v)"
      "ids_of v = bytes_of_numbers ms"
    by blast
  have "map_of (map (\<lambda>(k, b). (k, benc b)) kvs) ''m'' = Some (benc (numbers ms))"
    using m by (induction kvs) auto
  then show ?thesis
    using v new by (simp add: peer_handshake_def unmarshal_hs [OF ok] split_beta del: benc.simps)
qed

text \<open>An entry of the peer's dictionary, as an extension reads it.\<close>

lemma Get_benc:
  assumes "env_safe E" and "map_of kvs k = Some b" and "bval_ok b" and "wf_type t" and "has_type t v"
    and "assign E b t v = Some x"
  shows "Get E (map (\<lambda>(k, b). (k, benc b)) kvs) k t v = (Inr True, x)"
proof -
  have "map_of (map (\<lambda>(k, b). (k, benc b)) kvs) k = Some (benc b)"
    using assms(2) by (induction kvs) auto
  then show ?thesis
    using unmarshal_var_assign [OF assms(1,3-5), of "[]"] assms(6) by (simp add: Get_def)
qed

end
