(* ===== verification/Bt_Fetch_Spec.thy ===== *)
theory Bt_Fetch_Spec
  imports Bt_Fetchmeta Bt_Handshake
begin

text \<open>
  What \<open>FetchMetadata\<close> achieves: with a peer that offers the metadata and sends its pieces, in any
  order, it returns the metadata.
\<close>

section \<open>The number of pieces\<close>

lemma getPiecesNum_bounds:
  assumes "0 < n"
  shows "0 < getPiecesNum n \<and> getPiecesNum n \<le> n \<and>
    (getPiecesNum n - 1) * maxPieceSize < n \<and> n \<le> getPiecesNum n * maxPieceSize"
proof -
  define q r where "q = n div 16384" and "r = n mod 16384"
  have "n sdiv 16384 = q" "n smod 16384 = r"
    using assms by (simp_all add: q_def r_def signed_divide_int_def signed_modulo_int_def sgn_if)
  then have num: "getPiecesNum n = q + (if r \<noteq> 0 then 1 else 0)"
    by (simp add: getPiecesNum_def maxPieceSize_def)
  have n: "n = 16384 * q + r" "0 \<le> r" "r < 16384" by (simp_all add: q_def r_def)
  then have "0 \<le> q" using assms by simp
  with n assms show ?thesis unfolding num maxPieceSize_def by simp
qed

section \<open>Sending the requests\<close>

lemma SendBytes_reliable:
  assumes "reliable put" and "failed (sender_w s) = None"
  shows "\<exists>w. SendBytes (fm_writer put) s c = (None, w) \<and> failed w = None"
proof -
  note step = bufio_write_reliable [OF assms(1)]
  obtain w1 where w1: "bufio_write put (sender_w s) (put_be 4 (unat (word_of_nat (length c + 2) :: 32 word))) = (None, w1)"
      "failed w1 = None" using step [OF assms(2)] by blast
  obtain w2 where w2: "bufio_write put w1 [ExtID] = (None, w2)" "failed w2 = None" using step [OF w1(2)] by blast
  obtain w3 where w3: "bufio_write put w2 [byte_of (sender_id s)] = (None, w3)" "failed w3 = None"
    using step [OF w2(2)] by blast
  obtain w4 where "bufio_write put w3 c = (None, w4)" "failed w4 = None" using step [OF w3(2)] by blast
  then show ?thesis using w1 w2 w3
    by (simp add: SendBytes_def fm_writer_def WriteExtensionMessage_def and_then_def)
qed

lemma request_pieces_reliable:
  assumes "reliable put"
  shows "failed (sender_w s) = None \<Longrightarrow>
    \<exists>w. request_pieces E (fm_writer put) n i s = (None, w) \<and> failed w = None"
proof (induction n arbitrary: i s)
  case (Suc n)
  obtain w where "SendBytes (fm_writer put) s (benc (BDict [(''msg_type'', BInt request), (''piece'', BInt i)])) = (None, w)"
      "failed w = None"
    using SendBytes_reliable [OF assms Suc.prems] by blast
  then show ?case using Suc.IH [of "s\<lparr>sender_w := w\<rparr>"] by (simp add: Marshal_request del: benc.simps)
qed simp

section \<open>The peer's messages\<close>

definition hello_dict :: "int \<Rightarrow> int \<Rightarrow> (bytes \<times> bval) list" where
  "hello_dict n msize = [(''m'', numbers [(''ut_metadata'', n)]), (''metadata_size'', BInt msize)]"

definition peer_hello :: "int \<Rightarrow> int \<Rightarrow> bytes" where
  "peer_hello n msize = ExtID # CHR 0x00 # benc (BDict (hello_dict n msize))"

definition piece_dict :: "nat \<Rightarrow> bval" where
  "piece_dict i = BDict [(''msg_type'', BInt data_msg), (''piece'', BInt (int i))]"

definition peer_piece :: "bytes list \<Rightarrow> nat \<Rightarrow> bytes" where
  "peer_piece ps i = ExtID # CHR 0x01 # benc (piece_dict i) @ ps ! i"

text \<open>The state of the extension when the pieces in \<open>C\<close> have come.\<close>

definition collected :: "bytes \<Rightarrow> bytes list \<Rightarrow> nat set \<Rightarrow> FetchMetaExt" where
  "collected ih ps C = \<lparr>fm_infoHash = ih, pieces = map (\<lambda>i. if i \<in> C then ps ! i else []) [0..<length ps], support = True\<rparr>"

lemma collected_done:
  "\<forall>p \<in> set ps. p \<noteq> [] \<Longrightarrow> CheckDone (collected ih ps C) \<longleftrightarrow> {..<length ps} \<subseteq> C"
  by (auto simp: CheckDone_def collected_def list_all_iff) (metis nth_mem)

lemma collected_raw: "{..<length ps} \<subseteq> C \<Longrightarrow> concat (pieces (collected ih ps C)) = concat ps"
proof -
  assume "{..<length ps} \<subseteq> C"
  then have "map (\<lambda>i. if i \<in> C then ps ! i else []) [0..<length ps] = map ((!) ps) [0..<length ps]"
    by (intro map_cong) auto
  then show ?thesis by (simp add: collected_def map_nth)
qed

lemma collected_meta:
  "{..<length ps} \<subseteq> C \<Longrightarrow> sha1 (concat ps) = ih \<Longrightarrow> FetchRawMeta sha1 (collected ih ps C) = Inr (concat ps)"
  using collected_raw [of ps C ih] by (simp add: FetchRawMeta_def) (simp add: collected_def)

lemma collected_support [simp]: "IsSupoort (collected ih ps C)"
  by (simp add: IsSupoort_def collected_def)

lemma collected_insert:
  assumes "i < length ps"
  shows "(collected ih ps C)\<lparr>pieces := (pieces (collected ih ps C))[i := ps ! i]\<rparr> = collected ih ps (insert i C)"
proof -
  have "(map (\<lambda>i. if i \<in> C then ps ! i else []) [0..<length ps])[i := ps ! i] =
      map (\<lambda>j. if j \<in> insert i C then ps ! j else []) [0..<length ps]"
    by (rule nth_equalityI) (auto simp: nth_list_update assms)
  then show ?thesis by (simp add: collected_def)
qed

section \<open>Their effect\<close>

definition fm_started :: "int \<Rightarrow> ExtProtocol" where
  "fm_started n = \<lparr>exts = [Some 0], ids = bytes_of_numbers [(''ut_metadata'', n)]\<rparr>"

lemma hello_ok: "- (2 ^ 63) \<le> n \<and> n < 2 ^ 63 \<Longrightarrow> - (2 ^ 63) \<le> msize \<and> msize < 2 ^ 63 \<Longrightarrow> bval_ok (BDict (hello_dict n msize))"
  by (simp add: hello_dict_def numbers_def len_ok_def)

lemma hello_effect:
  assumes "reliable put" and "failed w = None" and "0 < n" and "n < 256"
    and "0 < msize" and "msize < 2 ^ 63" and "nat (getPiecesNum msize) = length ps"
    and "fm_infoHash (st 0) = ih"
  shows "\<exists>st' w'. peer_handshake bencode_env (fm_extension bencode_env (fm_writer put)) (RegistExt (NewExtProtocol []) 0) st
      (benc (BDict (hello_dict n msize))) w = (None, fm_started n, st', w') \<and>
    failed w' = None \<and> st' 0 = collected ih ps {}"
proof -
  let ?s = "\<lparr>sender_id = word_of_int n, sender_w = w\<rparr> :: 'a bufio ExtMsgSender"
  let ?kvs = "hello_dict n msize"
  have ok: "bval_ok (BDict ?kvs)" using assms(3-6) by (intro hello_ok) simp_all
  have m: "map_of ?kvs ''m'' = Some (numbers [(''ut_metadata'', n)])" by (simp add: hello_dict_def)
  have id: "(word_of_int n :: 8 word) \<noteq> 0"
    using assms(3,4) by (auto simp: word_of_int_eq_0_iff dest: zdvd_imp_le)
  have size: "Get bencode_env (map (\<lambda>(k, b). (k, benc b)) ?kvs) ''metadata_size'' (TInt 64) (VInt 0) = (Inr True, VInt msize)"
  proof (rule Get_benc [OF bencode_env_ok(2)])
    show "map_of ?kvs ''metadata_size'' = Some (BInt msize)" by (simp add: hello_dict_def)
    show "assign bencode_env (BInt msize) (TInt 64) (VInt 0) = Some (VInt msize)"
      using assms(5,6) by (simp add: signed_take_bit_int_eq_self del: assign.simps)
  qed (use assms(5,6) in simp_all)
  obtain w' where w': "request_pieces bencode_env (fm_writer put) (length ps) 0 ?s = (None, w')" "failed w' = None"
    using request_pieces_reliable [OF assms(1), of ?s bencode_env "length ps" 0] assms(2) by auto
  have "fm_AfterHandshake bencode_env (fm_writer put) (st 0) (map (\<lambda>(k, b). (k, benc b)) ?kvs) ?s =
      (None, (st 0)\<lparr>support := True, pieces := replicate (length ps) []\<rparr>, w')"
    using size w' assms(5,7) by (simp add: fm_AfterHandshake_def Let_def)
  moreover have "(st 0)\<lparr>support := True, pieces := replicate (length ps) []\<rparr> = collected ih ps {}"
    using assms(8) by (simp add: collected_def map_replicate_const)
  moreover have "peer_handshake bencode_env (fm_extension bencode_env (fm_writer put)) (RegistExt (NewExtProtocol []) 0) st
      (benc (BDict ?kvs)) w =
    (case settle_exts (fm_extension bencode_env (fm_writer put)) (bytes_of_numbers [(''ut_metadata'', n)])
       (map (\<lambda>(k, b). (k, benc b)) ?kvs) [Some 0] st w of
       (r, es, st', w') \<Rightarrow> (r, \<lparr>exts = es, ids = bytes_of_numbers [(''ut_metadata'', n)]\<rparr>, st', w'))"
    by (subst peer_handshake_benc [OF ok m])
      (use assms(3) in \<open>simp_all add: RegistExt_def NewExtProtocol_def del: settle_exts.simps benc.simps\<close>)
  ultimately show ?thesis
    using w'(2) id by (simp add: fm_started_def bytes_of_numbers_def fm_MapKey_def)
qed

lemma piece_effect:
  assumes "i < length ps" and "length ps < 2 ^ 63"
  shows "fm_HandleMessage bencode_env (collected ih ps C) (benc (piece_dict i) @ ps ! i) s =
    (None, collected ih ps (insert i C), sender_w s)"
proof -
  let ?kvs = "[(''msg_type'', BInt data_msg), (''piece'', BInt (int i))]"
  let ?g = "\<lambda>b. case b of BInt n \<Rightarrow> VInt n | _ \<Rightarrow> VInt 0"
  let ?v = "VMap (Some [(''msg_type'', VInt data_msg), (''piece'', VInt (int i))])"
  let ?d = "newDecoder (benc (piece_dict i) @ ps ! i)"
  have ok: "bval_ok (piece_dict i)" using assms by (simp add: piece_dict_def len_ok_def data_msg_def)
  have "assign bencode_env (piece_dict i) int_map (VMap None) = Some (VMap (Some (map (\<lambda>(k, b). (k, ?g b)) ?kvs)))"
    unfolding int_map_def piece_dict_def using assms
    by (intro assign_map) (simp_all add: data_msg_def signed_take_bit_int_eq_self del: assign.simps)
  then have "decodeInto bencode_env int_map (VMap None) ?d = (None, ?v, took (benc (piece_dict i)) ?d)"
    using decodeInto_assign [OF bencode_env_ok(2) ok, of ?d "ps ! i" int_map "VMap None"]
    by (simp add: implements_def newDecoder_def quiet_def int_map_def del: benc.simps assign.simps)
  moreover have "bytesParsed (took (benc (piece_dict i)) ?d) = int (length (benc (piece_dict i)))"
    by (simp add: bytesParsed_def newDecoder_def del: benc.simps)
  moreover have "length (pieces (collected ih ps C)) = length ps" by (simp add: collected_def)
  ultimately show ?thesis
    using assms collected_insert [OF assms(1), of ih C]
    by (simp add: fm_HandleMessage_def Let_def int_entry_def data_msg_def reject_def del: benc.simps)
qed

section \<open>The loop\<close>

lemma read_peer:
  assumes "length body \<le> 99999" and "avail r = message body @ rest"
  shows "ReadMessageWithLimit r 99999 = (Some body, None, r\<lparr>avail := rest\<rparr>)"
  using ReadMessageWithLimit_message [OF _ assms(2), of 99999] assms(1) by (simp add: body_ok_def)

text \<open>Going on with the pieces that are still to come; the one that completes the set ends the loop.\<close>

lemma fetch_pieces:
  assumes put: "reliable put" and ctx: "\<forall>i. ctx i = None" and n: "0 < n" "n < 256"
    and ps: "\<forall>p \<in> set ps. p \<noteq> []" "length ps < 2 ^ 63" and hash: "sha1 (concat ps) = ih"
    and fits: "\<forall>i < length ps. length (peer_piece ps i) \<le> 99999"
  shows "set js \<subseteq> {..<length ps} \<Longrightarrow> {..<length ps} \<subseteq> C \<union> set js \<Longrightarrow> \<not> {..<length ps} \<subseteq> C \<Longrightarrow>
    length js < k \<Longrightarrow> failed w = None \<Longrightarrow> st 0 = collected ih ps C \<Longrightarrow>
    avail r = concat (map (\<lambda>i. message (peer_piece ps i)) js) @ rest \<Longrightarrow>
    fst (fetch_loop bencode_env sha1 put ctx k j r (fm_started n) st w) = Inr (concat ps)"
proof (induction js arbitrary: C k j r st w)
  case Nil
  then show ?case by simp
next
  case (Cons i js)
  let ?X = "fm_extension bencode_env (fm_writer put)"
  obtain k' where k: "k = Suc k'" using Cons.prems(4) by (cases k) auto
  let ?r = "r\<lparr>avail := concat (map (\<lambda>i. message (peer_piece ps i)) js) @ rest\<rparr>"
  have i: "i < length ps" using Cons.prems(1) by simp
  have read: "ReadMessageWithLimit r 99999 = (Some (peer_piece ps i), None, ?r)"
    using Cons.prems(7) fits i by (intro read_peer) simp_all
  have one: "unat (u8 (CHR 0x01) - 1) = 0" by (simp add: u8_def)
  have "HandlePayload bencode_env ?X (fm_started n) st (CHR 0x01 # benc (piece_dict i) @ ps ! i) w =
      (None, fm_started n, st(0 := collected ih ps (insert i C)), w)"
    using Cons.prems(6) one
    by (simp add: piece_effect [OF i ps(2)] fm_MapKey_def HandlePayload_def peer_message_def fm_started_def bytes_of_numbers_def del: benc.simps)
  moreover obtain w' where w': "bufio_flush put w = (None, w')" "failed w' = None"
    using bufio_flush_reliable [OF put Cons.prems(5)] by blast
  ultimately have step: "fetch_loop bencode_env sha1 put ctx k j r (fm_started n) st w =
      (if {..<length ps} \<subseteq> insert i C then (Inr (concat ps), w', ?r)
       else fetch_loop bencode_env sha1 put ctx k' (Suc j) ?r (fm_started n)
         (st(0 := collected ih ps (insert i C))) w')"
    using read ctx
    by (simp add: k peer_piece_def collected_done [OF ps(1)] collected_meta hash del: benc.simps)
  show ?case
  proof (cases "{..<length ps} \<subseteq> insert i C")
    case False
    then show ?thesis
      unfolding step using Cons.prems w' k by (simp add: Cons.IH [of "insert i C"])
  qed (simp add: step)
qed

section \<open>The whole call\<close>

lemma WriteHandshake_reliable:
  assumes "reliable put"
  shows "\<exists>st w. WriteHandshake E (fm_extension E (fm_writer put)) (fm_writer put)
      (RegistExt (NewExtProtocol []) 0) (\<lambda>p. NewFetchMetaExt ih) (bufio_new w0) = (None, st, w) \<and>
    failed w = None \<and> fm_infoHash (st 0) = ih"
proof -
  let ?hs = "[(''m'', VIface (Some (TMap TString (TInt 64), VMap (Some [(''ut_metadata'', VInt 1)]))))]"
  have "good E (TMap TString TIface) (VMap (Some ?hs))" by (simp add: good_def)
  then obtain b where b: "Marshal E (Some (TMap TString TIface, VMap (Some ?hs))) = (b, None)"
    using Marshal_to_bval by blast
  obtain w where "SendBytes (fm_writer put) \<lparr>sender_id = 0, sender_w = bufio_new w0\<rparr> b = (None, w)" "failed w = None"
    using SendBytes_reliable [OF assms, of "\<lparr>sender_id = 0, sender_w = bufio_new w0\<rparr>" b]
    by (auto simp: bufio_new_def)
  then show ?thesis
    using b by (simp add: WriteHandshake_def RegistExt_def NewExtProtocol_def fm_BeforeHandshake_def fm_MapKey_def
        Put_def NewFetchMetaExt_def)
qed

lemma fetch_from_honest:
  assumes put: "reliable put" and ctx: "\<forall>i. ctx i = None" and n: "0 < n" "n < 256"
    and ps: "\<forall>p \<in> set ps. p \<noteq> []" and msize: "0 < msize" "msize < 2 ^ 63" "getPiecesNum msize = int (length ps)"
    and hash: "sha1 (concat ps) = ih" and fits: "\<forall>i < length ps. length (peer_piece ps i) \<le> 99999"
    and hello: "length (peer_hello n msize) \<le> 99999"
    and order: "set js = {..<length ps}"
    and inp: "avail (conn_in (conn s)) =
      message (peer_hello n msize) @ concat (map (\<lambda>i. message (peer_piece ps i)) js) @ rest"
  shows "fst (fetch_from bencode_env sha1 put ctx ih s) = Inr (concat ps)"
proof -
  let ?X = "fm_extension bencode_env (fm_writer put)"
  let ?proto = "RegistExt (NewExtProtocol []) 0"
  let ?r = "conn_in (conn s)"
  let ?r1 = "?r\<lparr>avail := concat (map (\<lambda>i. message (peer_piece ps i)) js) @ rest\<rparr>"
  obtain st w where wh: "WriteHandshake bencode_env ?X (fm_writer put) ?proto (\<lambda>p. NewFetchMetaExt ih)
      (bufio_new (conn_out (conn s))) = (None, st, w)" "failed w = None" "fm_infoHash (st 0) = ih"
    using WriteHandshake_reliable [OF put] by blast
  obtain w1 where w1: "bufio_flush put w = (None, w1)" "failed w1 = None"
    using bufio_flush_reliable [OF put wh(2)] by blast
  have bounds: "0 < length ps" "length ps < 2 ^ 63"
    using getPiecesNum_bounds [OF msize(1)] msize by auto
  have some: "{..<length ps} \<noteq> {}" using bounds(1) by auto
  have num: "nat (getPiecesNum msize) = length ps" using msize(3) by simp
  obtain st2 w2 where hs: "peer_handshake bencode_env ?X ?proto st (benc (BDict (hello_dict n msize))) w1 =
      (None, fm_started n, st2, w2)" "failed w2 = None" "st2 0 = collected ih ps {}"
    using hello_effect [where st = st, OF put w1(2) n msize(1,2) num wh(3)] by blast
  obtain w3 where w3: "bufio_flush put w2 = (None, w3)" "failed w3 = None"
    using bufio_flush_reliable [OF put hs(2)] by blast
  have read: "ReadMessageWithLimit ?r 99999 = (Some (peer_hello n msize), None, ?r1)"
    using inp hello by (intro read_peer) simp_all
  have "length js \<le> length (avail ?r1)"
  proof (induction js)
    case (Cons i js)
    then show ?case by (simp add: message_def)
  qed simp
  also have "\<dots> < length (avail ?r)" by (simp add: inp message_def)
  finally have fuel: "length js < length (avail ?r)" .
  have start: "fetch_from bencode_env sha1 put ctx ih s =
      fetch_loop bencode_env sha1 put ctx (length (avail ?r)) (Suc 0) ?r1 (fm_started n) st2 w3"
    using wh(1) w1(1) read ctx hs(1,3) w3(1) some
    by (simp add: fetch_from_def Let_def peer_hello_def HandlePayload_def collected_done [OF ps] del: benc.simps)
  show ?thesis
    unfolding start
    by (rule fetch_pieces [where ?sha1.0 = sha1 and js = js and C = "{}" and rest = rest, OF put ctx n ps bounds(2) hash fits])
      (use order bounds fuel w3(2) hs(3) in auto)
qed

lemma FetchMetadata_honest:
  assumes put: "reliable put" and ctx: "\<forall>i. ctx i = None" and n: "0 < n" "n < 256"
    and ps: "\<forall>p \<in> set ps. p \<noteq> []" and msize: "0 < msize" "msize < 2 ^ 63" "getPiecesNum msize = int (length ps)"
    and hash: "sha1 (concat ps) = ih" and fits: "\<forall>i < length ps. length (peer_piece ps i) \<le> 99999"
    and hello: "length (peer_hello n msize) \<le> 99999"
    and order: "set js = {..<length ps}"
    and ids: "length ih = 20" "length pid = 20" and bits: "CheckExtReserved res"
    and inp: "avail (conn_in c) = greeting ih pid res @ message (peer_hello n msize) @
      concat (map (\<lambda>i. message (peer_piece ps i)) js) @ rest"
  shows "fst (FetchMetadata bencode_env sha1 put ctx ih (Inr c) rand_id) = Inr (concat ps)"
proof -
  let ?c = "new_stream c"
  obtain w where w: "put (conn_out (conn ?c)) (greeting ih rand_id (SetExtReserved 0)) = (None, w)"
    using reliable_put [OF put] by blast
  have "avail (conn_in (conn ?c)) = greeting ih pid res @ message (peer_hello n msize) @
      concat (map (\<lambda>i. message (peer_piece ps i)) js) @ rest"
    using inp by (simp add: new_stream_def)
  from handshake_greeting [where put = put and s = ?c, OF ids this w]
  obtain s where s: "DialUseTCP put (Inr c) ih rand_id (SetExtReserved 0) = (None, Some s)"
      "infoHash s = ih" "reserved s = res"
      "avail (conn_in (conn s)) = message (peer_hello n msize) @ concat (map (\<lambda>i. message (peer_piece ps i)) js) @ rest"
    by (auto simp: DialUseTCP_def)
  show ?thesis
    using fetch_from_honest [where ?sha1.0 = sha1, OF put ctx n ps msize hash fits hello order s(4)] s(1-3) bits
    by (simp add: FetchMetadata_def split_beta)
qed

end
