(* ===== verification/Bt_Fetch_Ends.thy ===== *)
theory Bt_Fetch_Ends
  imports Bt_Fetch_Spec
begin

text \<open>
  How the loop of \<open>FetchMetadata\<close> ends: by its context, on a stream of any length, and by what a peer
  sends that it cannot use.
\<close>

section \<open>The context\<close>

text \<open>A context that is done at its look \<open>k\<close> leaves the loop no more than \<open>k\<close> rounds, whatever arrives.\<close>

lemma fetch_loop_context:
  assumes "env_total E" and "ctx k \<noteq> None"
  shows "i \<le> k \<Longrightarrow> k < i + n \<Longrightarrow> fst (fetch_loop E sha1 put ctx n i r proto st w) \<noteq> Inl OutOfFuel"
proof (induction n arbitrary: i r proto st w)
  case (Suc n)
  show ?case
  proof (cases "ctx i")
    case None
    then have "i \<noteq> k" using assms(2) by auto
    then have "fst (fetch_loop E sha1 put ctx n (Suc i) r1 proto1 st1 w1) \<noteq> Inl OutOfFuel" for r1 proto1 st1 w1
      using Suc by simp
    moreover have "e \<noteq> OutOfFuel" if "HandlePayload E (fm_extension E (fm_writer put)) proto st b w = (Some e, c)" for b e c
      using ending.payload_ends [OF fm_ending [OF assms(1)] assms(1), of "fm_writer put" proto st b w] that by simp
    ultimately show ?thesis
      by (auto split: option.split prod.split list.split sum.split)
  qed simp
qed simp

text \<open>
  While the context is not done, keep-alives keep the loop going, one round each; when it is, its error is
  what the call returns.
\<close>

lemma fetch_loop_keepalive:
  assumes "ctx i = None" and "avail r = message [] @ rest"
  shows "fetch_loop E sha1 put ctx (Suc n) i r proto st w = fetch_loop E sha1 put ctx n (Suc i) (r\<lparr>avail := rest\<rparr>) proto st w"
  using assms read_peer [of "[]" r rest] by simp

lemma fetch_loop_keepalives:
  "\<forall>j. i \<le> j \<and> j < i + n \<longrightarrow> ctx j = None \<Longrightarrow> avail r = concat (replicate n (message [])) @ rest \<Longrightarrow>
    fetch_loop E sha1 put ctx (n + m) i r proto st w = fetch_loop E sha1 put ctx m (i + n) (r\<lparr>avail := rest\<rparr>) proto st w"
proof (induction n arbitrary: i r)
  case (Suc n)
  have "fetch_loop E sha1 put ctx (Suc (n + m)) i r proto st w =
      fetch_loop E sha1 put ctx (n + m) (Suc i) (r\<lparr>avail := concat (replicate n (message [])) @ rest\<rparr>) proto st w"
    using Suc.prems by (intro fetch_loop_keepalive) simp_all
  then show ?case using Suc.IH [of "Suc i"] Suc.prems(1) by simp
qed auto

lemma keepalives_end:
  assumes "\<forall>i<n. ctx i = None"
  shows "fst (fetch_loop E sha1 put ctx n 0 \<lparr>avail = concat (replicate n (message [])) @ rest, closing = e\<rparr> proto st w) =
      Inl OutOfFuel"
    and "ctx n = Some done \<Longrightarrow>
      fst (fetch_loop E sha1 put ctx (Suc n) 0 \<lparr>avail = concat (replicate n (message [])) @ rest, closing = e\<rparr> proto st w) =
      Inl (Err done)"
  using fetch_loop_keepalives [of 0 n ctx "\<lparr>avail = concat (replicate n (message [])) @ rest, closing = e\<rparr>" rest E sha1 put 0]
    fetch_loop_keepalives [of 0 n ctx "\<lparr>avail = concat (replicate n (message [])) @ rest, closing = e\<rparr>" rest E sha1 put 1] assms
  by simp_all

section \<open>Endless streams\<close>

text \<open>
  A round reads at most the four bytes of a length and 99999 bytes of a message, so what the first \<open>n\<close>
  rounds do on a stream depends on its first \<open>n * 100003\<close> bytes only. An endless stream is given by its
  bytes, of which ever more may have been looked at.
\<close>

definition after_read :: "bytes \<Rightarrow> source \<Rightarrow> source \<Rightarrow> bool" where
  "after_read p r r' \<longleftrightarrow> (\<exists>s s' e. r = \<lparr>avail = p @ s, closing = e\<rparr> \<and> r' = \<lparr>avail = p @ s', closing = e\<rparr>)"

lemma read_full_prefix:
  assumes "after_read p r r'" and "n \<le> length p"
  shows "\<exists>b r1 r1'. read_full n r = (b, None, r1) \<and> read_full n r' = (b, None, r1') \<and> after_read (drop n p) r1 r1'"
  using assms by (auto simp: after_read_def read_full_def read_off_def)

lemma ReadMessageWithLimit_prefix:
  assumes "after_read p r r'" and "unat limit + 4 \<le> length p"
  shows "\<exists>m e q r1 r1'. ReadMessageWithLimit r limit = (m, e, r1) \<and> ReadMessageWithLimit r' limit = (m, e, r1') \<and>
    after_read q r1 r1' \<and> length p \<le> length q + (unat limit + 4)"
proof -
  obtain b r1 r1' where four: "read_full 4 r = (b, None, r1)" "read_full 4 r' = (b, None, r1')" "after_read (drop 4 p) r1 r1'"
    using read_full_prefix [OF assms(1), of 4] assms(2) by auto
  define len :: "32 word" where "len = word_of_nat (get_be b)"
  show ?thesis
  proof (cases "len > limit")
    case True
    then show ?thesis
      using four unfolding len_def by (intro exI [of _ None] exI [of _ "Some (too_large len)"] exI [of _ "drop 4 p"])
        (simp add: ReadMessageWithLimit_def read_uint32_def len_def)
  next
    case False
    then have le: "unat len \<le> unat limit" by (simp add: not_less word_le_nat_alt)
    then have fits: "unat len \<le> length (drop 4 p)" using assms(2) by simp
    obtain b2 r2 r2' where "read_full (unat len) r1 = (b2, None, r2)" "read_full (unat len) r1' = (b2, None, r2')"
        "after_read (drop (unat len) (drop 4 p)) r2 r2'"
      using read_full_prefix [OF four(3), of "unat len", OF fits] by blast
    then show ?thesis
      using four False le by (intro exI [of _ "Some b2"] exI [of _ None] exI [of _ "drop (unat len) (drop 4 p)"])
        (simp add: ReadMessageWithLimit_def read_uint32_def len_def)
  qed
qed

lemma fetch_loop_prefix:
  "after_read p r r' \<Longrightarrow> n * 100003 \<le> length p \<Longrightarrow>
    fst (fetch_loop E sha1 put ctx n i r proto st w) = fst (fetch_loop E sha1 put ctx n i r' proto st w)"
proof (induction n arbitrary: i p r r' proto st w)
  case (Suc n)
  obtain m e q r1 r1' where read: "ReadMessageWithLimit r 99999 = (m, e, r1)" "ReadMessageWithLimit r' 99999 = (m, e, r1')"
      "after_read q r1 r1'" "length p \<le> length q + 100003"
    using ReadMessageWithLimit_prefix [OF Suc.prems(1), of 99999] Suc.prems(2) by auto
  have "fst (fetch_loop E sha1 put ctx n (Suc i) r1 proto1 st1 w1) = fst (fetch_loop E sha1 put ctx n (Suc i) r1' proto1 st1 w1)"
    for proto1 st1 w1
    using Suc.IH [OF read(3)] Suc.prems(2) read(4) by simp
  then show ?case
    using read(1,2) by (simp split: option.split prod.split list.split sum.split)
qed simp

definition so_far :: "(nat \<Rightarrow> byte) \<Rightarrow> nat \<Rightarrow> gerror \<Rightarrow> source" where
  "so_far inp n e = \<lparr>avail = map inp [0..<n], closing = e\<rparr>"

lemma so_far_after: "n \<le> m \<Longrightarrow> after_read (map inp [0..<n]) (so_far inp m e) (so_far inp n e)"
  unfolding after_read_def so_far_def
  by (intro exI [of _ "map inp [n..<m]"] exI [of _ "[]"] exI [of _ e])
    (use upt_add_eq_append [of 0 n "m - n"] in \<open>simp flip: map_append\<close>)

lemma fetch_loop_endless:
  assumes "env_total E" and "ctx k \<noteq> None" and "Suc k * 100003 \<le> n"
  shows "fst (fetch_loop E sha1 put ctx (Suc k) 0 (so_far inp n e) proto st w) =
      fst (fetch_loop E sha1 put ctx (Suc k) 0 (so_far inp (Suc k * 100003) e) proto st w)"
    and "fst (fetch_loop E sha1 put ctx (Suc k) 0 (so_far inp n e) proto st w) \<noteq> Inl OutOfFuel"
  by (rule fetch_loop_prefix [OF so_far_after [OF assms(3)]], simp)
    (rule fetch_loop_context [where k = k and ctx = ctx]; simp add: assms(1,2))

section \<open>Peers that are of no use\<close>

text \<open>A call that meets a peer with the right greeting, and then these messages.\<close>

definition meeting :: "(bytes \<Rightarrow> bytes) \<Rightarrow> 'w put \<Rightarrow> (nat \<Rightarrow> gerror option) \<Rightarrow> bytes \<Rightarrow> 'w \<Rightarrow> bytes \<Rightarrow> 64 word \<Rightarrow> bytes \<Rightarrow>
    bytes list \<Rightarrow> bytes \<Rightarrow> abort + bytes" where
  "meeting sha1 put ctx ih out pid res rand_id bodies rest =
     fst (FetchMetadata bencode_env sha1 put ctx ih (Inr \<lparr>conn_out = out,
       conn_in = \<lparr>avail = greeting ih pid res @ concat (map message bodies) @ rest, closing = EOF\<rparr>, closed = False\<rparr>) rand_id)"

abbreviation fm_center :: ExtProtocol where
  "fm_center \<equiv> RegistExt (NewExtProtocol []) 0"

lemma fetch_loop_start:
  assumes put: "reliable put" and ids: "length ih = 20" "length pid = 20" and bits: "CheckExtReserved res"
  shows "\<exists>n st w. meeting sha1 put ctx ih out pid res rand_id bodies rest =
      fst (fetch_loop bencode_env sha1 put ctx (Suc n) 0 \<lparr>avail = concat (map message bodies) @ rest, closing = EOF\<rparr>
        fm_center st w) \<and>
    length bodies \<le> n \<and> failed w = None \<and> fm_infoHash (st 0) = ih"
proof -
  let ?r = "\<lparr>avail = concat (map message bodies) @ rest, closing = EOF\<rparr>"
  let ?c = "\<lparr>conn_out = out, conn_in = \<lparr>avail = greeting ih pid res @ concat (map message bodies) @ rest, closing = EOF\<rparr>, closed = False\<rparr>"
  obtain w0 where w0: "put (conn_out (conn (new_stream ?c))) (greeting ih rand_id (SetExtReserved 0)) = (None, w0)"
    using reliable_put [OF put] by blast
  have "avail (conn_in (conn (new_stream ?c))) = greeting ih pid res @ concat (map message bodies) @ rest"
    by (simp add: new_stream_def)
  from handshake_greeting [where put = put and s = "new_stream ?c", OF ids this w0]
  obtain s where s: "DialUseTCP put (Inr ?c) ih rand_id (SetExtReserved 0) = (None, Some s)"
      "infoHash s = ih" "reserved s = res" "conn_in (conn s) = ?r"
    by (auto simp: DialUseTCP_def new_stream_def)
  obtain st w where wh: "WriteHandshake bencode_env (fm_extension bencode_env (fm_writer put)) (fm_writer put) fm_center
      (\<lambda>p. NewFetchMetaExt ih) (bufio_new (conn_out (conn s))) = (None, st, w)" "failed w = None" "fm_infoHash (st 0) = ih"
    using WriteHandshake_reliable [OF put] by blast
  obtain w1 where w1: "bufio_flush put w = (None, w1)" "failed w1 = None"
    using bufio_flush_reliable [OF put wh(2)] by blast
  have "length bodies \<le> length (concat (map message bodies))"
    by (induction bodies) (simp_all add: message_def)
  then have "length bodies \<le> length (avail ?r)" by simp
  moreover have "meeting sha1 put ctx ih out pid res rand_id bodies rest =
      fst (fetch_loop bencode_env sha1 put ctx (Suc (length (avail ?r))) 0 ?r fm_center st w1)"
    using s wh(1) w1(1) bits
    by (simp add: meeting_def FetchMetadata_def fetch_from_def Let_def split_beta del: fetch_loop.simps)
  ultimately show ?thesis using w1(2) wh(3) by blast
qed

text \<open>One round with a message for the center.\<close>

lemma fetch_round:
  assumes "ctx i = None" and "length payload < 99999"
    and "avail r = message (ExtID # payload) @ rest"
  shows "fetch_loop E sha1 put ctx (Suc n) i r proto st w =
    (case HandlePayload E (fm_extension E (fm_writer put)) proto st payload w of
       (Some e, proto1, st1, w1) \<Rightarrow> (Inl e, w1, r\<lparr>avail := rest\<rparr>)
     | (None, proto1, st1, w1) \<Rightarrow>
         (case bufio_flush put w1 of
            (Some e, w2) \<Rightarrow> (Inl (Err e), w2, r\<lparr>avail := rest\<rparr>)
          | (None, w2) \<Rightarrow>
              (if \<not> IsSupoort (st1 0)
               then (Inl (Err (OtherError ''not support Extension for Peers to Send Metadata Files'')), w2, r\<lparr>avail := rest\<rparr>)
               else if CheckDone (st1 0)
               then (case FetchRawMeta sha1 (st1 0) of
                       Inr meta \<Rightarrow> (Inr meta, w2, r\<lparr>avail := rest\<rparr>)
                     | Inl e \<Rightarrow> fetch_loop E sha1 put ctx n (Suc i) (r\<lparr>avail := rest\<rparr>) proto1 st1 w2)
               else fetch_loop E sha1 put ctx n (Suc i) (r\<lparr>avail := rest\<rparr>) proto1 st1 w2)))"
  using assms read_peer [of "ExtID # payload" r rest] by simp

lemma fetch_fails:
  assumes "HandlePayload E (fm_extension E (fm_writer put)) proto st payload w = (Some e, c)"
    and "ctx i = None" and "length payload < 99999" and "avail r = message (ExtID # payload) @ rest"
  shows "fst (fetch_loop E sha1 put ctx (Suc n) i r proto st w) = Inl e"
proof -
  obtain proto1 st1 w1 where "c = (proto1, st1, w1)" using prod_cases3 by blast
  then show ?thesis
    using assms(1)
    by (subst fetch_round [where payload = payload and rest = rest])
      (simp_all only: assms(2-4) option.case prod.case fst_conv)
qed

lemma first_message_fails:
  assumes put: "reliable put" and ids: "length ih = 20" "length pid = 20" and bits: "CheckExtReserved res"
    and ctx: "ctx 0 = None" and len: "length payload < 99999"
    and fails: "\<And>st (w :: 'w bufio). \<exists>c. HandlePayload bencode_env (fm_extension bencode_env (fm_writer put)) fm_center st payload w = (Some e, c)"
  shows "meeting sha1 (put :: 'w put) ctx ih out pid res rand_id [ExtID # payload] rest = Inl e"
proof -
  obtain n st w where start: "meeting sha1 put ctx ih out pid res rand_id [ExtID # payload] rest =
      fst (fetch_loop bencode_env sha1 put ctx (Suc n) 0 \<lparr>avail = concat (map message [ExtID # payload]) @ rest, closing = EOF\<rparr>
        fm_center st w)"
    using fetch_loop_start [OF put ids bits] by blast
  obtain c where "HandlePayload bencode_env (fm_extension bencode_env (fm_writer put)) fm_center st payload w = (Some e, c)"
    using fails [of st w] by blast
  then show ?thesis
    unfolding start by (rule fetch_fails [where rest = rest]) (use ctx len in simp_all)
qed

text \<open>After a proper handshake.\<close>

lemma second_message_fails:
  assumes put: "reliable put" and ids: "length ih = 20" "length pid = 20" and bits: "CheckExtReserved res"
    and ctx: "\<forall>i. ctx i = None" and len: "length payload < 99999"
    and n: "0 < n" "n < 256" and msize: "0 < msize" "msize < 2 ^ 63" and hello: "length (peer_hello n msize) \<le> 99999"
    and fails: "\<And>st (w :: 'w bufio). st 0 = collected ih (replicate (nat (getPiecesNum msize)) []) {} \<Longrightarrow>
      \<exists>c. HandlePayload bencode_env (fm_extension bencode_env (fm_writer put)) (fm_started n) st payload w = (Some e, c)"
  shows "meeting sha1 (put :: 'w put) ctx ih out pid res rand_id [peer_hello n msize, ExtID # payload] rest = Inl e"
proof -
  let ?X = "fm_extension bencode_env (fm_writer put)"
  let ?bodies = "[peer_hello n msize, ExtID # payload]"
  let ?ps = "replicate (nat (getPiecesNum msize)) ([] :: bytes)"
  obtain m st w where start: "meeting sha1 put ctx ih out pid res rand_id ?bodies rest =
      fst (fetch_loop bencode_env sha1 put ctx (Suc m) 0 \<lparr>avail = concat (map message ?bodies) @ rest, closing = EOF\<rparr>
        fm_center st w)" "length ?bodies \<le> m" "failed w = None" "fm_infoHash (st 0) = ih"
    using fetch_loop_start [OF put ids bits] by blast
  then obtain m' where m: "m = Suc m'" by (cases m) auto
  obtain st1 w1 where hs: "peer_handshake bencode_env ?X fm_center st (benc (BDict (hello_dict n msize))) w = (None, fm_started n, st1, w1)"
      "failed w1 = None" "st1 0 = collected ih ?ps {}"
    using hello_effect [where st = st and ps = ?ps, OF put start(3) n msize _ start(4)] by auto
  obtain w2 where w2: "bufio_flush put w1 = (None, w2)"
    using bufio_flush_reliable [OF put hs(2)] by blast
  have "0 < nat (getPiecesNum msize)" using getPiecesNum_bounds [OF msize(1)] by simp
  then have open_pieces: "\<not> CheckDone (st1 0)"
    by (force simp: hs(3) CheckDone_def collected_def list_all_iff simp del: zero_less_nat_eq)
  let ?r = "\<lparr>avail = concat (map message ?bodies) @ rest, closing = EOF\<rparr>"
  obtain c where second: "HandlePayload bencode_env ?X (fm_started n) st1 payload w2 = (Some e, c)"
    using fails [where st = st1 and w = w2] hs(3) by blast
  have "fst (fetch_loop bencode_env sha1 put ctx (Suc m) 0 ?r fm_center st w) =
      fst (fetch_loop bencode_env sha1 put ctx m (Suc 0) (?r\<lparr>avail := message (ExtID # payload) @ rest\<rparr>) (fm_started n) st1 w2)"
    using hello hs w2 open_pieces ctx
    by (subst fetch_round [where rest = "message (ExtID # payload) @ rest" and payload = "CHR 0x00 # benc (BDict (hello_dict n msize))"])
      (simp_all add: peer_hello_def HandlePayload_def del: benc.simps fetch_loop.simps)
  also have "\<dots> = Inl e"
    unfolding m by (rule fetch_fails [where rest = rest, OF second]) (use ctx len in simp_all)
  finally show ?thesis unfolding start(1) .
qed

text \<open>What the center makes of each.\<close>

lemma fresh_center: "exts fm_center = [Some 0]" "ids fm_center = []"
  by (simp_all add: RegistExt_def NewExtProtocol_def)

lemma payload_empty: "HandlePayload E X proto st [] w = (Some out_of_range, proto, st, w)"
  by (simp add: HandlePayload_def)

lemma payload_early:
  "b0 \<noteq> CHR 0x00 \<Longrightarrow> HandlePayload E X fm_center st (b0 # content) w =
    (Some (Err (OtherError ''have not handshake'')), fm_center, st, w)"
  by (simp add: HandlePayload_def peer_message_def fresh_center)

text \<open>A handshake that offers the extension with a number, but no size there could be.\<close>

lemma payload_size:
  assumes "bval_ok (BDict kvs)" and "map_of kvs ''m'' = Some (numbers ms)" and "\<forall>(k, n) \<in> set ms. 0 \<le> n"
    and "map_of ms ''ut_metadata'' = Some n" "0 < n" "n < 256"
    and "map_of kvs ''metadata_size'' = map_option BInt msize" and "pred_option (\<lambda>k. k \<le> 0) msize"
  shows "\<exists>c. HandlePayload bencode_env (fm_extension bencode_env wr) fm_center st (CHR 0x00 # benc (BDict kvs)) w =
    (Some (Err (OtherError (if msize = None then ''don't known metadata size'' else ''wrong size''))), c)"
proof -
  let ?hs = "map (\<lambda>(k, b). (k, benc b)) kvs"
  have "map_of (bytes_of_numbers ms) ''ut_metadata'' = Some (word_of_int n)"
    using assms(4) by (simp add: bytes_of_numbers_def map_of_map)
  moreover have "(word_of_int n :: 8 word) \<noteq> 0"
    using assms(5,6) by (auto simp: word_of_int_eq_0_iff dest: zdvd_imp_le)
  moreover have "fst (fm_AfterHandshake bencode_env wr x ?hs s) =
      Some (Err (OtherError (if msize = None then ''don't known metadata size'' else ''wrong size'')))" for x s
  proof (cases msize)
    case None
    then have "map_of ?hs ''metadata_size'' = None" using assms(7) by (induction kvs) auto
    then show ?thesis using None by (simp add: fm_AfterHandshake_def Get_def)
  next
    case (Some k)
    have kvs: "map_of kvs ''metadata_size'' = Some (BInt k)" using assms(7) Some by simp
    then have "bval_ok (BInt k)" using assms(1) by (auto simp: list_all_iff dest: map_of_SomeD)
    then have "assign bencode_env (BInt k) (TInt 64) (VInt 0) = Some (VInt k)"
      by (simp add: signed_take_bit_int_eq_self del: assign.simps)
    from Get_benc [OF bencode_env_ok(2) kvs \<open>bval_ok (BInt k)\<close> _ _ this]
    show ?thesis using Some assms(8) by (simp add: fm_AfterHandshake_def)
  qed
  ultimately show ?thesis
    using peer_handshake_benc [OF assms(1-3), of fm_center "fm_extension bencode_env wr" st w]
    by (simp add: HandlePayload_def fresh_center fm_MapKey_def split_beta del: benc.simps split: option.split)
qed

lemma one_char: "byte_of 1 = CHR 0x01"
  by code_simp

lemma payload_started:
  assumes "b0 \<noteq> CHR 0x00"
  shows "HandlePayload bencode_env (fm_extension bencode_env wr) (fm_started n) st (b0 # content) w =
    (if b0 = CHR 0x01
     then (case fm_HandleMessage bencode_env (st 0) content \<lparr>sender_id = word_of_int n, sender_w = w\<rparr> of
             (r, x, w1) \<Rightarrow> (r, fm_started n, st(0 := x), w1))
     else (Some unknown_ext, fm_started n, st, w))"
proof -
  have "unat (u8 b0 - 1) = 0 \<longleftrightarrow> b0 = CHR 0x01"
  proof
    assume "unat (u8 b0 - 1) = 0"
    then have "u8 b0 = 1" by (simp add: unat_eq_0)
    then show "b0 = CHR 0x01" by (metis byte_of_u8 one_char)
  qed (simp add: u8_def)
  then show ?thesis
    using assms by (auto simp: HandlePayload_def peer_message_def fm_started_def bytes_of_numbers_def fm_MapKey_def)
qed

lemma message_decoded:
  assumes "- (2 ^ 63) \<le> i" "i < 2 ^ 63" and "- (2 ^ 63) \<le> m" "m < 2 ^ 63"
  shows "decodeInto bencode_env int_map (VMap None) (newDecoder (benc (BDict [(''msg_type'', BInt m), (''piece'', BInt i)]) @ data)) =
    (None, VMap (Some [(''msg_type'', VInt m), (''piece'', VInt i)]),
     took (benc (BDict [(''msg_type'', BInt m), (''piece'', BInt i)])) (newDecoder (benc (BDict [(''msg_type'', BInt m), (''piece'', BInt i)]) @ data)))"
proof -
  let ?kvs = "[(''msg_type'', BInt m), (''piece'', BInt i)]"
  let ?g = "\<lambda>b. case b of BInt n \<Rightarrow> VInt n | _ \<Rightarrow> VInt 0"
  have ok: "bval_ok (BDict ?kvs)" using assms by (simp add: len_ok_def)
  have "assign bencode_env (BDict ?kvs) int_map (VMap None) = Some (VMap (Some (map (\<lambda>(k, b). (k, ?g b)) ?kvs)))"
    unfolding int_map_def using assms
    by (intro assign_map) (simp_all add: signed_take_bit_int_eq_self del: assign.simps)
  then show ?thesis
    using decodeInto_assign [OF bencode_env_ok(2) ok, of "newDecoder (benc (BDict ?kvs) @ data)" data int_map "VMap None"]
    by (simp add: implements_def newDecoder_def quiet_def int_map_def del: benc.simps assign.simps)
qed

lemma message_refused:
  assumes "- (2 ^ 63) \<le> i" "i < 2 ^ 63"
  shows "fm_HandleMessage bencode_env fm (benc (BDict [(''msg_type'', BInt 2), (''piece'', BInt i)]) @ data) s =
      (Some (Err (OtherError ''peer reject out request'')), fm, sender_w s)"
    and "i < 0 \<or> int (length (pieces fm)) \<le> i \<Longrightarrow>
      fm_HandleMessage bencode_env fm (benc (BDict [(''msg_type'', BInt 1), (''piece'', BInt i)]) @ data) s =
      (Some out_of_range, fm, sender_w s)"
  using assms
  by (auto simp: fm_HandleMessage_def message_decoded int_entry_def reject_def data_msg_def Let_def simp del: benc.simps)

text \<open>A handshake that leaves the extension out, or gives it the number 0.\<close>

lemma unsupported_peer:
  assumes put: "reliable put" and ids: "length ih = 20" "length pid = 20" and bits: "CheckExtReserved res"
    and ctx: "ctx 0 = None" and len: "length (benc (BDict kvs)) < 99998"
    and dict: "bval_ok (BDict kvs)" "map_of kvs ''m'' = Some (numbers ms)" "\<forall>(k, n) \<in> set ms. 0 \<le> n"
    and none: "map_of ms ''ut_metadata'' \<in> {None, Some 0}"
  shows "meeting sha1 put ctx ih out pid res rand_id [ExtID # CHR 0x00 # benc (BDict kvs)] rest =
    Inl (Err (OtherError ''not support Extension for Peers to Send Metadata Files''))"
proof -
  let ?X = "fm_extension bencode_env (fm_writer put)"
  let ?payload = "CHR 0x00 # benc (BDict kvs)"
  obtain n st w where start: "meeting sha1 put ctx ih out pid res rand_id [ExtID # ?payload] rest =
      fst (fetch_loop bencode_env sha1 put ctx (Suc n) 0 \<lparr>avail = concat (map message [ExtID # ?payload]) @ rest, closing = EOF\<rparr>
        fm_center st w)" "failed w = None"
    using fetch_loop_start [OF put ids bits] by blast
  have "map_of (bytes_of_numbers ms) ''ut_metadata'' \<in> {None, Some 0}"
    using none by (auto simp: bytes_of_numbers_def map_of_map)
  then have hp: "\<exists>proto1. HandlePayload bencode_env ?X fm_center st ?payload w = (None, proto1, st(0 := fm_Unsupport (st 0)), w)"
    using peer_handshake_benc [OF dict, of fm_center ?X st w]
    by (auto simp: HandlePayload_def fresh_center fm_MapKey_def simp del: benc.simps)
  obtain w1 where w1: "bufio_flush put w = (None, w1)"
    using bufio_flush_reliable [OF put start(2)] by blast
  show ?thesis
    unfolding start(1) using hp
    by (subst fetch_round [where payload = ?payload and rest = rest])
      (use ctx len w1 in \<open>auto simp: IsSupoort_def fm_Unsupport_def simp del: benc.simps\<close>)
qed

section \<open>The refusals, one by one\<close>

text \<open>A call whose peer greets as it should.\<close>

definition greeted :: "'w put \<Rightarrow> (nat \<Rightarrow> gerror option) \<Rightarrow> bytes \<Rightarrow> bytes \<Rightarrow> 64 word \<Rightarrow> bool" where
  "greeted put ctx ih pid res \<longleftrightarrow>
     reliable put \<and> (\<forall>i. ctx i = None) \<and> length ih = 20 \<and> length pid = 20 \<and> CheckExtReserved res"

lemma greeted_first:
  assumes "greeted put ctx ih pid res" and "length payload < 99999"
    and "\<And>st w. \<exists>c. HandlePayload bencode_env (fm_extension bencode_env (fm_writer put)) fm_center st payload w = (Some e, c)"
  shows "meeting sha1 put ctx ih out pid res rand_id [ExtID # payload] rest = Inl e"
  using assms by (intro first_message_fails) (simp_all add: greeted_def)

lemma greeted_second:
  assumes "greeted put ctx ih pid res" and "length payload < 99999"
    and "0 < n" "n < 256" and "0 < msize" "msize < 2 ^ 63" and "length (peer_hello n msize) \<le> 99999"
    and "\<And>st w. st 0 = collected ih (replicate (nat (getPiecesNum msize)) []) {} \<Longrightarrow>
      \<exists>c. HandlePayload bencode_env (fm_extension bencode_env (fm_writer put)) (fm_started n) st payload w = (Some e, c)"
  shows "meeting sha1 put ctx ih out pid res rand_id [peer_hello n msize, ExtID # payload] rest = Inl e"
  using assms by (intro second_message_fails) (simp_all add: greeted_def)

lemma early_fails:
  assumes "greeted put ctx ih pid res" and "length content < 99998" and "b0 \<noteq> CHR 0x00"
  shows "meeting sha1 put ctx ih out pid res rand_id [ExtID # b0 # content] rest = Inl (Err (OtherError ''have not handshake''))"
  using assms(2,3) by (intro greeted_first [OF assms(1)]) (simp_all add: payload_early)

lemma bare_fails:
  assumes "greeted put ctx ih pid res"
  shows "meeting sha1 put ctx ih out pid res rand_id [[ExtID]] rest = Inl (Panic ''index out of range'')"
  by (intro greeted_first [OF assms(1)]) (simp_all add: payload_empty out_of_range_def)

lemma unsupported_fails:
  assumes "greeted put ctx ih pid res" and "length (benc (BDict kvs)) < 99998"
    and "bval_ok (BDict kvs)" "map_of kvs ''m'' = Some (numbers ms)" "\<forall>(k, n) \<in> set ms. 0 \<le> n"
    and "map_of ms ''ut_metadata'' \<in> {None, Some 0}"
  shows "meeting sha1 put ctx ih out pid res rand_id [ExtID # CHR 0x00 # benc (BDict kvs)] rest =
    Inl (Err (OtherError ''not support Extension for Peers to Send Metadata Files''))"
  using assms unfolding greeted_def by (intro unsupported_peer) blast+

lemma sizeless_fails:
  assumes "greeted put ctx ih pid res" and "length (benc (BDict kvs)) < 99998"
    and "bval_ok (BDict kvs)" "map_of kvs ''m'' = Some (numbers ms)" "\<forall>(k, n) \<in> set ms. 0 \<le> n"
    and "map_of ms ''ut_metadata'' = Some n" "0 < n" "n < 256"
    and "map_of kvs ''metadata_size'' = map_option BInt named" and "pred_option (\<lambda>k. k \<le> 0) named"
  shows "meeting sha1 put ctx ih out pid res rand_id [ExtID # CHR 0x00 # benc (BDict kvs)] rest =
    Inl (Err (OtherError (if named = None then ''don't known metadata size'' else ''wrong size'')))"
  using assms(2) by (intro greeted_first [OF assms(1)] payload_size [OF assms(3-10)]) (simp del: benc.simps)

lemma unknown_fails:
  assumes "greeted put ctx ih pid res" and "length content < 99998" and "b0 \<notin> {CHR 0x00, CHR 0x01}"
    and "0 < n" "n < 256" and "0 < msize" "msize < 2 ^ 63" and "length (peer_hello n msize) \<le> 99999"
  shows "meeting sha1 put ctx ih out pid res rand_id [peer_hello n msize, ExtID # b0 # content] rest =
    Inl (Err (OtherError ''unknown this extension id''))"
  using assms(2,3) by (intro greeted_second [OF assms(1) _ assms(4-8)]) (simp_all add: payload_started unknown_ext_def)

lemma refusal_fails:
  assumes "greeted put ctx ih pid res" and "- (2 ^ 63) \<le> i" "i < 2 ^ 63"
    and "length (benc (BDict [(''msg_type'', BInt 2), (''piece'', BInt i)]) @ data) < 99998"
    and "0 < n" "n < 256" and "0 < msize" "msize < 2 ^ 63" and "length (peer_hello n msize) \<le> 99999"
  shows "meeting sha1 put ctx ih out pid res rand_id
      [peer_hello n msize, ExtID # CHR 0x01 # benc (BDict [(''msg_type'', BInt 2), (''piece'', BInt i)]) @ data] rest =
    Inl (Err (OtherError ''peer reject out request''))"
  using assms(2-4)
  by (intro greeted_second [OF assms(1) _ assms(5-9)]) (simp_all add: payload_started message_refused del: benc.simps)

lemma stray_fails:
  assumes "greeted put ctx ih pid res" and "- (2 ^ 63) \<le> i" "i < 2 ^ 63"
    and "length (benc (BDict [(''msg_type'', BInt 1), (''piece'', BInt i)]) @ data) < 99998"
    and "0 < n" "n < 256" and "0 < msize" "msize < 2 ^ 63" and "length (peer_hello n msize) \<le> 99999"
    and "i < 0 \<or> getPiecesNum msize \<le> i"
  shows "meeting sha1 put ctx ih out pid res rand_id
      [peer_hello n msize, ExtID # CHR 0x01 # benc (BDict [(''msg_type'', BInt 1), (''piece'', BInt i)]) @ data] rest =
    Inl (Panic ''index out of range'')"
proof -
  have "i < 0 \<or> int (nat (getPiecesNum msize)) \<le> i" using assms(10) getPiecesNum_bounds [OF assms(7)] by auto
  then show ?thesis
    using assms(2-4) by (intro greeted_second [OF assms(1) _ assms(5-9)])
      (simp_all add: payload_started message_refused collected_def out_of_range_def del: benc.simps)
qed

end
