(* ===== verification/Bt_Numbers.thy ===== *)
theory Bt_Numbers
  imports Bt_Handshake Bencode_Structs
begin

text \<open>
  The numbers of the extension protocol: those a center puts into its handshake are the ones the other
  side's center reads, and a message under one of them comes back to the extension it was offered for.
\<close>

section \<open>What a center offers\<close>

text \<open>An extension that adds nothing to the handshake, like the fetching of metadata.\<close>

definition adds_nothing :: "('x, 'w) Extension \<Rightarrow> bool" where
  "adds_nothing X \<longleftrightarrow> (\<forall>x hs. BeforeHandshake X x hs = (x, hs))"

primrec offered :: "('x, 'w) Extension \<Rightarrow> 'x store \<Rightarrow> nat \<Rightarrow> nat list \<Rightarrow> (bytes, int) gomap" where
  "offered X st i [] = []"
| "offered X st i (p # ps) = (MapKey X (st p), int (i + 1)) # offered X st (Suc i) ps"

abbreviation keys_of :: "('x, 'w) Extension \<Rightarrow> 'x store \<Rightarrow> nat list \<Rightarrow> bytes list" where
  "keys_of X st ps \<equiv> map (\<lambda>p. MapKey X (st p)) ps"

lemma offered_keys [simp]: "map fst (offered X st i ps) = keys_of X st ps"
  by (induction ps arbitrary: i) simp_all

lemma offered_range: "(k, n) \<in> set (offered X st i ps) \<Longrightarrow> int i < n \<and> n \<le> int (i + length ps) \<and> k \<in> set (keys_of X st ps)"
  by (induction ps arbitrary: i) force+

lemma offered_get:
  "distinct (keys_of X st ps) \<Longrightarrow> j < length ps \<Longrightarrow>
    map_of (offered X st i ps) (MapKey X (st (ps ! j))) = Some (int (i + j + 1))"
proof (induction ps arbitrary: i j)
  case (Cons p ps)
  show ?case
  proof (cases j)
    case (Suc j')
    then have "MapKey X (st (ps ! j')) \<in> set (keys_of X st ps)" using Cons.prems(2) by auto
    then have "MapKey X (st (ps ! j')) \<noteq> MapKey X (st p)" using Cons.prems(1) by auto
    then show ?thesis using Cons.IH [of j' "Suc i"] Cons.prems Suc by simp
  qed simp
qed simp

lemma offer_exts_numbers:
  assumes "adds_nothing X" and "distinct (keys_of X st ps)" and "fst ` set m \<inter> set (keys_of X st ps) = {}"
  shows "offer_exts X i (map Some ps) st hs m = (None, st, hs, m @ map (\<lambda>(k, n). (k, VInt n)) (offered X st i ps))"
  using assms(2,3)
proof (induction ps arbitrary: i m)
  case (Cons p ps)
  let ?m = "m @ [(MapKey X (st p), VInt (int (i + 1)))]"
  have "AList.update (MapKey X (st p)) (VInt (int (i + 1))) m = ?m"
    using Cons.prems(2) by (intro update_fresh) auto
  then have "offer_exts X i (map Some (p # ps)) st hs m = offer_exts X (Suc i) (map Some ps) st hs ?m"
    using assms(1) by (simp add: adds_nothing_def)
  also have "\<dots> = (None, st, hs, ?m @ map (\<lambda>(k, n). (k, VInt n)) (offered X st (Suc i) ps))"
    using Cons.prems by (intro Cons.IH) auto
  finally show ?case by simp
qed simp

section \<open>The handshake on the wire\<close>

definition handshake_dict :: "('x, 'w) Extension \<Rightarrow> 'x store \<Rightarrow> nat list \<Rightarrow> (bytes \<times> bval) list" where
  "handshake_dict X st ps = [(''m'', numbers (sort_key fst (offered X st 0 ps)))]"

lemma insort_key_map: "insort_key fst (k, f x) (map (\<lambda>(k, x). (k, f x)) ys) = map (\<lambda>(k, x). (k, f x)) (insort_key fst (k, x) ys)"
  by (induction ys) (auto split: prod.split)

lemma sort_key_map: "sort_key fst (map (\<lambda>(k, x). (k, f x)) kvs) = map (\<lambda>(k, x). (k, f x)) (sort_key fst kvs)"
  by (induction kvs) (auto simp: insort_key_map)

lemma Marshal_numbers:
  assumes "list_all (\<lambda>(k, n). - (2 ^ 63) \<le> n \<and> n < 2 ^ 63) ms" and "distinct (map fst ms)"
  shows "Marshal E (Some (TMap TString TIface, VMap (Some
      [(''m'', VIface (Some (TMap TString (TInt 64), VMap (Some (map (\<lambda>(k, n). (k, VInt n)) ms)))))]))) =
    (benc (BDict [(''m'', numbers (sort_key fst ms))]), None)"
proof -
  let ?v = "VMap (Some [(''m'', VIface (Some (TMap TString (TInt 64), VMap (Some (map (\<lambda>(k, n). (k, VInt n)) ms)))))])"
  have "good E (TMap TString TIface) ?v"
    using assms by (auto simp: good_def list_all_iff o_def split_beta)
  moreover have "to_bval (TMap TString (TInt 64)) (VMap (Some (map (\<lambda>(k, n). (k, VInt n)) ms))) =
      Some (numbers (sort_key fst ms))"
  proof -
    have "List.map_filter (\<lambda>(k, x). map_option (Pair k) (to_bval (TInt 64) x)) (map (\<lambda>(k, n). (k, VInt n)) ys) =
        map (\<lambda>(k, n). (k, BInt n)) ys" for ys :: "(bytes \<times> int) list"
      by (induction ys) (auto simp: List.map_filter_simps to_bval.simps [of "TInt 64"])
    then show ?thesis
      by (simp add: to_bval.simps [of "TMap TString (TInt 64)"] map_elems_def sort_key_map numbers_def)
  qed
  ultimately show ?thesis
    using Marshal_to_bval
    by (simp add: to_bval.simps [of "TMap TString TIface"] to_bval.simps [of TIface] map_elems_def List.map_filter_simps
        del: benc.simps)
qed

text \<open>A buffer takes an extension message as a whole.\<close>

lemma buffer_WriteExtensionMessage:
  assumes "body_ok (ExtID # byte_of ident # content)"
  shows "WriteExtensionMessage buffer_put bw w ident content = (None, w @ message (ExtID # byte_of ident # content))"
proof -
  obtain w' where w': "WriteExtensionMessage buffer_put bw w ident content = (None, w')"
    by (auto simp: WriteExtensionMessage_def buffer_put_def and_then_def)
  then show ?thesis
    using buffer.WriteExtensionMessage_sent [OF assms _ w'] by (simp add: buffer_put_def)
qed

lemma byte_of_0 [simp]: "byte_of 0 = CHR 0x00"
  by code_simp

lemma WriteHandshake_numbers:
  assumes "adds_nothing X" and "distinct (keys_of X st ps)" and "length ps < 256"
    and "exts proto = map Some ps"
    and "body_ok (ExtID # CHR 0x00 # benc (BDict (handshake_dict X st ps)))"
  shows "WriteHandshake E X \<lparr>put_bytes = buffer_put, byte_writer = bw\<rparr> proto st w =
    (None, st, w @ message (ExtID # CHR 0x00 # benc (BDict (handshake_dict X st ps))))"
proof -
  let ?b = "benc (BDict (handshake_dict X st ps))"
  have "list_all (\<lambda>(k, n). - (2 ^ 63) \<le> n \<and> n < 2 ^ 63) (offered X st 0 ps)"
    using assms(3) by (auto simp: list_all_iff dest!: offered_range)
  then have "Marshal E (Some (TMap TString TIface, VMap (Some
      [(''m'', VIface (Some (TMap TString (TInt 64), VMap (Some (map (\<lambda>(k, n). (k, VInt n)) (offered X st 0 ps))))))]))) = (?b, None)"
    unfolding handshake_dict_def using assms(2) by (intro Marshal_numbers) simp_all
  moreover have "WriteExtensionMessage buffer_put bw w 0 ?b = (None, w @ message (ExtID # CHR 0x00 # ?b))"
    using assms(5) by (simp add: buffer_WriteExtensionMessage del: benc.simps)
  ultimately show ?thesis
    using offer_exts_numbers [OF assms(1,2), of "[]" 0 "[]"] assms(4)
    by (simp add: WriteHandshake_def Put_def SendBytes_def del: benc.simps)
qed

section \<open>What the other side reads\<close>

lemma handshake_dict_ok:
  assumes "\<forall>p \<in> set ps. len_ok (MapKey X (st p))" and "distinct (keys_of X st ps)" and "length ps < 256"
  shows "bval_ok (BDict (handshake_dict X st ps))"
proof -
  have "bval_ok (numbers (offered X st 0 ps))"
    using assms by (auto simp: numbers_def o_def split_beta list_all_iff dest!: offered_range)
  then have "bval_ok (numbers (sort_key fst (offered X st 0 ps)))"
    by (simp add: numbers_def o_def split_beta distinct_sort_key list_all_iff)
  then show ?thesis by (simp add: handshake_dict_def len_ok_def)
qed

lemma map_of_sort_key: "distinct (map fst kvs) \<Longrightarrow> map_of (sort_key fst kvs) k = map_of kvs k"
  by (intro map_of_eqI [THEN fun_cong]) (auto simp: distinct_sort_key)

text \<open>The number of the \<open>j\<close>th extension, as a byte.\<close>

lemma peer_reads_numbers:
  assumes "\<forall>p \<in> set ps. len_ok (MapKey X (st p))" and "distinct (keys_of X st ps)" and "length ps < 256"
    and "ids proto' = []"
  shows "\<exists>ms. peer_handshake bencode_env X' proto' st' (benc (BDict (handshake_dict X st ps))) w =
      (case settle_exts X' ms (map (\<lambda>(k, b). (k, benc b)) (handshake_dict X st ps)) (exts proto') st' w of
         (r, es, st'', w') \<Rightarrow> (r, \<lparr>exts = es, ids = ms\<rparr>, st'', w')) \<and>
    (\<forall>j < length ps. map_of ms (MapKey X (st (ps ! j))) = Some (word_of_nat (j + 1)))"
proof -
  let ?ms = "sort_key fst (offered X st 0 ps)"
  have "map_of (bytes_of_numbers ?ms) (MapKey X (st (ps ! j))) = Some (word_of_nat (j + 1))" if "j < length ps" for j
  proof -
    have "map_of ?ms (MapKey X (st (ps ! j))) = Some (int (j + 1))"
      using map_of_sort_key [of "offered X st 0 ps"] assms(2) offered_get [OF assms(2) that, of 0] by simp
    then show ?thesis by (simp add: bytes_of_numbers_def map_of_map option.map_comp)
  qed
  moreover have "map_of (handshake_dict X st ps) ''m'' = Some (numbers ?ms)" by (simp add: handshake_dict_def)
  moreover have "\<forall>(k, n) \<in> set ?ms. 0 \<le> n" by (auto dest: offered_range)
  ultimately show ?thesis
    using peer_handshake_benc [OF handshake_dict_ok [OF assms(1-3)], of ?ms proto' X' st' w] assms(4) by blast
qed

end
