(* ===== verification/Bt_Tex.thy ===== *)
theory Bt_Tex
  imports Bt_Handshake Bencode_Structs
begin

text \<open>
  \<open>bt/tex.go\<close>: the exchange of tracker lists. SHA-1 is a parameter.
\<close>

record TexExtension =
  trlist :: "bytes list"
  tex_support :: bool
  tex_more :: bool

definition NewTexExtension :: "bytes list \<Rightarrow> TexExtension" where
  "NewTexExtension trs = \<lparr>trlist = trs, tex_support = False, tex_more = False\<rparr>"

definition tex_IsSupoort :: "TexExtension \<Rightarrow> bool" where
  "tex_IsSupoort tex = tex_support tex"

definition More :: "TexExtension \<Rightarrow> bool" where
  "More tex = tex_more tex"

definition TrackerList :: "TexExtension \<Rightarrow> bytes list" where
  "TrackerList tex = trlist tex"

definition tex_MapKey :: "TexExtension \<Rightarrow> bytes" where
  "tex_MapKey tex = ''lt_tex''"

definition trhash :: "(bytes \<Rightarrow> bytes) \<Rightarrow> bytes list \<Rightarrow> bytes" where
  "trhash sha1 trs = sha1 (concat trs)"

text \<open>The hash of the own list goes into the handshake, as a \<open>[]byte\<close>.\<close>

definition tex_BeforeHandshake :: "(bytes \<Rightarrow> bytes) \<Rightarrow> TexExtension \<Rightarrow> hs_out \<Rightarrow> TexExtension \<times> hs_out" where
  "tex_BeforeHandshake sha1 tex hs =
     (tex, Put hs ''tr'' (byte_slice, VSlice (Some (of_bytes (sha1 (concat (trlist tex)))))))"

definition isEmpty :: "bytes \<Rightarrow> bool" where
  "isEmpty tr \<longleftrightarrow> hex tr = ''da39a3ee5e6b4b0d3255bfef95601890afd80709''"

definition bytes_of :: "goval \<Rightarrow> bytes" where
  "bytes_of v = (case v of VSlice (Some vs) \<Rightarrow> to_bytes vs | _ \<Rightarrow> [])"

definition tex_AfterHandshake :: "env \<Rightarrow> TexExtension \<Rightarrow> hs_in \<Rightarrow> 'w ExtMsgSender \<Rightarrow>
    abort option \<times> TexExtension \<times> 'w" where
  "tex_AfterHandshake E tex hs sender =
     (let tex1 = tex\<lparr>tex_support := True\<rparr> in
      case Get E hs ''tr'' byte_slice (VSlice None) of
        (Inl a, v) \<Rightarrow> (Some a, tex1, sender_w sender)
      | (Inr ok, v) \<Rightarrow> (None, tex1\<lparr>tex_more := \<not> (\<not> ok \<or> isEmpty (bytes_of v))\<rparr>, sender_w sender))"

definition tex_Unsupport :: "TexExtension \<Rightarrow> TexExtension" where
  "tex_Unsupport tex = tex\<lparr>tex_support := False, tex_more := False\<rparr>"

definition texMessage :: gotype where
  "texMessage = TStruct [(tagged_field ''Added'' ''added'', TSlice TString)]"

definition strings_of :: "goval \<Rightarrow> bytes list" where
  "strings_of v =
     (case v of VSlice (Some vs) \<Rightarrow> map (\<lambda>x. case x of VString s \<Rightarrow> s | _ \<Rightarrow> []) vs | _ \<Rightarrow> [])"

definition tex_HandleMessage :: "env \<Rightarrow> TexExtension \<Rightarrow> bytes \<Rightarrow> 'w ExtMsgSender \<Rightarrow>
    abort option \<times> TexExtension \<times> 'w" where
  "tex_HandleMessage E tex content sender =
     (case unmarshal_var E content texMessage (zero texMessage) of
        (Some e, v) \<Rightarrow> (Some e, tex, sender_w sender)
      | (None, v) \<Rightarrow>
          (None, tex\<lparr>tex_more := False, trlist := (case v of VStruct [added] \<Rightarrow> strings_of added | _ \<Rightarrow> [])\<rparr>,
           sender_w sender))"

definition tex_extension :: "env \<Rightarrow> (bytes \<Rightarrow> bytes) \<Rightarrow> (TexExtension, 'w) Extension" where
  "tex_extension E sha1 = \<lparr>MapKey = tex_MapKey, BeforeHandshake = tex_BeforeHandshake sha1,
     AfterHandshake = tex_AfterHandshake E, Unsupport = tex_Unsupport, HandleMessage = tex_HandleMessage E\<rparr>"

lemma tex_extension_sel [simp]:
  "MapKey (tex_extension E sha1) = tex_MapKey" "BeforeHandshake (tex_extension E sha1) = tex_BeforeHandshake sha1"
  "AfterHandshake (tex_extension E sha1) = tex_AfterHandshake E" "Unsupport (tex_extension E sha1) = tex_Unsupport"
  "HandleMessage (tex_extension E sha1) = tex_HandleMessage E"
  by (simp_all add: tex_extension_def)

interpretation tex: extension "tex_extension E sha1" tex_support for E sha1
  by unfold_locales
    (auto simp: tex_MapKey_def tex_Unsupport_def tex_AfterHandshake_def tex_HandleMessage_def Let_def
      split: prod.splits sum.splits option.splits)

lemma tex_ending: "env_total E \<Longrightarrow> ending (tex_extension E sha1)"
proof
  assume E: "env_total E"
  show "fst (AfterHandshake (tex_extension E sha1) x hin s) \<noteq> Some OutOfFuel" for x hin s
    using Get_ends [OF E, of hin "''tr''" byte_slice "VSlice None"]
    by (auto simp: tex_AfterHandshake_def Let_def split_beta split: sum.split)
  show "fst (HandleMessage (tex_extension E sha1) x c s) \<noteq> Some OutOfFuel" for x c s
    using decodeInto_total [OF E, of texMessage "zero texMessage" "newDecoder c"]
    by (auto simp: tex_HandleMessage_def unmarshal_var_def split_beta split: option.split)
qed

text \<open>The list that arrives replaces the own one.\<close>

definition tex_body :: "bytes list \<Rightarrow> bval" where
  "tex_body trs = BDict [(''added'', BList (map BStr trs))]"

lemma strings_of_strings [simp]: "strings_of (VSlice (Some (map VString trs))) = trs"
  by (simp add: strings_of_def o_def)

section \<open>A list that arrives\<close>

lemma assign_tex_body:
  "assign E (tex_body trs) texMessage (zero texMessage) =
   Some (VStruct [VSlice (if trs = [] then None else Some (map VString trs))])"
proof -
  have "flat [(tagged_field ''Added'' ''added'', TSlice TString)]" by code_simp
  moreover have "field_key (tagged_field ''Added'' ''added'') = ''added''" by code_simp
  ultimately show ?thesis
    unfolding tex_body_def texMessage_def zero.simps list.map prod.case
    by (intro assign_flat) (simp_all add: assign_strings del: assign.simps)
qed

lemma tex_HandleMessage_body:
  assumes "env_safe E" and "\<forall>tr \<in> set trs. len_ok tr"
  shows "tex_HandleMessage E tex (benc (tex_body trs)) s = (None, tex\<lparr>tex_more := False, trlist := trs\<rparr>, sender_w s)"
proof -
  have "wf_type texMessage" "has_type texMessage (zero texMessage)"
    by (simp_all add: texMessage_def tagged_field_def field_def field_ok_def embedded_def)
  moreover have "bval_ok (tex_body trs)"
    using assms(2) by (simp add: tex_body_def list_all_iff len_ok_def)
  ultimately have "unmarshal_var E (benc (tex_body trs)) texMessage (zero texMessage) =
      (None, VStruct [VSlice (if trs = [] then None else Some (map VString trs))])"
    using unmarshal_var_assign [OF assms(1), of "tex_body trs" texMessage "zero texMessage" "[]"] assign_tex_body
    by simp
  moreover have "strings_of (VSlice (if trs = [] then None else Some (map VString trs))) = trs"
    by (simp add: strings_of_def o_def)
  ultimately show ?thesis by (simp add: tex_HandleMessage_def)
qed

end
