(* ===== verification/Sniffer.thy ===== *)
theory Sniffer
  imports Bt_Fetchmeta Bt_Tex
begin

text \<open>
  \<open>sniffer.go\<close>: the spider, which fetches the metadata of what a crawler finds, and the fetcher that
  also exchanges tracker lists. What they hand to the pipeline is the list of the calls they make.
\<close>

section \<open>Two kinds of extension in one center\<close>

definition map_ext :: "('x \<Rightarrow> 'y) \<Rightarrow> abort option \<times> 'x \<times> 'w \<Rightarrow> abort option \<times> 'y \<times> 'w" where
  "map_ext f r = (case r of (e, x, w) \<Rightarrow> (e, f x, w))"

definition either :: "('a, 'w) Extension \<Rightarrow> ('b, 'w) Extension \<Rightarrow> ('a + 'b, 'w) Extension" where
  "either A B = \<lparr>
     MapKey = case_sum (MapKey A) (MapKey B),
     BeforeHandshake = (\<lambda>x hs. case x of
         Inl a \<Rightarrow> (case BeforeHandshake A a hs of (a', hs') \<Rightarrow> (Inl a', hs'))
       | Inr b \<Rightarrow> (case BeforeHandshake B b hs of (b', hs') \<Rightarrow> (Inr b', hs'))),
     AfterHandshake = (\<lambda>x hs s. case x of
         Inl a \<Rightarrow> map_ext Inl (AfterHandshake A a hs s) | Inr b \<Rightarrow> map_ext Inr (AfterHandshake B b hs s)),
     Unsupport = map_sum (Unsupport A) (Unsupport B),
     HandleMessage = (\<lambda>x c s. case x of
         Inl a \<Rightarrow> map_ext Inl (HandleMessage A a c s) | Inr b \<Rightarrow> map_ext Inr (HandleMessage B b c s))\<rparr>"

lemma either_sel [simp]:
  "MapKey (either A B) = case_sum (MapKey A) (MapKey B)"
  "Unsupport (either A B) = map_sum (Unsupport A) (Unsupport B)"
  "BeforeHandshake (either A B) (Inl a) hs = (case BeforeHandshake A a hs of (a', hs') \<Rightarrow> (Inl a', hs'))"
  "BeforeHandshake (either A B) (Inr b) hs = (case BeforeHandshake B b hs of (b', hs') \<Rightarrow> (Inr b', hs'))"
  "AfterHandshake (either A B) (Inl a) hin s = map_ext Inl (AfterHandshake A a hin s)"
  "AfterHandshake (either A B) (Inr b) hin s = map_ext Inr (AfterHandshake B b hin s)"
  "HandleMessage (either A B) (Inl a) c s = map_ext Inl (HandleMessage A a c s)"
  "HandleMessage (either A B) (Inr b) c s = map_ext Inr (HandleMessage B b c s)"
  by (simp_all add: either_def)

lemma either_keeps:
  assumes A: "keeps A K" and B: "keeps B L"
  shows "keeps (either A B) (case_sum K L)"
proof
  show "BeforeHandshake (either A B) x hs = (x1, hs1) \<Longrightarrow> case_sum K L x1 = case_sum K L x" for x hs x1 hs1
    by (cases x) (auto dest: keeps.keep_offer [OF A] keeps.keep_offer [OF B] split: prod.splits)
  show "AfterHandshake (either A B) x hin s = (r, x1, w1) \<Longrightarrow> case_sum K L x1 = case_sum K L x" for x hin s r x1 w1
    by (cases x) (auto simp: map_ext_def dest: keeps.keep_handshake [OF A] keeps.keep_handshake [OF B] split: prod.splits)
  show "case_sum K L (Unsupport (either A B) x) = case_sum K L x" for x
    by (cases x) (simp_all add: keeps.keep_unsupport [OF A] keeps.keep_unsupport [OF B])
  show "HandleMessage (either A B) x c s = (r, x1, w1) \<Longrightarrow> case_sum K L x1 = case_sum K L x" for x c s r x1 w1
    by (cases x) (auto simp: map_ext_def dest: keeps.keep_message [OF A] keeps.keep_message [OF B] split: prod.splits)
qed

lemma either_extension:
  assumes A: "extension A sa" and B: "extension B sb"
  shows "extension (either A B) (case_sum sa sb)"
proof (rule extension.intro)
  show "keeps (either A B) (MapKey (either A B))"
    using either_keeps [OF extension.axioms(1) [OF A] extension.axioms(1) [OF B]] by simp
  show "extension_axioms (either A B) (case_sum sa sb)"
  proof
    show "AfterHandshake (either A B) x hin s = (r, x1, w1) \<Longrightarrow> case_sum sa sb x1" for x hin s r x1 w1
      by (cases x) (auto simp: map_ext_def dest: extension.support_handshake [OF A] extension.support_handshake [OF B]
          split: prod.splits)
    show "\<not> case_sum sa sb (Unsupport (either A B) x)" for x
      by (cases x) (simp_all add: extension.support_unsupport [OF A] extension.support_unsupport [OF B])
    show "HandleMessage (either A B) x c s = (r, x1, w1) \<Longrightarrow> case_sum sa sb x1 = case_sum sa sb x" for x c s r x1 w1
      by (cases x) (auto simp: map_ext_def dest: extension.support_message [OF A] extension.support_message [OF B]
          split: prod.splits)
  qed
qed

lemma either_ending:
  assumes A: "ending A" and B: "ending B"
  shows "ending (either A B)"
proof
  show "fst (AfterHandshake (either A B) x hin s) \<noteq> Some OutOfFuel" for x hin s
    using ending.handshake_ends [OF A] ending.handshake_ends [OF B] by (cases x) (simp_all add: map_ext_def split_beta)
  show "fst (HandleMessage (either A B) x c s) \<noteq> Some OutOfFuel" for x c s
    using ending.message_ends [OF A] ending.message_ends [OF B] by (cases x) (simp_all add: map_ext_def split_beta)
qed

section \<open>\<open>metaTrackFetcher\<close>\<close>

text \<open>
  The tracker exchange is the object 0 of the store, the fetcher of metadata, if there is one, the
  object 1. The stream is both reader and writer.
\<close>

type_synonym ext_object = "TexExtension + FetchMetaExt"

datatype pipe_call =
    DisposeMeta bytes bytes
  | DisposeMetaAndTracker bytes bytes "bytes list"
  | AppendTracker bytes "bytes list"

record metaTrackFetcher =
  mtf_infoHash :: bytes
  extCenter :: ExtProtocol
  has_fmExt :: bool
  rawmeta :: "bytes option"
  fmdone :: bool

definition the_tx :: "ext_object store \<Rightarrow> TexExtension" where
  "the_tx st = (case st 0 of Inl tx \<Rightarrow> tx | Inr fm \<Rightarrow> NewTexExtension [])"

definition the_fm :: "ext_object store \<Rightarrow> FetchMetaExt" where
  "the_fm st = (case st 1 of Inr fm \<Rightarrow> fm | Inl tx \<Rightarrow> NewFetchMetaExt [])"

definition sniffer_exts :: "env \<Rightarrow> (bytes \<Rightarrow> bytes) \<Rightarrow> 'w writer \<Rightarrow> (ext_object, 'w) Extension" where
  "sniffer_exts E sha1 wr = either (tex_extension E sha1) (fm_extension E wr)"

text \<open>\<open>RegistExts\<close>; \<open>pull\<close> is what \<open>PullTrackerList\<close> returns.\<close>

definition new_mtf :: "bytes \<Rightarrow> metaTrackFetcher" where
  "new_mtf ih = \<lparr>mtf_infoHash = ih, extCenter = NewExtProtocol [], has_fmExt = False, rawmeta = None, fmdone = False\<rparr>"

definition RegistExts :: "bytes list \<times> bool \<Rightarrow> metaTrackFetcher \<Rightarrow> metaTrackFetcher \<times> ext_object store" where
  "RegistExts pull mtf =
     (case pull of (trs, ok) \<Rightarrow>
       (let proto = RegistExt (NewExtProtocol []) 0 in
        (mtf\<lparr>extCenter := (if ok then proto else RegistExt proto 1), has_fmExt := \<not> ok\<rparr>,
         (\<lambda>p. if p = 0 then Inl (NewTexExtension trs) else Inr (NewFetchMetaExt (mtf_infoHash mtf))))))"

text \<open>Whether the loop goes on, and the calls on the pipeline.\<close>

definition onlyMeta :: "(bytes \<Rightarrow> bytes) \<Rightarrow> metaTrackFetcher \<Rightarrow> ext_object store \<Rightarrow> bool \<times> pipe_call list" where
  "onlyMeta sha1 mtf st =
     (if CheckDone (the_fm st)
      then (False, case FetchRawMeta sha1 (the_fm st) of
                     Inr meta \<Rightarrow> [DisposeMeta (mtf_infoHash mtf) meta]
                   | Inl e \<Rightarrow> [])
      else (True, []))"

definition onlyTracker :: "metaTrackFetcher \<Rightarrow> ext_object store \<Rightarrow> bool \<times> pipe_call list" where
  "onlyTracker mtf st =
     (if \<not> More (the_tx st)
      then (False, let trs = TrackerList (the_tx st) in if length trs \<noteq> 0 then [AppendTracker (mtf_infoHash mtf) trs] else [])
      else (True, []))"

text \<open>
  \<open>metaAndTracker\<close> keeps the result of \<open>FetchRawMeta\<close> when there was an error, as the code does; the
  result is nil then.
\<close>

definition take_meta :: "(bytes \<Rightarrow> bytes) \<Rightarrow> metaTrackFetcher \<Rightarrow> ext_object store \<Rightarrow> metaTrackFetcher" where
  "take_meta sha1 mtf st =
     (if \<not> fmdone mtf \<and> CheckDone (the_fm st)
      then (case FetchRawMeta sha1 (the_fm st) of
              Inl e \<Rightarrow> mtf\<lparr>fmdone := True, rawmeta := None\<rparr>
            | Inr meta \<Rightarrow> mtf\<lparr>fmdone := True\<rparr>)
      else mtf)"

definition metaAndTracker :: "(bytes \<Rightarrow> bytes) \<Rightarrow> metaTrackFetcher \<Rightarrow> ext_object store \<Rightarrow>
    bool \<times> metaTrackFetcher \<times> pipe_call list" where
  "metaAndTracker sha1 mtf0 st =
     (let mtf = take_meta sha1 mtf0 st in
      if fmdone mtf \<and> \<not> More (the_tx st)
      then
        (let trs = TrackerList (the_tx st) in
         (False, mtf,
          (if length trs = 0
           then (case rawmeta mtf of Some m \<Rightarrow> [DisposeMeta (mtf_infoHash mtf) m] | None \<Rightarrow> [])
           else (case rawmeta mtf of
                   Some m \<Rightarrow> [DisposeMetaAndTracker (mtf_infoHash mtf) m trs]
                 | None \<Rightarrow> [AppendTracker (mtf_infoHash mtf) trs]))))
      else (True, mtf, []))"

text \<open>What the loop does after a payload: end with an error, or go on or not, with calls.\<close>

definition after_payload :: "(bytes \<Rightarrow> bytes) \<Rightarrow> metaTrackFetcher \<Rightarrow> ext_object store \<Rightarrow>
    gerror + bool \<times> metaTrackFetcher \<times> pipe_call list" where
  "after_payload sha1 mtf st =
     (if has_fmExt mtf \<and> IsSupoort (the_fm st)
      then (if \<not> tex_IsSupoort (the_tx st)
            then (case onlyMeta sha1 mtf st of (go, calls) \<Rightarrow> Inr (go, mtf, calls))
            else Inr (metaAndTracker sha1 mtf st))
      else (if \<not> tex_IsSupoort (the_tx st) then Inl (OtherError ''not support tex'')
            else (case onlyTracker mtf st of (go, calls) \<Rightarrow> Inr (go, mtf, calls))))"

fun MainLoop :: "env \<Rightarrow> (bytes \<Rightarrow> bytes) \<Rightarrow> 'w writer \<Rightarrow> (nat \<Rightarrow> gerror option) \<Rightarrow> nat \<Rightarrow> nat \<Rightarrow> source \<Rightarrow>
    metaTrackFetcher \<Rightarrow> ext_object store \<Rightarrow> 'w \<Rightarrow> abort option \<times> pipe_call list \<times> 'w \<times> source" where
  "MainLoop E sha1 wr ctx 0 i r mtf st w = (Some OutOfFuel, [], w, r)"
| "MainLoop E sha1 wr ctx (Suc n) i r mtf st w =
     (case ctx i of
        Some e \<Rightarrow> (Some (Err e), [], w, r)
      | None \<Rightarrow>
     (case ReadMessage r of
        (_, Some e, r1) \<Rightarrow> (Some (Err e), [], w, r1)
      | (msg, None, r1) \<Rightarrow>
          (case msg of
             Some (c # payload) \<Rightarrow>
               (if c \<noteq> ExtID then MainLoop E sha1 wr ctx n (Suc i) r1 mtf st w
                else
                  (case HandlePayload E (sniffer_exts E sha1 wr) (extCenter mtf) st payload w of
                     (Some e, proto1, st1, w1) \<Rightarrow> (Some e, [], w1, r1)
                   | (None, proto1, st1, w1) \<Rightarrow>
                       (case after_payload sha1 (mtf\<lparr>extCenter := proto1\<rparr>) st1 of
                          Inl e \<Rightarrow> (Some (Err e), [], w1, r1)
                        | Inr (False, mtf1, calls) \<Rightarrow> (None, calls, w1, r1)
                        | Inr (True, mtf1, calls) \<Rightarrow>
                            (case MainLoop E sha1 wr ctx n (Suc i) r1 mtf1 st1 w1 of
                               (e, calls', w', r') \<Rightarrow> (e, calls @ calls', w', r')))))
           | _ \<Rightarrow> MainLoop E sha1 wr ctx n (Suc i) r1 mtf st w)))"

section \<open>The spider\<close>

text \<open>\<open>ctx\<close> carries the timeout; \<open>has\<close>, \<open>pull\<close> and what dialling came back with are the world's.\<close>

definition Run_callback :: "env \<Rightarrow> (bytes \<Rightarrow> bytes) \<Rightarrow> 'w put \<Rightarrow> (nat \<Rightarrow> gerror option) \<Rightarrow> (bytes \<Rightarrow> bool) \<Rightarrow>
    gerror + 'w conn \<Rightarrow> bytes \<Rightarrow> bytes \<Rightarrow> pipe_call list" where
  "Run_callback E sha1 put ctx has dialled rand_id ih =
     (if has ih then []
      else (case FetchMetadata E sha1 put ctx ih dialled rand_id of
              (Inl e, s) \<Rightarrow> []
            | (Inr meta, s) \<Rightarrow> [DisposeMeta ih meta]))"

definition RunAndFetchTracker_callback :: "env \<Rightarrow> (bytes \<Rightarrow> bytes) \<Rightarrow> 'w put \<Rightarrow> (nat \<Rightarrow> gerror option) \<Rightarrow>
    bytes list \<times> bool \<Rightarrow> gerror + 'w conn \<Rightarrow> bytes \<Rightarrow> bytes \<Rightarrow> pipe_call list \<times> 'w implStream option" where
  "RunAndFetchTracker_callback E sha1 put ctx pull dialled rand_id ih =
     (case DialUseTCP put dialled ih rand_id (SetExtReserved 0) of
        (None, Some s) \<Rightarrow>
          (case RegistExts pull (new_mtf ih) of
             (mtf, st) \<Rightarrow>
               (case MainLoop E sha1 \<lparr>put_bytes = put, byte_writer = False\<rparr> ctx (Suc (length (avail (conn_in (conn s)))))
                       0 (conn_in (conn s)) mtf st (conn_out (conn s)) of
                  (e, calls, w, r) \<Rightarrow>
                    (calls, Some (close (s\<lparr>conn := (conn s)\<lparr>conn_out := w, conn_in := r\<rparr>\<rparr>)))))
      | (_, s) \<Rightarrow> ([], s))"

text \<open>The crawler is behind an interface: \<open>sybil\<close> makes one, \<open>set_max\<close> limits its workers.\<close>

record 'c Spider =
  crawler :: "'c option"

definition NewSpider :: "'c Spider" where
  "NewSpider = \<lparr>crawler = None\<rparr>"

definition Use :: "'c Spider \<Rightarrow> 'c \<Rightarrow> 'c Spider" where
  "Use spi c = spi\<lparr>crawler := Some c\<rparr>"

definition UseSybilCrawler :: "(bytes \<Rightarrow> 'c) \<Rightarrow> 'c Spider \<Rightarrow> 'c Spider" where
  "UseSybilCrawler sybil spi = Use spi (sybil ''0.0.0.0:6881'')"

definition LimitSybilCrawler :: "(bytes \<Rightarrow> 'c) \<Rightarrow> ('c \<Rightarrow> int \<Rightarrow> 'c) \<Rightarrow> 'c Spider \<Rightarrow> int \<Rightarrow> 'c Spider" where
  "LimitSybilCrawler sybil set_max spi limit = Use spi (set_max (sybil ''0.0.0.0:6881'') limit)"

definition Run :: "(bytes \<Rightarrow> 'c) \<Rightarrow> ('c \<Rightarrow> 'k \<Rightarrow> 'r) \<Rightarrow> 'c Spider \<Rightarrow> 'k \<Rightarrow> 'r \<times> 'c Spider" where
  "Run sybil crawl spi callback =
     (let spi1 = (if crawler spi = None then UseSybilCrawler sybil spi else spi) in
      (crawl (the (crawler spi1)) callback, spi1))"

definition RunAndFetchTracker :: "(bytes \<Rightarrow> 'c) \<Rightarrow> ('c \<Rightarrow> 'k \<Rightarrow> 'r) \<Rightarrow> 'c Spider \<Rightarrow> 'k \<Rightarrow> 'r \<times> 'c Spider" where
  "RunAndFetchTracker sybil crawl spi callback =
     (let spi1 = (if crawler spi = None then UseSybilCrawler sybil spi else spi) in
      (crawl (the (crawler spi1)) callback, spi1))"

lemma spider_crawls:
  "Run sybil crawl spi callback = (crawl c callback, spi1) \<and> RunAndFetchTracker sybil crawl spi callback = (crawl c callback, spi1)"
  if "c = (case crawler spi of None \<Rightarrow> sybil ''0.0.0.0:6881'' | Some c \<Rightarrow> c)" and "spi1 = Use spi c"
  using that by (auto simp: Run_def RunAndFetchTracker_def UseSybilCrawler_def Use_def Let_def split: option.splits)

definition Stimulate :: "('c \<Rightarrow> 'c option) \<Rightarrow> 'c Spider \<Rightarrow> bool \<times> 'c Spider" where
  "Stimulate stimulate spi =
     (case Option.bind (crawler spi) stimulate of
        None \<Rightarrow> (False, spi)
      | Some c \<Rightarrow> (True, spi\<lparr>crawler := Some c\<rparr>))"

section \<open>What reaches the pipeline\<close>

text \<open>
  Metadata is handed over only under the hash it has, tracker lists only when they are not empty, and
  both together never: what \<open>metaAndTracker\<close> keeps is never the metadata.
\<close>

definition call_ok :: "(bytes \<Rightarrow> bytes) \<Rightarrow> pipe_call \<Rightarrow> bool" where
  "call_ok sha1 c =
     (case c of
        DisposeMeta ih m \<Rightarrow> sha1 m = ih
      | DisposeMetaAndTracker ih m trs \<Rightarrow> False
      | AppendTracker ih trs \<Rightarrow> trs \<noteq> [])"

definition made_for :: "ext_object \<Rightarrow> bytes option" where
  "made_for = case_sum (\<lambda>tx. None) (\<lambda>fm. Some (fm_infoHash fm))"

lemma sniffer_keeps: "keeps (sniffer_exts E sha1 wr) made_for"
proof -
  have "keeps (tex_extension E sha1) (\<lambda>tx. None :: bytes option)" by unfold_locales simp_all
  moreover have "keeps (fm_extension E wr) (\<lambda>fm. Some (fm_infoHash fm))"
    using fm_hash.keeps_axioms [of E wr] by (auto simp: keeps_def)
  ultimately show ?thesis unfolding sniffer_exts_def made_for_def by (rule either_keeps)
qed

interpretation sniffer_hash: keeps "sniffer_exts E sha1 wr" made_for for E sha1 wr
  by (rule sniffer_keeps)

interpretation sniffer: extension "sniffer_exts E sha1 wr" "case_sum tex_support support" for E sha1 wr
  unfolding sniffer_exts_def by (rule either_extension [OF tex.extension_axioms fm.extension_axioms])

lemma after_payload_ok:
  assumes "after_payload sha1 mtf st = Inr (go, mtf1, calls)" and "rawmeta mtf = None"
    and "made_for (st 1) = Some (mtf_infoHash mtf)"
  shows "(\<forall>c \<in> set calls. call_ok sha1 c) \<and> rawmeta mtf1 = None \<and> mtf_infoHash mtf1 = mtf_infoHash mtf"
proof -
  have hash: "fm_infoHash (the_fm st) = mtf_infoHash mtf"
    using assms(3) by (auto simp: made_for_def the_fm_def split: sum.splits)
  have "rawmeta (take_meta sha1 mtf st) = None" "mtf_infoHash (take_meta sha1 mtf st) = mtf_infoHash mtf"
    using assms(2) by (simp_all add: take_meta_def split: sum.split)
  then show ?thesis
    using assms(1,2) hash
    by (auto simp: after_payload_def onlyMeta_def onlyTracker_def metaAndTracker_def FetchRawMeta_def call_ok_def Let_def
        split: if_splits prod.splits sum.splits)
qed

lemma MainLoop_ok:
  "rawmeta mtf = None \<Longrightarrow> made_for (st 1) = Some (mtf_infoHash mtf) \<Longrightarrow>
   MainLoop E sha1 wr ctx n i r mtf st w = (e, calls, w', r') \<Longrightarrow> \<forall>c \<in> set calls. call_ok sha1 c"
proof (induction n arbitrary: i r mtf st w e calls w' r')
  case (Suc n)
  show ?case
  proof (cases "calls = []")
    case False
    then obtain msg r1 where m: "ReadMessage r = (msg, None, r1)" "ctx i = None"
      using Suc.prems(3) by (auto split: option.splits prod.splits)
    show ?thesis
    proof (cases "\<exists>payload. msg = Some (ExtID # payload)")
      case True
      then obtain payload where payload: "msg = Some (ExtID # payload)" by blast
      obtain proto1 st1 w1 where h: "HandlePayload E (sniffer_exts E sha1 wr) (extCenter mtf) st payload w = (None, proto1, st1, w1)"
        using Suc.prems(3) m payload False by (auto split: option.splits prod.splits)
      obtain go mtf1 calls1 where a: "after_payload sha1 (mtf\<lparr>extCenter := proto1\<rparr>) st1 = Inr (go, mtf1, calls1)"
        using Suc.prems(3) m payload h False by (auto split: sum.splits)
      have hash: "made_for (st1 1) = Some (mtf_infoHash mtf)"
        using sniffer_hash.payload_keeps [OF h, of 1] Suc.prems(2) by simp
      have ok: "\<forall>c \<in> set calls1. call_ok sha1 c" "rawmeta mtf1 = None" "mtf_infoHash mtf1 = mtf_infoHash mtf"
        using after_payload_ok [OF a] Suc.prems(1) hash by simp_all
      show ?thesis
      proof (cases go)
        case True
        then obtain e' calls2 where "MainLoop E sha1 wr ctx n (Suc i) r1 mtf1 st1 w1 = (e', calls2, w', r')" "calls = calls1 @ calls2"
          using Suc.prems(3) m payload h a by (auto split: prod.splits)
        then show ?thesis using Suc.IH [of mtf1 st1] ok hash by fastforce
      next
        case False
        then show ?thesis using Suc.prems(3) m payload h a ok(1) by simp
      qed
    next
      case False
      then have "MainLoop E sha1 wr ctx n (Suc i) r1 mtf st w = (e, calls, w', r')"
        using Suc.prems(3) m by (auto split: option.splits list.splits)
      then show ?thesis using Suc by blast
    qed
  qed simp
qed simp

lemma RunAndFetchTracker_ok:
  assumes "RunAndFetchTracker_callback E sha1 put ctx pull dialled rand_id ih = (calls, s)"
  shows "\<forall>c \<in> set calls. call_ok sha1 c"
proof (cases "calls = []")
  case False
  let ?wr = "\<lparr>put_bytes = put, byte_writer = False\<rparr>"
  obtain mtf st where reg: "RegistExts pull (new_mtf ih) = (mtf, st)" by fastforce
  then have inv: "rawmeta mtf = None" "made_for (st 1) = Some (mtf_infoHash mtf)"
    by (auto simp: RegistExts_def new_mtf_def made_for_def NewFetchMetaExt_def Let_def split: prod.splits)
  obtain n i r w e w' r' where "MainLoop E sha1 ?wr ctx n i r mtf st w = (e, calls, w', r')"
    using assms reg False
    by (auto simp: RunAndFetchTracker_callback_def simp del: MainLoop.simps split: prod.splits option.splits)
  from MainLoop_ok [where mtf = mtf and st = st and ?sha1.0 = sha1, OF inv this] show ?thesis .
qed simp

lemma MainLoop_ends:
  assumes E: "env_total E"
  shows "length (avail r) < n \<Longrightarrow> fst (MainLoop E sha1 wr ctx n i r mtf st w) \<noteq> Some OutOfFuel"
proof (induction n arbitrary: i r mtf st w)
  case (Suc n)
  have rest: "fst (MainLoop E sha1 wr ctx n (Suc i) r1 mtf1 st1 w1) \<noteq> Some OutOfFuel"
    if "ReadMessage r = (m, None, r1)" for m r1 mtf1 st1 w1
    using ReadMessage_shorter [OF that] Suc by simp
  moreover have "e \<noteq> Some OutOfFuel"
    if "ReadMessage r = (m, None, r1)" "MainLoop E sha1 wr ctx n (Suc i) r1 mtf1 st1 w1 = (e, x)" for m r1 mtf1 st1 w1 e x
    using rest [OF that(1), of mtf1 st1 w1] that(2) by simp
  moreover have "ending (sniffer_exts E sha1 wr)"
    unfolding sniffer_exts_def using either_ending [OF tex_ending fm_ending] E by blast
  then have "e \<noteq> OutOfFuel"
    if "HandlePayload E (sniffer_exts E sha1 wr) (extCenter mtf) st b w = (Some e, c)" for b e c
    using ending.payload_ends [OF _ E, of "sniffer_exts E sha1 wr" "extCenter mtf" st b w] that by simp
  ultimately show ?case
    by (auto split: option.split prod.split list.split sum.split bool.split)
qed simp

text \<open>With the codec of the repository the extensions of both fetchers always end.\<close>

interpretation fm_ends: ending "fm_extension bencode_env wr" for wr
  by (rule fm_ending [OF bencode_env_ok(1)])

interpretation sniffer_ends: ending "sniffer_exts bencode_env sha1 wr" for sha1 wr
  unfolding sniffer_exts_def by (rule either_ending [OF tex_ending fm_ending]) (rule bencode_env_ok(1))+

end
