(* ===== verification/Bt_Settle.thy ===== *)
theory Bt_Settle
  imports Bt_Numbers Sniffer
begin

text \<open>
  What a center makes of a whole conversation: which of its extensions are in the list at any time, in
  terms of the numbers the peer has named, and how a message under a number finds its slot.
\<close>

section \<open>The list after a handshake\<close>

text \<open>The peer has named an extension when it gave its name a number other than 0.\<close>

definition was_named :: "('x, 'w) Extension \<Rightarrow> (bytes, 8 word) gomap \<Rightarrow> 'x \<Rightarrow> bool" where
  "was_named X m x \<longleftrightarrow> (\<exists>n. n \<noteq> 0 \<and> map_of m (MapKey X x) = Some n)"

lemma not_named: "map_of m (MapKey X x) \<in> {None, Some 0} \<Longrightarrow> \<not> was_named X m x"
  by (auto simp: was_named_def)

lemma named_number: "n \<noteq> 0 \<Longrightarrow> map_of m (MapKey X x) = Some n \<Longrightarrow> was_named X m x"
  by (auto simp: was_named_def)

context extension
begin

abbreviation kept_list :: "(bytes, 8 word) gomap \<Rightarrow> nat list \<Rightarrow> 'x store \<Rightarrow> nat option list" where
  "kept_list m ps st \<equiv> map (\<lambda>p. if was_named X m (st p) then Some p else None) ps"

lemma kept_list_upd: "MapKey X x = MapKey X (st q) \<Longrightarrow> kept_list m ps (st(q := x)) = kept_list m ps st"
  by (simp add: was_named_def)

lemma settle_kept:
  "settle_exts X m hs (map Some ps) st w = (None, ps', st', w') \<Longrightarrow> ps' = kept_list m ps st"
proof (induction ps arbitrary: st w ps' st' w')
  case (Cons p ps)
  from Cons.prems have "settle_exts X m hs (Some p # map Some ps) st w = (None, ps', st', w')" by simp
  then show ?case
  proof (cases rule: settle_cases)
    case (gone q ps1)
    then show ?thesis
      using Cons.IH [OF gone(4)] not_named [OF gone(2)] by (simp only: kept_list_upd [where st = st, OF keep_unsupport]) simp
  next
    case (kept q n x w1 ps1)
    then show ?thesis
      using Cons.IH [OF kept(6)] named_number [OF kept(3,2)]
      by (simp only: kept_list_upd [where st = st, OF keep_handshake [OF kept(4)]]) simp
  qed simp_all
qed simp

text \<open>The state after the peer's handshake: the list and the support are what the numbers say.\<close>

definition agreed :: "nat list \<Rightarrow> ExtProtocol \<Rightarrow> 'x store \<Rightarrow> bool" where
  "agreed ps proto st \<longleftrightarrow> exts proto = kept_list (ids proto) ps st \<and>
     (\<forall>p \<in> set ps. supported (st p) \<longleftrightarrow> was_named X (ids proto) (st p))"

lemma hello_agreed:
  assumes "settle_exts X m hs (exts proto) st w = (None, exts proto', st', w')" and "ids proto' = m"
    and "exts proto = map Some ps" and "distinct ps"
  shows "agreed ps proto' st'"
proof -
  have keys: "MapKey X (st' p) = MapKey X (st p)" for p using settle_keeps [OF assms(1)] .
  then have same: "was_named X m (st' p) = was_named X m (st p)" for p by (simp add: was_named_def)
  have "exts proto' = kept_list m ps st" using settle_kept assms(1,3) by simp
  moreover have "supported (st' p) \<longleftrightarrow> was_named X m (st p)" if "p \<in> set ps" for p
    using settle_supported [OF assms(1), of p] assms(3,4) that by (auto simp: was_named_def distinct_map)
  ultimately show ?thesis using assms(2) by (simp add: agreed_def same)
qed

lemma agreed_all:
  assumes "agreed ps proto st" and "None \<notin> set (exts proto)"
  shows "exts proto = map Some ps"
proof -
  have "\<forall>p \<in> set ps. was_named X (ids proto) (st p)" using assms by (auto simp: agreed_def split: if_splits)
  then show ?thesis using assms(1) by (simp add: agreed_def)
qed

text \<open>
  A handshake that goes through finds the list complete; a message goes through only when a handshake has,
  and changes none of it.
\<close>

lemma agreed_step:
  assumes "HandlePayload E X proto st b w = (None, proto', st', w')" and "distinct ps"
    and "exts proto = map Some ps \<and> ids proto = [] \<or> agreed ps proto st"
  shows "agreed ps proto' st'"
  using assms(1)
proof (cases rule: HandlePayload_cases)
  case (hello content v rawm mv)
  have "exts proto = map Some ps" using settle_no_nil [OF hello(6)] assms(3) agreed_all by blast
  then show ?thesis using hello_agreed [OF hello(6,5) _ assms(2)] hello(1) by simp
next
  case (message b0 content p x)
  have "supported (st' q) = supported (st q)" "was_named X m (st' q) = was_named X m (st q)" for m q
    using message(8) support_message [OF message(7)] keep_message [OF message(7)] by (auto simp: was_named_def)
  then show ?thesis using assms(3) message(3,6) by (auto simp: agreed_def)
qed

lemma received_agreed:
  "received E X (proto, st, w) bs c \<Longrightarrow> exts proto = map Some ps \<Longrightarrow> ids proto = [] \<Longrightarrow> distinct ps \<Longrightarrow>
    (bs = [] \<and> c = (proto, st, w)) \<or> (bs \<noteq> [] \<and> agreed ps (fst c) (fst (snd c)))"
proof (induction rule: received.induct)
  case (payload bs proto1 st1 w1 b proto' st' w')
  then show ?case using agreed_step [OF payload.hyps(2), of ps] by fastforce
qed simp

end

section \<open>The numbers of a conversation\<close>

lemma received_nothing: "received E X c [] c' \<Longrightarrow> c' = c"
  by (cases rule: received.cases) auto

definition is_hello :: "bytes \<Rightarrow> bool" where
  "is_hello b \<longleftrightarrow> b \<noteq> [] \<and> hd b = CHR 0x00"

text \<open>The first payload that goes through is a handshake, and without another one its numbers stay.\<close>

lemma received_first:
  "received E X c bs c' \<Longrightarrow> bs \<noteq> [] \<Longrightarrow> \<forall>b \<in> set (tl bs). \<not> is_hello b \<Longrightarrow>
    (\<exists>proto1 st1 w1. HandlePayload E X (fst c) (fst (snd c)) (hd bs) (snd (snd c)) = (None, proto1, st1, w1) \<and>
      ids (fst c') = ids proto1)"
proof (induction rule: received.induct)
  case (payload bs proto st w b proto' st' w')
  show ?case
  proof (cases "bs = []")
    case True
    then have "c = (proto, st, w)" using payload.hyps(1) received_nothing by metis
    then show ?thesis using payload.hyps(2) True by simp
  next
    case False
    then have "\<not> is_hello b" "\<forall>b \<in> set (tl bs). \<not> is_hello b" using payload.prems(2) by simp_all
    moreover from payload.hyps(2) have "proto' = proto"
      by (cases rule: HandlePayload_cases) (use \<open>\<not> is_hello b\<close> in \<open>simp_all add: is_hello_def\<close>)
    ultimately show ?thesis using payload.IH False by simp
  qed
qed simp

lemma received_is_hello:
  assumes "received E X (proto, st, w) bs c" and "ids proto = []" and "bs \<noteq> []"
  shows "is_hello (hd bs)"
  using assms(1,3)
proof (induction rule: received.induct)
  case (payload bs proto1 st1 w1 b proto' st' w')
  show ?case
  proof (cases "bs = []")
    case True
    then have "proto1 = proto" using payload.hyps(1) received_nothing by fastforce
    with payload.hyps(2) show ?thesis
      by (cases rule: HandlePayload_cases) (use True assms(2) in \<open>simp_all add: is_hello_def\<close>)
  qed (use payload.IH in simp)
qed simp

lemma received_numbers:
  assumes "received bencode_env X (proto, st, w) ((CHR 0x00 # benc (BDict kvs)) # bs) (proto', st', w')"
    and "ids proto = []" and "\<forall>b \<in> set bs. \<not> is_hello b"
    and "bval_ok (BDict kvs)" and "map_of kvs ''m'' = Some (numbers ms)" and "\<forall>(k, n) \<in> set ms. 0 \<le> n"
  shows "ids proto' = bytes_of_numbers ms"
proof -
  obtain proto1 st1 w1 where "HandlePayload bencode_env X proto st (CHR 0x00 # benc (BDict kvs)) w = (None, proto1, st1, w1)"
      "ids proto' = ids proto1"
    using received_first [OF assms(1)] assms(3) by auto
  then show ?thesis
    using peer_handshake_benc [OF assms(4-6,2), of X st w]
    by (auto simp: HandlePayload_def simp del: benc.simps split: prod.splits)
qed

section \<open>From a number to its slot\<close>

lemma registered: "exts (foldl RegistExt proto ps) = exts proto @ map Some ps" "ids (foldl RegistExt proto ps) = ids proto"
  by (induction ps arbitrary: proto) (simp_all add: RegistExt_def)

text \<open>
  A message under the number of slot \<open>j\<close> goes to the extension in that slot, if the peer has kept it, and to
  no other.
\<close>

lemma payload_to_slot:
  assumes "length (exts proto) < 256" and "j < length (exts proto)" and "exts proto ! j = Some p" and "ids proto \<noteq> []"
  shows "HandlePayload E X proto st (byte_of (word_of_nat (j + 1)) # content) w =
    (case HandleMessage X (st p) content
        \<lparr>sender_id = (case map_of (ids proto) (MapKey X (st p)) of Some n \<Rightarrow> n | None \<Rightarrow> 0), sender_w = w\<rparr> of
       (r, x, w1) \<Rightarrow> (r, proto, st(p := x), w1))"
proof -
  have number: "unat (word_of_nat (j + 1) :: 8 word) = j + 1"
    using assms(1,2) by (simp add: unat_of_nat del: of_nat_Suc of_nat_add)
  then have slot: "unat ((word_of_nat (j + 1) :: 8 word) - 1) = j" using assms(1,2) by (simp add: unat_of_nat)
  have "byte_of (word_of_nat (j + 1)) \<noteq> CHR 0x00"
  proof
    assume "byte_of (word_of_nat (j + 1)) = CHR 0x00"
    then have "(word_of_nat (j + 1) :: 8 word) = u8 (CHR 0x00)" by (metis u8_byte_of)
    then show False using number by simp
  qed
  then show ?thesis
    using assms(2-4) slot by (simp add: HandlePayload_def peer_message_def)
qed

end
