(* ===== verification/Bt_Metadata.thy ===== *)
theory Bt_Metadata
  imports Bencode_Raw Bencode_Structs
begin

text \<open>
  \<open>bt/metadata.go\<close>: reading the outline of a torrent off its metadata. What \<open>FillOutline\<close> does is the
  sequence of calls it makes on the \<open>MetaOutline\<close>.
\<close>

definition file_type :: gotype where
  "file_type = TStruct [(tagged_field ''Path'' ''path'', TSlice TString), (tagged_field ''Length'' ''length'', TUint 64)]"

definition Meta :: gotype where
  "Meta = TStruct
     [(tagged_field ''Name'' ''name'', TString),
      (tagged_field ''Length'' ''length,omitempty'', TPtr (TUint 64)),
      (tagged_field ''PieceLength'' ''piece length'', TUint 64),
      (tagged_field ''Pieces'' ''pieces'', byte_slice),
      (tagged_field ''Files'' ''files,omitempty'', TSlice file_type)]"

datatype outline_call = SetName bytes | AddFile bytes int

definition join_path :: "bytes list \<Rightarrow> bytes" where
  "join_path = join_with ''/''"

definition str_val :: "goval \<Rightarrow> bytes" where
  "str_val v = (case v of VString s \<Rightarrow> s | _ \<Rightarrow> [])"

definition uint_val :: "goval \<Rightarrow> int" where
  "uint_val v = (case v of VUint n \<Rightarrow> n | _ \<Rightarrow> 0)"

definition add_file :: "goval \<Rightarrow> outline_call" where
  "add_file f =
     (case f of
        VStruct [path, len] \<Rightarrow>
          AddFile (join_path (case path of VSlice (Some ps) \<Rightarrow> map str_val ps | _ \<Rightarrow> [])) (uint_val len)
      | _ \<Rightarrow> AddFile [] 0)"

text \<open>Without \<open>files\<close> the length is dereferenced, whether or not there was one.\<close>

definition FillOutline :: "env \<Rightarrow> bytes \<Rightarrow> abort option \<times> outline_call list" where
  "FillOutline E rm =
     (case unmarshal_var E rm Meta (zero Meta) of
        (Some e, v) \<Rightarrow> (Some e, [])
      | (None, v) \<Rightarrow>
          (case v of
             VStruct [name, len, piece_length, pcs, files] \<Rightarrow>
               (case files of
                  VSlice (Some fs) \<Rightarrow> (None, SetName (str_val name) # map add_file fs)
                | _ \<Rightarrow>
                    (case len of
                       VPtr (Some n) \<Rightarrow> (None, [SetName (str_val name), AddFile (str_val name) (uint_val n)])
                     | _ \<Rightarrow> (Some (Panic ''nil pointer dereference''), [SetName (str_val name)])))
           | _ \<Rightarrow> (None, [])))"

section \<open>What it makes of a torrent\<close>

definition single_file :: "bytes \<Rightarrow> int \<Rightarrow> int \<Rightarrow> bytes \<Rightarrow> bval" where
  "single_file name n piece_length pcs =
     BDict [(''length'', BInt n), (''name'', BStr name), (''piece length'', BInt piece_length), (''pieces'', BStr pcs)]"

definition file_entry :: "bytes list \<times> int \<Rightarrow> bval" where
  "file_entry f = BDict [(''length'', BInt (snd f)), (''path'', BList (map BStr (fst f)))]"

definition multi_file :: "bytes \<Rightarrow> (bytes list \<times> int) list \<Rightarrow> int \<Rightarrow> bytes \<Rightarrow> bval" where
  "multi_file name fs piece_length pcs =
     BDict [(''files'', BList (map file_entry fs)), (''name'', BStr name),
       (''piece length'', BInt piece_length), (''pieces'', BStr pcs)]"

definition no_file :: "bytes \<Rightarrow> int \<Rightarrow> bytes \<Rightarrow> bval" where
  "no_file name piece_length pcs =
     BDict [(''name'', BStr name), (''piece length'', BInt piece_length), (''pieces'', BStr pcs)]"

definition meta_fields :: "(field_info \<times> gotype) list" where
  "meta_fields = (case Meta of TStruct fs \<Rightarrow> fs | _ \<Rightarrow> [])"

lemma Meta_fields: "Meta = TStruct meta_fields" "length meta_fields = 5"
  by (simp_all add: meta_fields_def Meta_def)

lemma wf_Meta: "wf_type Meta" "has_type Meta (zero Meta)"
  by (simp_all add: Meta_def file_type_def tagged_field_def field_def field_ok_def embedded_def)

lemma flat_Meta: "flat meta_fields" by code_simp

lemma Meta_keys:
  "map (\<lambda>ft. (field_key (fst ft), snd ft)) meta_fields =
    [(''name'', TString), (''length'', TPtr (TUint 64)), (''piece length'', TUint 64), (''pieces'', byte_slice),
     (''files'', TSlice file_type)]"
  by code_simp

lemma zero_Meta: "zero Meta = VStruct [VString [], VPtr None, VUint 0, VSlice None, VSlice None]"
  by (simp add: Meta_def)

text \<open>The fields of \<open>Meta\<close> one by one.\<close>

lemma all_less_5: "(\<forall>j < 5. P j) \<longleftrightarrow> P 0 \<and> P 1 \<and> P 2 \<and> P 3 \<and> P (4 :: nat)"
  by (auto simp: numeral_eq_Suc less_Suc_eq)

lemma Meta_nth:
  "field_key (fst (meta_fields ! 0)) = ''name''" "snd (meta_fields ! 0) = TString"
  "field_key (fst (meta_fields ! 1)) = ''length''" "snd (meta_fields ! 1) = TPtr (TUint 64)"
  "field_key (fst (meta_fields ! 2)) = ''piece length''" "snd (meta_fields ! 2) = TUint 64"
  "field_key (fst (meta_fields ! 3)) = ''pieces''" "snd (meta_fields ! 3) = byte_slice"
  "field_key (fst (meta_fields ! 4)) = ''files''" "snd (meta_fields ! 4) = TSlice file_type"
  by code_simp+

lemma assign_Meta:
  assumes "distinct (map fst kvs)"
    and "\<forall>j < 5. case map_of kvs (field_key (fst (meta_fields ! j))) of
        None \<Rightarrow> ws ! j = [VString [], VPtr None, VUint 0, VSlice None, VSlice None] ! j
      | Some b \<Rightarrow> assign E b (snd (meta_fields ! j)) ([VString [], VPtr None, VUint 0, VSlice None, VSlice None] ! j) = Some (ws ! j)"
    and "length ws = 5"
  shows "assign E (BDict kvs) Meta (zero Meta) = Some (VStruct ws)"
  unfolding zero_Meta unfolding Meta_fields(1) using assms Meta_fields(2)
  by (intro assign_flat [OF flat_Meta]) simp_all

lemma assign_uint_ptr: "0 \<le> n \<Longrightarrow> n < 2 ^ 64 \<Longrightarrow> assign E (BInt n) (TPtr (TUint 64)) (VPtr None) = Some (VPtr (Some (VUint n)))"
  by (intro assign_ptr) (simp add: take_bit_int_eq_self del: assign.simps)

lemma assign_single_file:
  assumes "0 \<le> n" and "n < 2 ^ 64" and "0 \<le> pl" and "pl < 2 ^ 64"
  shows "assign E (single_file name n pl pcs) Meta (zero Meta) =
    Some (VStruct [VString name, VPtr (Some (VUint n)), VUint pl, VSlice (Some (of_bytes pcs)), VSlice None])"
  unfolding single_file_def
  by (rule assign_Meta)
    (use assms in \<open>simp_all add: all_less_5 Meta_nth assign_uint_ptr take_bit_int_eq_self del: assign.simps One_nat_def\<close>)

lemma assign_no_file:
  assumes "0 \<le> pl" and "pl < 2 ^ 64"
  shows "assign E (BDict [(''name'', BStr name), (''piece length'', BInt pl), (''pieces'', BStr pcs)]) Meta (zero Meta) =
    Some (VStruct [VString name, VPtr None, VUint pl, VSlice (Some (of_bytes pcs)), VSlice None])"
  by (rule assign_Meta)
    (use assms in \<open>simp_all add: all_less_5 Meta_nth take_bit_int_eq_self del: assign.simps One_nat_def\<close>)

definition file_val :: "bytes list \<times> int \<Rightarrow> goval" where
  "file_val f = VStruct [VSlice (if fst f = [] then None else Some (map VString (fst f))), VUint (snd f)]"

lemma assign_file_entry:
  assumes "0 \<le> snd f" and "snd f < 2 ^ 64"
  shows "assign E (file_entry f) file_type (zero file_type) = Some (file_val f)"
proof -
  let ?fs = "[(tagged_field ''Path'' ''path'', TSlice TString), (tagged_field ''Length'' ''length'', TUint 64)]"
  have "flat ?fs" by code_simp
  moreover have "field_key (tagged_field ''Path'' ''path'') = ''path''" "field_key (tagged_field ''Length'' ''length'') = ''length''"
    by code_simp+
  moreover have empty: "assign E (BList []) (TSlice TString) (VSlice None) = Some (VSlice None)"
    using assign_strings [of E "[]"] by (simp del: assign.simps)
  ultimately show ?thesis
    unfolding file_entry_def file_type_def file_val_def zero.simps list.map prod.case using assms
    by (intro assign_flat) (auto simp: less_Suc_eq assign_strings take_bit_int_eq_self empty simp del: assign.simps)
qed

lemma assign_multi_file:
  assumes "fs \<noteq> []" and "\<forall>f \<in> set fs. 0 \<le> snd f \<and> snd f < 2 ^ 64" and "0 \<le> pl" and "pl < 2 ^ 64"
  shows "assign E (multi_file name fs pl pcs) Meta (zero Meta) =
    Some (VStruct [VString name, VPtr None, VUint pl, VSlice (Some (of_bytes pcs)), VSlice (Some (map file_val fs))])"
proof -
  have "assign E (BList (map file_entry fs)) (TSlice file_type) (VSlice None) = Some (VSlice (Some (map file_val fs)))"
    using assms(1,2) by (intro assign_slice) (simp_all add: assign_file_entry)
  then show ?thesis
    unfolding multi_file_def
    by (intro assign_Meta)
      (use assms in \<open>simp_all add: all_less_5 Meta_nth take_bit_int_eq_self del: assign.simps One_nat_def\<close>)
qed

text \<open>The calls made for one file, for several, and, where the metadata names neither, the panic.\<close>

lemma FillOutline_assign:
  assumes "env_safe E" and "bval_ok b" and "assign E b Meta (zero Meta) = Some v"
  shows "unmarshal_var E (benc b @ rest) Meta (zero Meta) = (None, v)"
  using unmarshal_var_assign [OF assms(1,2) wf_Meta, of rest] assms(3) by simp

lemma FillOutline_single:
  assumes "env_safe E" and "bval_ok (single_file name n pl pcs)" and "0 \<le> n" and "0 \<le> pl"
  shows "FillOutline E (benc (single_file name n pl pcs) @ rest) = (None, [SetName name, AddFile name n])"
proof -
  have "n < 2 ^ 64" "pl < 2 ^ 64" using assms(2) by (simp_all add: single_file_def)
  from FillOutline_assign [OF assms(1,2) assign_single_file [OF assms(3) this(1) assms(4) this(2)], of rest]
  show ?thesis by (simp add: FillOutline_def str_val_def uint_val_def)
qed

lemma FillOutline_multi:
  assumes "env_safe E" and "bval_ok (multi_file name fs pl pcs)" and "fs \<noteq> []"
    and "\<forall>f \<in> set fs. 0 \<le> snd f" and "0 \<le> pl"
  shows "FillOutline E (benc (multi_file name fs pl pcs) @ rest) =
    (None, SetName name # map (\<lambda>(path, n). AddFile (join_path path) n) fs)"
proof -
  have "\<forall>f \<in> set fs. 0 \<le> snd f \<and> snd f < 2 ^ 64" "pl < 2 ^ 64"
    using assms(2,4) by (auto simp: multi_file_def file_entry_def list_all_iff)
  from FillOutline_assign [OF assms(1,2) assign_multi_file [OF assms(3) this(1) assms(5) this(2)], of rest]
  show ?thesis
    by (auto simp: FillOutline_def str_val_def uint_val_def file_val_def add_file_def join_path_def o_def)
qed

lemma FillOutline_neither:
  assumes "env_safe E" and "bval_ok (no_file name pl pcs)" and "0 \<le> pl"
  shows "\<exists>msg. FillOutline E (benc (no_file name pl pcs) @ rest) = (Some (Panic msg), [SetName name])"
proof -
  have "pl < 2 ^ 64" using assms(2) by (simp add: no_file_def)
  from FillOutline_assign [OF assms(1,2) assign_no_file [OF assms(3) this, folded no_file_def], of rest]
  show ?thesis by (simp add: FillOutline_def str_val_def del: benc.simps)
qed

end
