(* ===== verification/Bt_Trackers.thy ===== *)
theory Bt_Trackers
  imports Bt_Tex Bt_Numbers
begin

text \<open>
  Two ends of the tracker exchange (\<open>bt/tex.go\<close> under \<open>bt/extension.go\<close>): the handshake of a center whose
  only extension is the exchange of tracker lists, how a second such center reads it, and the list that
  comes after it.
\<close>

section \<open>The handshake that offers a list\<close>

definition tex_dict :: "bytes \<Rightarrow> (bytes \<times> bval) list" where
  "tex_dict h = [(''m'', numbers [(''lt_tex'', 1)]), (''tr'', BStr h)]"

abbreviation tex_center :: ExtProtocol where
  "tex_center \<equiv> RegistExt (NewExtProtocol []) 0"

abbreviation tex_settled :: ExtProtocol where
  "tex_settled \<equiv> \<lparr>exts = [Some 0], ids = [(''lt_tex'', 1)]\<rparr>"

lemma tex_dict_ok [simp]: "length h = 20 \<Longrightarrow> bval_ok (BDict (tex_dict h))"
  by (simp add: tex_dict_def numbers_def len_ok_def)

lemma tex_body_ok: "length h = 20 \<Longrightarrow> body_ok (ExtID # CHR 0x00 # benc (BDict (tex_dict h)))"
  by (simp add: tex_dict_def numbers_def bstr_def show_int_def show_nat.simps body_ok_def)

lemma Marshal_tex:
  assumes "length h = 20"
  shows "Marshal E (Some (TMap TString TIface, VMap (Some
      [(''tr'', VIface (Some (byte_slice, VSlice (Some (of_bytes h))))),
       (''m'', VIface (Some (TMap TString (TInt 64), VMap (Some [(''lt_tex'', VInt 1)]))))]))) =
    (benc (BDict (tex_dict h)), None)"
proof -
  let ?v = "VMap (Some [(''tr'', VIface (Some (byte_slice, VSlice (Some (of_bytes h))))),
       (''m'', VIface (Some (TMap TString (TInt 64), VMap (Some [(''lt_tex'', VInt 1)]))))])"
  have "good E (TMap TString TIface) ?v"
    using assms by (auto simp: good_def of_bytes_def list_all_iff)
  moreover have "to_bval (TMap TString TIface) ?v = Some (BDict (tex_dict h))"
    by (simp add: to_bval.simps [of "TMap TString TIface"] to_bval.simps [of TIface] to_bval.simps [of byte_slice]
        to_bval.simps [of "TMap TString (TInt 64)"] to_bval.simps [of "TInt 64"] map_elems_def slice_elems_def
        List.map_filter_simps tex_dict_def numbers_def)
  ultimately show ?thesis using Marshal_to_bval by (simp del: benc.simps)
qed

lemma tex_hello:
  assumes "length (trhash sha1 trs) = 20"
  shows "WriteHandshake E (tex_extension E sha1) \<lparr>put_bytes = buffer_put, byte_writer = bw\<rparr> tex_center
      (\<lambda>p. NewTexExtension trs) w =
    (None, \<lambda>p. NewTexExtension trs, w @ message (ExtID # CHR 0x00 # benc (BDict (tex_dict (trhash sha1 trs)))))"
proof -
  let ?b = "benc (BDict (tex_dict (trhash sha1 trs)))"
  have "Marshal E (Some (TMap TString TIface, VMap (Some
      [(''tr'', VIface (Some (byte_slice, VSlice (Some (of_bytes (trhash sha1 trs)))))),
       (''m'', VIface (Some (TMap TString (TInt 64), VMap (Some [(''lt_tex'', VInt 1)]))))]))) = (?b, None)"
    using assms by (rule Marshal_tex)
  moreover have "WriteExtensionMessage buffer_put bw w 0 ?b = (None, w @ message (ExtID # CHR 0x00 # ?b))"
    using tex_body_ok [OF assms] by (simp add: buffer_WriteExtensionMessage del: benc.simps)
  ultimately show ?thesis
    by (simp add: WriteHandshake_def RegistExt_def NewExtProtocol_def tex_BeforeHandshake_def tex_MapKey_def
        NewTexExtension_def Put_def SendBytes_def trhash_def fun_upd_idem del: benc.simps)
qed

section \<open>Reading it, and the list that follows\<close>

lemma isEmpty_iff: "hex z = ''da39a3ee5e6b4b0d3255bfef95601890afd80709'' \<Longrightarrow> isEmpty h \<longleftrightarrow> h = z"
  unfolding isEmpty_def by (metis hex_inj)

lemma tex_answer:
  assumes "length h = 20"
  shows "tex_AfterHandshake bencode_env tex (map (\<lambda>(k, b). (k, benc b)) (tex_dict h)) s =
    (None, tex\<lparr>tex_support := True, tex_more := \<not> isEmpty h\<rparr>, sender_w s)"
proof -
  have "Get bencode_env (map (\<lambda>(k, b). (k, benc b)) (tex_dict h)) ''tr'' byte_slice (VSlice None) =
      (Inr True, VSlice (Some (of_bytes h)))"
    using assms
    by (intro Get_benc [OF bencode_env_ok(2), of _ _ "BStr h"]) (simp_all add: tex_dict_def len_ok_def del: assign.simps)
  then show ?thesis by (simp add: tex_AfterHandshake_def bytes_of_def)
qed

lemma tex_heard:
  assumes "length h = 20"
  shows "HandlePayload bencode_env (tex_extension bencode_env sha1) tex_center st (CHR 0x00 # benc (BDict (tex_dict h))) w =
    (None, tex_settled, st(0 := (st 0)\<lparr>tex_support := True, tex_more := \<not> isEmpty h\<rparr>), w)"
proof -
  have "map_of (tex_dict h) ''m'' = Some (numbers [(''lt_tex'', 1)])" by (simp add: tex_dict_def)
  from peer_handshake_benc [OF tex_dict_ok [OF assms] this, of tex_center "tex_extension bencode_env sha1" st w]
  show ?thesis
    by (simp add: HandlePayload_def RegistExt_def NewExtProtocol_def bytes_of_numbers_def tex_MapKey_def
        tex_answer [OF assms] del: benc.simps)
qed

lemma tex_list_heard:
  assumes "\<forall>tr \<in> set trs. len_ok tr"
  shows "HandlePayload bencode_env (tex_extension bencode_env sha1) tex_settled st (CHR 0x01 # benc (tex_body trs)) w =
    (None, tex_settled, st(0 := (st 0)\<lparr>tex_more := False, trlist := trs\<rparr>), w)"
  by (simp add: HandlePayload_def peer_message_def u8_def tex_HandleMessage_body [OF bencode_env_ok(2) assms]
      del: benc.simps)

lemmas tex_sel = NewTexExtension_def tex_IsSupoort_def More_def TrackerList_def tex_Unsupport_def

text \<open>A peer that does not name the extension.\<close>

lemma tex_unheard:
  assumes "bval_ok (BDict kvs)" and "map_of kvs ''m'' = Some (numbers ms)" and "\<forall>(k, n) \<in> set ms. 0 \<le> n"
    and "map_of ms ''lt_tex'' = None"
  shows "HandlePayload bencode_env (tex_extension bencode_env sha1) tex_center st (CHR 0x00 # benc (BDict kvs)) w =
    (None, \<lparr>exts = [None], ids = bytes_of_numbers ms\<rparr>, st(0 := tex_Unsupport (st 0)), w)"
proof -
  have "map_of (bytes_of_numbers ms) ''lt_tex'' = None"
    using assms(4) by (simp add: bytes_of_numbers_def map_of_map)
  then show ?thesis
    using peer_handshake_benc [OF assms(1-3), of tex_center "tex_extension bencode_env sha1" st w]
    by (simp add: HandlePayload_def RegistExt_def NewExtProtocol_def tex_MapKey_def del: benc.simps)
qed

end
