(* ===== verification/Go_Net.thy ===== *)
theory Go_Net
  imports Tools Strconv
begin

text \<open>
  The text of an IP address, \<open>net.IP.String\<close>, and of an address with its port, \<open>%s:%d\<close>, as the crawler
  and the sniffer print them.
\<close>

section \<open>Addresses\<close>

text \<open>\<open>To4\<close>: the four bytes of an IPv4 address, in its short or its 16-byte form.\<close>

definition To4 :: "bytes \<Rightarrow> bytes option" where
  "To4 ip =
     (if length ip = 4 then Some ip
      else if length ip = 16 \<and> take 12 ip = replicate 10 (CHR 0x00) @ [CHR 0xFF, CHR 0xFF] then Some (drop 12 ip)
      else None)"

definition dotted :: "bytes \<Rightarrow> string" where
  "dotted p =
     show_nat (of_char (p ! 0)) @ ''.'' @ show_nat (of_char (p ! 1)) @ ''.'' @
     show_nat (of_char (p ! 2)) @ ''.'' @ show_nat (of_char (p ! 3))"

fun show_hex :: "nat \<Rightarrow> string" where
  "show_hex n = (if n < 16 then [hex_digit n] else show_hex (n div 16) @ [hex_digit (n mod 16)])"

declare show_hex.simps [simp del]

text \<open>The eight 16-bit groups of a 16-byte address.\<close>

definition groups :: "bytes \<Rightarrow> nat list" where
  "groups ip = map (\<lambda>i. of_char (ip ! (2 * i)) * 256 + of_char (ip ! (2 * i + 1))) [0..<8]"

text \<open>The first of the longest runs of zero groups, if it has more than one: its start and its end.\<close>

definition zero_run :: "nat list \<Rightarrow> (nat \<times> nat) option" where
  "zero_run gs =
     (let run = (\<lambda>i. length (takeWhile (\<lambda>g. g = 0) (drop i gs)));
          m = Max (set (map run [0..<length gs]))
      in if m < 2 then None
         else map_option (\<lambda>i. (i, i + m)) (List.find (\<lambda>i. run i = m) [0..<length gs]))"

definition colons :: "nat list \<Rightarrow> string" where
  "colons gs = concat (map (\<lambda>(i, g). (if i = 0 then [] else '':'') @ show_hex g) (enumerate 0 gs))"

definition IPv6_String :: "bytes \<Rightarrow> string" where
  "IPv6_String ip =
     (case zero_run (groups ip) of
        None \<Rightarrow> colons (groups ip)
      | Some (e0, e1) \<Rightarrow> colons (take e0 (groups ip)) @ ''::'' @ colons (drop e1 (groups ip)))"

definition IP_String :: "bytes \<Rightarrow> string" where
  "IP_String ip =
     (if ip = [] then ''<nil>''
      else case To4 ip of
        Some p \<Rightarrow> dotted p
      | None \<Rightarrow> if length ip \<noteq> 16 then ''?'' @ hex ip else IPv6_String ip)"

text \<open>\<open>fmt.Sprintf("%s:%d", ip, port)\<close>\<close>

definition host_port :: "bytes \<Rightarrow> int \<Rightarrow> string" where
  "host_port ip port = IP_String ip @ '':'' @ show_int port"

section \<open>IPv4 and IPv6\<close>

lemma IP_String_IPv4: "IP_String (net_IPv4 a b c d) = dotted [a, b, c, d]"
  by (simp add: IP_String_def To4_def net_IPv4_def eval_nat_numeral)

lemma show_nat_colon: "count_list (show_nat n) CHR '':'' = 0"
  using show_nat_digits [of "CHR '':''" n] by (auto simp: count_list_0_iff is_digit_def)

lemma host_port_IPv4: "0 \<le> port \<Longrightarrow> count_list (host_port (net_IPv4 a b c d) port) CHR '':'' = 1"
  by (simp add: host_port_def IP_String_IPv4 dotted_def show_int_def show_nat_colon)


lemma hex_digit_colon: "n < 16 \<Longrightarrow> hex_digit n \<noteq> CHR '':''"
  using nth_mem [of n "''0123456789abcdef''"] by (auto simp: hex_digit_def)

lemma show_hex_colon: "count_list (show_hex n) CHR '':'' = 0"
proof (induction n rule: show_hex.induct)
  case (1 n)
  then show ?case using hex_digit_colon [of n] hex_digit_colon [of "n mod 16"] by (subst show_hex.simps) simp
qed

lemma count_colons: "count_list (concat (map (\<lambda>(i, g). (if i = 0 then [] else '':'') @ show_hex g) (enumerate k gs))) CHR '':'' =
    (if k = 0 then length gs - 1 else length gs)"
  by (induction gs arbitrary: k) (auto simp: show_hex_colon)

text \<open>An IPv6 address is not put into brackets, so the text has no one place where the port begins.\<close>

lemma host_port_IPv6:
  assumes "length ip = 16" and "To4 ip = None"
  shows "3 \<le> count_list (host_port ip port) CHR '':''"
proof -
  have "2 \<le> count_list (IPv6_String ip) CHR '':''"
    using count_colons [of 0 "groups ip"]
    by (auto simp: IPv6_String_def colons_def groups_def split: option.split)
  moreover have "ip \<noteq> []" using assms(1) by auto
  ultimately show ?thesis using assms by (simp add: host_port_def IP_String_def)
qed

end
