(* ===== verification/Bt_Properties.thy ===== *)
theory Bt_Properties
  imports Bt_Fetch_Ends Bt_Settle Bt_Metadata Sniffer Bt_Trackers Go_Net
begin

text \<open>
  What packages \<open>tools\<close> and \<open>bt\<close> and the spider guarantee: messages and handshakes on the wire, the
  extension protocol, the fetching of metadata, and what reaches the pipeline.
\<close>

section \<open>The wire\<close>

text \<open>Several messages, one after the other.\<close>

fun WriteMessages :: "'w put \<Rightarrow> (byte \<times> bytes) list \<Rightarrow> 'w \<Rightarrow> gerror option \<times> 'w" where
  "WriteMessages put [] w = (None, w)"
| "WriteMessages put ((mid, payload) # ms) w = and_then (WriteMessage put w mid payload) (WriteMessages put ms)"

lemma WriteMessages_buffer:
  "\<forall>(mid, payload) \<in> set ms. body_ok (mid # payload) \<Longrightarrow>
    WriteMessages buffer_put ms w = (None, w @ concat (map (\<lambda>(mid, payload). message (mid # payload)) ms))"
proof (induction ms arbitrary: w)
  case (Cons m ms)
  obtain mid payload where m: "m = (mid, payload)" by fastforce
  obtain w' where w': "WriteMessage buffer_put w mid payload = (None, w')"
    by (auto simp: WriteMessage_def buffer_put_def and_then_def)
  then have "w' = w @ message (mid # payload)"
    using buffer.WriteMessage_sent [OF _ _ w'] Cons.prems m by (simp add: buffer_put_def)
  then show ?case using Cons.IH [of w'] Cons.prems w' m by (simp add: and_then_def)
qed simp

text \<open>
  C30. Messages survive the stream: any sequence of messages, written one after the other with
  \<open>WriteMessage\<close>, is read back by \<open>ReadMessage\<close>, in order and with nothing left over or taken too much.
\<close>

theorem messages_read_back:
  assumes "\<forall>(mid, payload) \<in> set ms. body_ok (mid # payload)"
  shows "\<exists>bs. WriteMessages buffer_put ms [] = (None, bs) \<and>
    dec_seq read_frame (length ms) (bs @ rest) = Some (map (\<lambda>(mid, payload). mid # payload) ms, rest)"
proof -
  let ?bodies = "map (\<lambda>(mid, payload). mid # payload) ms"
  have "\<forall>body \<in> set ?bodies. body_ok body" using assms by auto
  moreover have "map message ?bodies = map (\<lambda>(mid, payload). message (mid # payload)) ms" by auto
  ultimately show ?thesis
    using messages.dec_seq_frames [of ?bodies rest] by (simp add: WriteMessages_buffer [OF assms] del: map_map)
qed

theorem messages_read_back_witness:
  "\<exists>bs. WriteMessages buffer_put [(CHR ''a'', ''b''), (CHR ''x'', [])] [] = (None, bs) \<and>
     dec_seq read_frame (length [(CHR ''a'', ''b''), (CHR ''x'', [])]) (bs @ ''!'') = Some ([''ab'', ''x''], ''!'')"
proof -
  have "\<forall>(mid, payload) \<in> set [(CHR ''a'', ''b''), (CHR ''x'', [])]. body_ok (mid # payload)"
    by (simp add: body_ok_def)
  from messages_read_back [OF this, of "''!''"] show ?thesis by (simp only: list.map prod.case)
qed

lemma message_limit_any:
  assumes "ReadMessageWithLimit r limit = (m, e, r')"
  shows "(case m of Some buf \<Rightarrow> length buf \<le> unat limit | None \<Rightarrow> e \<noteq> None) \<and>
    (e = None \<longrightarrow> length (avail r') < length (avail r))"
  using assms ReadMessageWithLimit_bound [of r limit] ReadMessageWithLimit_shorter [of r limit m r']
  by (cases m; cases e) (auto simp: ReadMessageWithLimit_def split: prod.splits sum.splits if_splits)

text \<open>
  C31. The limit of \<open>ReadMessageWithLimit\<close>: a length above it is refused with an error that names the
  length, and no more than its four bytes are taken off the stream; a length within it makes the call
  return that many bytes and leave the rest, or an error when they do not all arrive, as when the stream
  ends within the length. So whatever arrives, what it returns is no longer than the limit, and every message
  that was read took its length off the stream.
\<close>

theorem message_limit:
  assumes "n < 2 ^ 32"
  shows "(unat limit < n \<longrightarrow> ReadMessageWithLimit \<lparr>avail = put_be 4 n @ rest, closing = e\<rparr> limit =
      (None, Some (OtherError (''message length is['' @ show_nat n @ ''] too large'')), \<lparr>avail = rest, closing = e\<rparr>)) \<and>
    (n \<le> unat limit \<and> n \<le> length rest \<longrightarrow> ReadMessageWithLimit \<lparr>avail = put_be 4 n @ rest, closing = e\<rparr> limit =
      (Some (take n rest), None, \<lparr>avail = drop n rest, closing = e\<rparr>)) \<and>
    (n \<le> unat limit \<and> length rest < n \<longrightarrow>
      (\<exists>buf. ReadMessageWithLimit \<lparr>avail = put_be 4 n @ rest, closing = e\<rparr> limit =
        (Some buf, Some (if e = EOF \<and> rest \<noteq> [] then UnexpectedEOF else e), \<lparr>avail = [], closing = e\<rparr>))) \<and>
    (length short < 4 \<longrightarrow> ReadMessageWithLimit \<lparr>avail = short, closing = e\<rparr> limit =
      (None, Some (if e = EOF \<and> short \<noteq> [] then UnexpectedEOF else e), \<lparr>avail = [], closing = e\<rparr>)) \<and>
    (case ReadMessageWithLimit r limit of
       (m, e', r') \<Rightarrow> (case m of Some buf \<Rightarrow> length buf \<le> unat limit | None \<Rightarrow> e' \<noteq> None) \<and>
         (e' = None \<longrightarrow> length (avail r') < length (avail r)))"
proof -
  have four: "read_uint32 \<lparr>avail = put_be 4 n @ rest, closing = e\<rparr> = (Inr (word_of_nat n), \<lparr>avail = rest, closing = e\<rparr>)"
    using assms by (subst read_uint32_append [where n = n and rest = rest]) simp_all
  have "limit < word_of_nat n \<longleftrightarrow> unat limit < n"
    using assms by (simp add: word_less_nat_alt)
  then have within: "ReadMessageWithLimit \<lparr>avail = put_be 4 n @ rest, closing = e\<rparr> limit =
      (if unat limit < n then (None, Some (too_large (word_of_nat n)), \<lparr>avail = rest, closing = e\<rparr>)
       else case read_full n \<lparr>avail = rest, closing = e\<rparr> of (buf, err, r2) \<Rightarrow> (Some buf, err, r2))"
    using assms by (simp add: ReadMessageWithLimit_def four)
  have short: "length short < 4 \<longrightarrow> ReadMessageWithLimit \<lparr>avail = short, closing = e\<rparr> limit =
      (None, Some (if e = EOF \<and> short \<noteq> [] then UnexpectedEOF else e), \<lparr>avail = [], closing = e\<rparr>)"
    by (simp add: ReadMessageWithLimit_def read_uint32_def read_full_def read_rest_def)
  show ?thesis
    using message_limit_any [of r limit] assms
    by (intro conjI impI short) (auto simp: within too_large_def read_full_def read_off_def read_rest_def split: prod.split)
qed

theorem message_limit_witness:
  "ReadMessageWithLimit \<lparr>avail = [CHR 0x00, CHR 0x00, CHR 0x00, CHR 0x06] @ ''abcdef'', closing = EOF\<rparr> 5 =
     (None, Some (OtherError ''message length is[6] too large''), \<lparr>avail = ''abcdef'', closing = EOF\<rparr>) \<and>
   ReadMessageWithLimit \<lparr>avail = [CHR 0x00, CHR 0x00, CHR 0x00, CHR 0x06] @ ''abcdef'', closing = EOF\<rparr> 6 =
     (Some ''abcdef'', None, \<lparr>avail = [], closing = EOF\<rparr>)"
proof -
  have len: "(6 :: nat) < 2 ^ 32" by simp
  have "put_be 4 6 = [CHR 0x00, CHR 0x00, CHR 0x00, CHR 0x06]" "show_nat 6 = ''6''" by code_simp+
  then show ?thesis
    using message_limit [OF len, of 5 "''abcdef''" EOF, THEN conjunct1]
      message_limit [OF len, of 6 "''abcdef''" EOF, THEN conjunct2, THEN conjunct1] by simp
qed

text \<open>
  C32. The handshake. Dialling writes 68 bytes: the byte 19, the name of the protocol, the reserved bits
  as eight bytes, the info hash and the peer ID; and it reads as many, of which the stream then holds the
  reserved bits, the info hash and the peer ID, with what the peer sends next still to be read. A
  connection that fails at the handshake is closed, and one that goes through speaks the protocol.
\<close>

theorem dialling:
  assumes "length ih' = 20" and "length pid' = 20"
    and "avail (conn_in c) = CHR 0x13 # ''BitTorrent protocol'' @ put_be 8 (unat res') @ ih' @ pid' @ rest"
    and "put (conn_out c) (CHR 0x13 # ''BitTorrent protocol'' @ put_be 8 (unat res) @ ih @ pid) = (None, w)"
  shows "(\<exists>s. DialUseTCP put (Inr c) ih pid res = (None, Some s) \<and> conn_out (conn s) = w \<and>
      protocol s = ''BitTorrent protocol'' \<and> infoHash s = ih' \<and> peerID s = pid' \<and> reserved s = res' \<and>
      avail (conn_in (conn s)) = rest \<and> closed (conn s) = closed c) \<and>
    (case DialUseTCP put dialled ih pid res of
        (None, s') \<Rightarrow> pred_option (\<lambda>s. protocol s = ''BitTorrent protocol'') s'
      | (Some e, s') \<Rightarrow> pred_option (\<lambda>s. closed (conn s)) s')"
proof
  have "avail (conn_in c) = greeting ih' pid' res' @ rest" "put (conn_out c) (greeting ih pid res) = (None, w)"
    using assms(3,4) by (simp_all add: greeting_def Protocol_def)
  then show "\<exists>s. DialUseTCP put (Inr c) ih pid res = (None, Some s) \<and> conn_out (conn s) = w \<and>
      protocol s = ''BitTorrent protocol'' \<and> infoHash s = ih' \<and> peerID s = pid' \<and> reserved s = res' \<and>
      avail (conn_in (conn s)) = rest \<and> closed (conn s) = closed c"
    using handshake_greeting [where s = "new_stream c" and put = put, OF assms(1,2)]
    by (auto simp: DialUseTCP_def new_stream_def Protocol_def)
  show "case DialUseTCP put dialled ih pid res of
        (None, s') \<Rightarrow> pred_option (\<lambda>s. protocol s = ''BitTorrent protocol'') s'
      | (Some e, s') \<Rightarrow> pred_option (\<lambda>s. closed (conn s)) s'"
    using DialUseTCP_protocol [of put dialled ih pid res] DialUseTCP_failed_closed [of put dialled ih pid res]
    by (auto simp: option.pred_set Protocol_def split: prod.split option.split)
qed

definition greeting_conn :: "bytes conn" where
  "greeting_conn = \<lparr>conn_out = [], conn_in = \<lparr>avail = CHR 0x13 # ''BitTorrent protocol'' @ put_be 8 (unat (0 :: 64 word)) @
     replicate 20 CHR ''h'' @ replicate 20 CHR ''p'' @ ''next'', closing = EOF\<rparr>, closed = False\<rparr>"

theorem dialling_witness:
  "\<exists>s. DialUseTCP buffer_put (Inr greeting_conn) (replicate 20 CHR ''h'') (replicate 20 CHR ''q'') 5 = (None, Some s) \<and>
     conn_out (conn s) = CHR 0x13 # ''BitTorrent protocol'' @ 
       [CHR 0x00, CHR 0x00, CHR 0x00, CHR 0x00, CHR 0x00, CHR 0x00, CHR 0x00, CHR 0x05] @
       replicate 20 CHR ''h'' @ replicate 20 CHR ''q'' \<and>
     avail (conn_in (conn s)) = ''next''"
proof -
  have "put_be 8 5 = [CHR 0x00, CHR 0x00, CHR 0x00, CHR 0x00, CHR 0x00, CHR 0x00, CHR 0x00, CHR 0x05]" by code_simp
  then show ?thesis
    using dialling [THEN conjunct1, of "replicate 20 CHR ''h''" "replicate 20 CHR ''p''" greeting_conn 0 "''next''" buffer_put 5
        "replicate 20 CHR ''h''" "replicate 20 CHR ''q''"]
    by (auto simp: buffer_put_def greeting_conn_def)
qed

section \<open>Extensions\<close>

text \<open>
  C33. Two centers agree on the numbers: for any extensions with different names, registered one after the
  other, what \<open>WriteHandshake\<close> writes is one message, and another center that is handed it goes by a
  number for each name, \<open>j + 1\<close> for the one in slot \<open>j\<close>. A message sent under that number is handed by
  the first center to the extension in slot \<open>j\<close>, with the peer's number for it to answer under, and to no
  other, as long as that slot was not struck off.
\<close>

theorem numbers_agree:
  assumes "adds_nothing X" and "distinct (keys_of X st ps)" and "length ps < 256"
    and "proto = foldl RegistExt (NewExtProtocol []) ps"
    and "\<forall>p \<in> set ps. len_ok (MapKey X (st p))"
    and "body_ok (ExtID # CHR 0x00 # benc (BDict (handshake_dict X st ps)))" and "ids proto' = []"
  shows "\<exists>hello ms. WriteHandshake E X \<lparr>put_bytes = buffer_put, byte_writer = bw\<rparr> proto st [] =
      (None, st, message (ExtID # CHR 0x00 # hello)) \<and>
    HandlePayload bencode_env X' proto' st' (CHR 0x00 # hello) w =
      (case settle_exts X' ms (map (\<lambda>(k, b). (k, benc b)) (handshake_dict X st ps)) (exts proto') st' w of
         (r, es, st'', w') \<Rightarrow> (r, \<lparr>exts = es, ids = ms\<rparr>, st'', w')) \<and>
    (\<forall>j < length ps. \<exists>n b0. map_of ms (MapKey X (st (ps ! j))) = Some n \<and> n = word_of_nat (j + 1) \<and>
       (\<forall>content out. body_ok (ExtID # b0 # content) \<longrightarrow>
          SendBytes \<lparr>put_bytes = buffer_put, byte_writer = bw\<rparr> \<lparr>sender_id = n, sender_w = out\<rparr> content =
            (None, out @ message (ExtID # b0 # content))) \<and>
       (\<forall>heard st2 w2 content. length (exts heard) = length ps \<and> exts heard ! j = exts proto ! j \<and> ids heard \<noteq> [] \<longrightarrow>
          HandlePayload E X heard st2 (b0 # content) w2 =
            (case HandleMessage X (st2 (ps ! j)) content
                \<lparr>sender_id = (case map_of (ids heard) (MapKey X (st2 (ps ! j))) of Some k \<Rightarrow> k | None \<Rightarrow> 0), sender_w = w2\<rparr> of
               (r, x, w3) \<Rightarrow> (r, heard, st2(ps ! j := x), w3))))"
proof -
  let ?hello = "benc (BDict (handshake_dict X st ps))"
  have list: "exts proto = map Some ps" by (simp add: assms(4) registered NewExtProtocol_def)
  have sent: "WriteHandshake E X \<lparr>put_bytes = buffer_put, byte_writer = bw\<rparr> proto st [] =
      (None, st, message (ExtID # CHR 0x00 # ?hello))"
    using WriteHandshake_numbers [OF assms(1-3) list assms(6), of E bw "[]"] by simp
  obtain ms where heard: "HandlePayload bencode_env X' proto' st' (CHR 0x00 # ?hello) w =
      (case settle_exts X' ms (map (\<lambda>(k, b). (k, benc b)) (handshake_dict X st ps)) (exts proto') st' w of
         (r, es, st'', w') \<Rightarrow> (r, \<lparr>exts = es, ids = ms\<rparr>, st'', w'))"
      "\<forall>j < length ps. map_of ms (MapKey X (st (ps ! j))) = Some (word_of_nat (j + 1))"
    using peer_reads_numbers [OF assms(5,2,3,7), of X' st' w] by (auto simp: HandlePayload_def simp del: benc.simps)
  have slots: "\<forall>j < length ps. \<exists>n b0. map_of ms (MapKey X (st (ps ! j))) = Some n \<and> n = word_of_nat (j + 1) \<and>
      (\<forall>content out. body_ok (ExtID # b0 # content) \<longrightarrow>
         SendBytes \<lparr>put_bytes = buffer_put, byte_writer = bw\<rparr> \<lparr>sender_id = n, sender_w = out\<rparr> content =
           (None, out @ message (ExtID # b0 # content))) \<and>
      (\<forall>heard st2 w2 content. length (exts heard) = length ps \<and> exts heard ! j = exts proto ! j \<and> ids heard \<noteq> [] \<longrightarrow>
         HandlePayload E X heard st2 (b0 # content) w2 =
           (case HandleMessage X (st2 (ps ! j)) content
               \<lparr>sender_id = (case map_of (ids heard) (MapKey X (st2 (ps ! j))) of Some k \<Rightarrow> k | None \<Rightarrow> 0), sender_w = w2\<rparr> of
              (r, x, w3) \<Rightarrow> (r, heard, st2(ps ! j := x), w3)))"
  proof (intro allI impI exI conjI)
    fix j assume j: "j < length ps"
    show "map_of ms (MapKey X (st (ps ! j))) = Some (word_of_nat (j + 1))" using heard(2) j by blast
    show "SendBytes \<lparr>put_bytes = buffer_put, byte_writer = bw\<rparr> \<lparr>sender_id = word_of_nat (j + 1), sender_w = out\<rparr> content =
        (None, out @ message (ExtID # byte_of (word_of_nat (j + 1)) # content))"
      if "body_ok (ExtID # byte_of (word_of_nat (j + 1)) # content)" for content out
      using buffer_WriteExtensionMessage [OF that] by (simp only: SendBytes_def writer.simps ExtMsgSender.simps)
    show "HandlePayload E X heard st2 (byte_of (word_of_nat (j + 1)) # content) w2 =
        (case HandleMessage X (st2 (ps ! j)) content
            \<lparr>sender_id = (case map_of (ids heard) (MapKey X (st2 (ps ! j))) of Some k \<Rightarrow> k | None \<Rightarrow> 0), sender_w = w2\<rparr> of
           (r, x, w3) \<Rightarrow> (r, heard, st2(ps ! j := x), w3))"
      if "length (exts heard) = length ps \<and> exts heard ! j = exts proto ! j \<and> ids heard \<noteq> []" for heard st2 w2 content
      using that j assms(3) list by (intro payload_to_slot) simp_all
  qed simp
  show ?thesis using sent heard(1) slots by blast
qed

lemma fm_adds_nothing: "adds_nothing (fm_extension E wr)"
  by (simp add: adds_nothing_def fm_BeforeHandshake_def)

abbreviation to_buffer :: "bytes writer" where
  "to_buffer \<equiv> \<lparr>put_bytes = buffer_put, byte_writer = False\<rparr>"

theorem numbers_agree_witness:
  "\<exists>hello b0. WriteHandshake bencode_env (fm_extension bencode_env to_buffer) to_buffer (RegistExt (NewExtProtocol []) 0)
      (\<lambda>p. NewFetchMetaExt []) [] = (None, (\<lambda>p. NewFetchMetaExt []), message (ExtID # CHR 0x00 # hello)) \<and>
    SendBytes to_buffer \<lparr>sender_id = 1, sender_w = ''>''\<rparr> ''x'' = (None, ''>'' @ message (ExtID # b0 # ''x'')) \<and>
    HandlePayload bencode_env (fm_extension bencode_env to_buffer) (fm_started 3) (\<lambda>p. NewFetchMetaExt []) (b0 # ''x'') [] =
      (case fm_HandleMessage bencode_env (NewFetchMetaExt []) ''x'' \<lparr>sender_id = 3, sender_w = []\<rparr> of
         (r, x, w) \<Rightarrow> (r, fm_started 3, (\<lambda>p. NewFetchMetaExt [])(0 := x), w))"
proof -
  let ?X = "fm_extension bencode_env to_buffer" and ?st = "\<lambda>p :: nat. NewFetchMetaExt []"
  have "body_ok (ExtID # CHR 0x00 # benc (BDict (handshake_dict ?X ?st [0])))"
    by (simp add: handshake_dict_def numbers_def fm_MapKey_def bstr_def show_int_def show_nat.simps body_ok_def)
  moreover have "RegistExt (NewExtProtocol []) 0 = foldl RegistExt (NewExtProtocol []) [0]" by simp
  moreover have "\<forall>p \<in> set [0 :: nat]. len_ok (MapKey ?X (?st p))" by (simp add: fm_MapKey_def len_ok_def)
  ultimately obtain hello ms where hello: "WriteHandshake bencode_env ?X to_buffer (RegistExt (NewExtProtocol []) 0) ?st [] =
      (None, ?st, message (ExtID # CHR 0x00 # hello))"
    and slots: "\<forall>j < length [0 :: nat]. \<exists>n b0. map_of ms (MapKey ?X (?st ([0] ! j))) = Some n \<and> n = word_of_nat (j + 1) \<and>
       (\<forall>content out. body_ok (ExtID # b0 # content) \<longrightarrow>
          SendBytes to_buffer \<lparr>sender_id = n, sender_w = out\<rparr> content = (None, out @ message (ExtID # b0 # content))) \<and>
       (\<forall>heard st2 w2 content. length (exts heard) = length [0 :: nat] \<and>
            exts heard ! j = exts (RegistExt (NewExtProtocol []) 0) ! j \<and> ids heard \<noteq> [] \<longrightarrow>
          HandlePayload bencode_env ?X heard st2 (b0 # content) w2 =
            (case HandleMessage ?X (st2 ([0] ! j)) content
                \<lparr>sender_id = (case map_of (ids heard) (MapKey ?X (st2 ([0] ! j))) of Some k \<Rightarrow> k | None \<Rightarrow> 0), sender_w = w2\<rparr> of
               (r, x, w3) \<Rightarrow> (r, heard, st2([0] ! j := x), w3)))"
    using numbers_agree [where X = ?X and st = ?st and ps = "[0]" and E = bencode_env and bw = False and X' = ?X and st' = ?st
        and proto = "RegistExt (NewExtProtocol []) 0" and proto' = "NewExtProtocol []" and w = "[]", OF fm_adds_nothing]
    by (auto simp: NewExtProtocol_def simp del: benc.simps)
  from slots obtain b0 where "SendBytes to_buffer \<lparr>sender_id = 1, sender_w = ''>''\<rparr> ''x'' = (None, ''>'' @ message (ExtID # b0 # ''x''))"
      "HandlePayload bencode_env ?X (fm_started 3) ?st (b0 # ''x'') [] =
        (case fm_HandleMessage bencode_env (NewFetchMetaExt []) ''x'' \<lparr>sender_id = 3, sender_w = []\<rparr> of
           (r, x, w) \<Rightarrow> (r, fm_started 3, ?st(0 := x), w))"
    by (force simp: body_ok_def fm_started_def RegistExt_def NewExtProtocol_def bytes_of_numbers_def fm_MapKey_def)
  with hello show ?thesis by blast
qed

lemma buffer_reliable: "reliable buffer_put"
  by (simp add: reliable_def buffer_put_def)

definition hash20 :: "bytes \<Rightarrow> bytes" where
  "hash20 s = replicate 20 CHR ''h''"

text \<open>
  C34. The state of a connection with any extensions, tracker exchange or fetching of metadata, registered one
  after the other: the first payload that goes through is a handshake; and from then on, whatever else
  arrives, an extension is still in its slot if and only if the peer has given its name a number other than
  0, and it is supported if and only if it is still there. The numbers are those of the peer's handshake,
  until it sends another one.
\<close>

theorem connection_settled:
  fixes w :: 'w
  assumes "received E (sniffer_exts E sha1 wr) (proto, st, w) bs (proto', st', w')"
    and "proto = foldl RegistExt (NewExtProtocol []) ps" and "distinct ps" and "bs \<noteq> []"
  shows "is_hello (hd bs) \<and> length (exts proto') = length ps \<and>
    (\<forall>i < length ps.
       exts proto' ! i =
         (if \<exists>n. n \<noteq> 0 \<and> map_of (ids proto') (case st (ps ! i) of Inl tex \<Rightarrow> ''lt_tex'' | Inr fm \<Rightarrow> ''ut_metadata'') = Some n
          then Some (ps ! i) else None) \<and>
       (case st' (ps ! i) of Inl tex \<Rightarrow> tex_IsSupoort tex | Inr fm \<Rightarrow> IsSupoort fm) = (exts proto' ! i = Some (ps ! i))) \<and>
    (E = bencode_env \<and> bs = (CHR 0x00 # benc (BDict kvs)) # bs' \<and> (\<forall>b \<in> set bs'. \<not> is_hello b) \<and> bval_ok (BDict kvs) \<and>
      map_of kvs ''m'' = Some (numbers ms) \<and> (\<forall>(k, n) \<in> set ms. 0 \<le> n) \<longrightarrow> ids proto' = bytes_of_numbers ms)"
proof -
  let ?X = "sniffer_exts E sha1 wr" and ?S = "case_sum tex_support support"
  have new: "exts proto = map Some ps" "ids proto = []" by (simp_all add: assms(2) registered NewExtProtocol_def)
  have "extension.agreed ?X ?S ps proto' st'"
    using sniffer.received_agreed [OF assms(1) new assms(3)] assms(4) by simp
  moreover have keys: "MapKey ?X (st' p) = MapKey ?X (st p)" for p
    using sniffer.received_keeps [OF assms(1), of p] by simp
  have name: "MapKey ?X x = (case x of Inl tex \<Rightarrow> ''lt_tex'' | Inr fm \<Rightarrow> ''ut_metadata'')" for x
    by (simp add: sniffer_exts_def tex_MapKey_def fm_MapKey_def split: sum.split)
  have "was_named ?X m (st' p) \<longleftrightarrow>
      (\<exists>n. n \<noteq> 0 \<and> map_of m (case st p of Inl tex \<Rightarrow> ''lt_tex'' | Inr fm \<Rightarrow> ''ut_metadata'') = Some n)" for m p
    unfolding was_named_def keys unfolding name ..
  moreover have "?S x = (case x of Inl tex \<Rightarrow> tex_IsSupoort tex | Inr fm \<Rightarrow> IsSupoort fm)" for x
    by (simp add: tex_IsSupoort_def IsSupoort_def split: sum.split)
  ultimately have "length (exts proto') = length ps \<and> (\<forall>i < length ps.
       exts proto' ! i =
         (if \<exists>n. n \<noteq> 0 \<and> map_of (ids proto') (case st (ps ! i) of Inl tex \<Rightarrow> ''lt_tex'' | Inr fm \<Rightarrow> ''ut_metadata'') = Some n
          then Some (ps ! i) else None) \<and>
       (case st' (ps ! i) of Inl tex \<Rightarrow> tex_IsSupoort tex | Inr fm \<Rightarrow> IsSupoort fm) = (exts proto' ! i = Some (ps ! i)))"
    by (simp add: sniffer.agreed_def)
  moreover have "ids proto' = bytes_of_numbers ms"
    if "E = bencode_env" "bs = (CHR 0x00 # benc (BDict kvs)) # bs'" "\<forall>b \<in> set bs'. \<not> is_hello b" "bval_ok (BDict kvs)"
      "map_of kvs ''m'' = Some (numbers ms)" "\<forall>(k, n) \<in> set ms. 0 \<le> n"
    using assms(1) unfolding that(1,2) by (rule received_numbers [OF _ new(2) that(3-6)])
  ultimately show ?thesis
    using received_is_hello [OF assms(1) new(2) assms(4)] by blast
qed

text \<open>A peer that names the exchange of trackers only, with the number 2.\<close>

definition tracker_hello :: "(bytes \<times> bval) list" where
  "tracker_hello = [(''m'', numbers [(''lt_tex'', 2)])]"

definition both_exts :: "ext_object store" where
  "both_exts p = (if p = 0 then Inl (NewTexExtension []) else Inr (NewFetchMetaExt []))"

theorem connection_settled_witness:
  "\<exists>proto' st' w'. received bencode_env (sniffer_exts bencode_env hash20 to_buffer)
      (foldl RegistExt (NewExtProtocol []) [0, 1], both_exts, []) [CHR 0x00 # benc (BDict tracker_hello)] (proto', st', w') \<and>
     exts proto' = [Some 0, None] \<and> ids proto' = [(''lt_tex'', 2)]"
proof -
  let ?X = "sniffer_exts bencode_env hash20 to_buffer" and ?proto = "foldl RegistExt (NewExtProtocol []) [0, 1]"
  have ok: "bval_ok (BDict tracker_hello)" "map_of tracker_hello ''m'' = Some (numbers [(''lt_tex'', 2)])"
      "\<forall>(k, n) \<in> set [(''lt_tex'', 2 :: int)]. 0 \<le> n"
    by (simp_all add: tracker_hello_def numbers_def len_ok_def)
  have "\<exists>proto' st' w'. HandlePayload bencode_env ?X ?proto both_exts (CHR 0x00 # benc (BDict tracker_hello)) [] = (None, proto', st', w')"
    using peer_handshake_benc [OF ok, of ?proto ?X both_exts "[]"]
    by (simp add: HandlePayload_def RegistExt_def NewExtProtocol_def sniffer_exts_def both_exts_def tex_MapKey_def fm_MapKey_def
        bytes_of_numbers_def map_ext_def tex_AfterHandshake_def Get_def tracker_hello_def del: benc.simps)
  then obtain proto' st' w' where "received bencode_env ?X (?proto, both_exts, []) [CHR 0x00 # benc (BDict tracker_hello)] (proto', st', w')"
    using received.payload [OF received.start] by (metis append_Nil)
  note run = this
  have two: "distinct [0, 1 :: nat]" "[CHR 0x00 # benc (BDict tracker_hello)] \<noteq> []" by simp_all
  have "ids proto' = bytes_of_numbers [(''lt_tex'', 2)]"
    using connection_settled [OF run refl two, of tracker_hello "[]" "[(''lt_tex'', 2)]"] ok by simp
  then have numbers: "ids proto' = [(''lt_tex'', 2)]" by (simp add: bytes_of_numbers_def)
  have "length (exts proto') = 2" "exts proto' ! 0 = Some 0" "exts proto' ! 1 = None"
    using connection_settled [OF run refl two] by (simp_all add: numbers both_exts_def)
  then have "exts proto' = [Some 0, None]"
    by (intro nth_equalityI) (auto simp: less_2_cases_iff)
  with run numbers show ?thesis by blast
qed

definition tracker_sha :: "bytes \<Rightarrow> bytes" where
  "tracker_sha s = (if s = []
     then map char_of [0xda, 0x39, 0xa3, 0xee, 0x5e, 0x6b, 0x4b, 0x0d, 0x32, 0x55, 0xbf, 0xef, 0x95, 0x60, 0x18, 0x90, 0xaf, 0xd8, 0x07, 0x09 :: nat]
     else replicate 20 CHR ''h'')"

lemma tracker_sha_empty: "hex (tracker_sha []) = ''da39a3ee5e6b4b0d3255bfef95601890afd80709''"
  by code_simp

text \<open>
  C25. Trackers change hands: the handshake of a center with a list of trackers is one message; the center
  that reads it has the peer down as supporting the exchange, with more to tell exactly when the list does
  not hash like the empty one, and its own list untouched. A list that then arrives under the number agreed
  on replaces its own and leaves nothing more to tell. A peer whose handshake does not name the exchange is
  struck off and has nothing to tell.
\<close>

theorem trackers_exchanged:
  assumes "hex (sha1 []) = ''da39a3ee5e6b4b0d3255bfef95601890afd80709''" and "\<forall>s. length (sha1 s) = 20"
    and "\<forall>tr \<in> set news. len_ok tr"
    and "bval_ok (BDict kvs)" "map_of kvs ''m'' = Some (numbers ms)" "\<forall>(k, n) \<in> set ms. 0 \<le> n" "map_of ms ''lt_tex'' = None"
  shows "\<exists>hello heard told refused.
    WriteHandshake bencode_env (tex_extension bencode_env sha1) \<lparr>put_bytes = buffer_put, byte_writer = bw\<rparr> tex_center
      (\<lambda>p. NewTexExtension trs) [] = (None, \<lambda>p. NewTexExtension trs, message (ExtID # CHR 0x00 # hello)) \<and>
    HandlePayload bencode_env (tex_extension bencode_env sha1) tex_center (\<lambda>p. NewTexExtension own) (CHR 0x00 # hello) w =
      (None, tex_settled, heard, w) \<and>
    tex_IsSupoort (heard 0) \<and> (More (heard 0) \<longleftrightarrow> trhash sha1 trs \<noteq> trhash sha1 []) \<and> TrackerList (heard 0) = own \<and>
    HandlePayload bencode_env (tex_extension bencode_env sha1) tex_settled heard (CHR 0x01 # benc (tex_body news)) w =
      (None, tex_settled, told, w) \<and>
    tex_IsSupoort (told 0) \<and> \<not> More (told 0) \<and> TrackerList (told 0) = news \<and>
    HandlePayload bencode_env (tex_extension bencode_env sha1) tex_center (\<lambda>p. NewTexExtension own) (CHR 0x00 # benc (BDict kvs)) w =
      (None, \<lparr>exts = [None], ids = bytes_of_numbers ms\<rparr>, refused, w) \<and>
    \<not> tex_IsSupoort (refused 0) \<and> \<not> More (refused 0) \<and> TrackerList (refused 0) = own"
proof -
  have len: "length (trhash sha1 trs) = 20" using assms(2) by (simp add: trhash_def)
  have hello: "WriteHandshake bencode_env (tex_extension bencode_env sha1) \<lparr>put_bytes = buffer_put, byte_writer = bw\<rparr>
      tex_center (\<lambda>p. NewTexExtension trs) [] =
    (None, \<lambda>p. NewTexExtension trs, message (ExtID # CHR 0x00 # benc (BDict (tex_dict (trhash sha1 trs)))))"
    using tex_hello [where ?sha1.0 = sha1 and trs = trs and w = "[]", OF len] by (simp only: append_Nil)
  note heard = tex_heard [OF len, of sha1 "\<lambda>p. NewTexExtension own" w]
  note told = tex_list_heard [OF assms(3), of sha1 _ w]
  note refused = tex_unheard [OF assms(4-7), of sha1 "\<lambda>p. NewTexExtension own" w]
  have "isEmpty (trhash sha1 trs) \<longleftrightarrow> trhash sha1 trs = trhash sha1 []"
    using isEmpty_iff [OF assms(1)] by (simp add: trhash_def)
  note empty = this
  show ?thesis
    by (intro exI conjI) (rule hello heard told refused | simp add: tex_sel empty)+
qed

theorem trackers_exchanged_witness:
  "\<exists>hello heard. WriteHandshake bencode_env (tex_extension bencode_env tracker_sha) to_buffer tex_center
      (\<lambda>p. NewTexExtension [''udp://t'']) [] = (None, \<lambda>p. NewTexExtension [''udp://t''], message (ExtID # CHR 0x00 # hello)) \<and>
    HandlePayload bencode_env (tex_extension bencode_env tracker_sha) tex_center (\<lambda>p. NewTexExtension []) (CHR 0x00 # hello) [] =
      (None, tex_settled, heard, []) \<and> More (heard 0)"
proof -
  have len: "\<forall>s. length (tracker_sha s) = 20" by (simp add: tracker_sha_def)
  have "trhash tracker_sha [''udp://t''] \<noteq> trhash tracker_sha []" by code_simp
  then show ?thesis
    using trackers_exchanged [OF tracker_sha_empty len, of "[]" "[(''m'', numbers [])]" "[]" False "[''udp://t'']" "[]" "[]"]
    by (auto simp: numbers_def len_ok_def simp del: benc.simps)
qed

section \<open>Fetching metadata\<close>

lemma hello_ends: "fst (WriteHandshake E (fm_extension E (fm_writer put)) (fm_writer put)
    (RegistExt (NewExtProtocol []) 0) (\<lambda>p. NewFetchMetaExt ih) w) \<noteq> Some OutOfFuel"
proof -
  let ?hs = "[(''m'', VIface (Some (TMap TString (TInt 64), VMap (Some [(''ut_metadata'', VInt 1)]))))]"
  have "good E (TMap TString TIface) (VMap (Some ?hs))" by (simp add: good_def)
  from Marshal_to_bval [OF this] show ?thesis
    by (auto simp: WriteHandshake_def RegistExt_def NewExtProtocol_def fm_BeforeHandshake_def fm_MapKey_def
        Put_def NewFetchMetaExt_def split: prod.split)
qed

lemma fetch_from_ends:
  assumes "env_total E"
  shows "fst (fetch_from E sha1 put ctx ih s) \<noteq> Inl OutOfFuel"
proof (cases rule: fetch_from_cases [where E = E and put = put and ih = ih and s = s and ?sha1.0 = sha1 and ctx = ctx])
  case (hello e st1 w1)
  then show ?thesis using hello_ends [of E put ih "bufio_new (conn_out (conn s))"] by simp
next
  case (loop st1 w1 w2)
  show ?thesis unfolding loop(3) by (rule fetch_loop_ends [OF assms]) simp
qed simp_all

lemma FetchMetadata_hash:
  assumes "FetchMetadata E sha1 put ctx ih dialled rand_id = (Inr meta, s)"
  shows "sha1 meta = ih \<and> (\<exists>stream. s = Some stream \<and> closed (conn stream) \<and> infoHash stream = ih)"
  using assms fetch_from_hash [where ?sha1.0 = sha1]
  by (fastforce simp: FetchMetadata_def close_def split: prod.splits option.splits if_splits)

lemma FetchMetadata_closed:
  assumes "snd (FetchMetadata E sha1 put ctx ih dialled rand_id) = Some stream"
  shows "closed (conn stream)"
  using assms DialUseTCP_failed_closed [of put dialled ih rand_id "SetExtReserved 0"]
  by (auto simp: FetchMetadata_def close_def split: prod.splits option.splits if_splits)

text \<open>
  C7. Metadata is what it should be: whatever the peer sends, what \<open>FetchMetadata\<close> returns hashes to
  the info hash that was asked for, and the peer had claimed that hash in its greeting.
\<close>

theorem metadata_authentic:
  assumes "FetchMetadata E sha1 put ctx ih dialled rand_id = (Inr meta, s)"
  shows "sha1 meta = ih \<and> (\<exists>stream. s = Some stream \<and> closed (conn stream) \<and> infoHash stream = ih)"
  using assms by (rule FetchMetadata_hash)

lemma pieces_count:
  assumes "(int (length ps) - 1) * 16384 < msize" and "msize \<le> int (length ps) * 16384" and "ps \<noteq> []"
  shows "getPiecesNum msize = int (length ps) \<and> 0 < msize"
proof
  show "0 < msize" using assms(1,3) by (cases ps) auto
  then show "getPiecesNum msize = int (length ps)"
    using getPiecesNum_bounds [of msize] assms(1,2) by (simp add: maxPieceSize_def)
qed

text \<open>
  C8. An honest peer is enough: one that greets with the info hash and the extension bit, names a
  number and a size that takes as many pieces of 16 KiB as it has, and sends every piece, in any order and as often as it likes, makes
  \<open>FetchMetadata\<close> return the metadata, whatever follows on the stream.
\<close>

theorem honest_peer_serves:
  assumes "reliable put" and "\<forall>i. ctx i = None" and "0 < n" "n < 256"
    and "\<forall>p \<in> set ps. p \<noteq> []" and "msize < 2 ^ 63"
    and "(int (length ps) - 1) * 16384 < msize" "msize \<le> int (length ps) * 16384" "ps \<noteq> []"
    and "sha1 (concat ps) = ih" and "\<forall>i < length ps. length (peer_piece ps i) \<le> 99999"
    and "length (peer_hello n msize) \<le> 99999" and "set js = {..<length ps}"
    and "length ih = 20" "length pid = 20" and "CheckExtReserved res"
    and "avail (conn_in c) = greeting ih pid res @ message (peer_hello n msize) @
      concat (map (\<lambda>i. message (peer_piece ps i)) js) @ rest"
  shows "fst (FetchMetadata bencode_env sha1 put ctx ih (Inr c) rand_id) = Inr (concat ps)"
proof -
  have num: "getPiecesNum msize = int (length ps)" "0 < msize"
    using pieces_count [OF assms(7-9)] by simp_all
  show ?thesis
    by (rule FetchMetadata_honest [where n = n and msize = msize and js = js and pid = pid and res = res and rest = rest])
      (fact assms num)+
qed

definition honest_conn :: "bytes conn" where
  "honest_conn = \<lparr>conn_out = [], conn_in = \<lparr>avail = greeting (hash20 []) (replicate 20 CHR ''p'') (SetExtReserved 0) @
     message (peer_hello 3 5) @ concat (map (\<lambda>i. message (peer_piece [''abcde''] i)) [0]) @ [], closing = EOF\<rparr>, closed = False\<rparr>"

lemma honest_sizes:
  "\<forall>i < length [''abcde'']. length (peer_piece [''abcde''] i) \<le> 99999" "length (peer_hello 3 5) \<le> 99999"
  by (simp_all add: peer_piece_def piece_dict_def peer_hello_def hello_dict_def numbers_def bstr_def show_int_def show_nat.simps data_msg_def)

lemma honest_parts: "CheckExtReserved (SetExtReserved 0)" "getPiecesNum 5 = 1"
  by (simp add: CheckExtReserved_bit SetExtReserved_bit) code_simp

theorem honest_peer_serves_witness:
  "fst (FetchMetadata bencode_env hash20 buffer_put (\<lambda>i. None) (hash20 []) (Inr honest_conn) []) = Inr ''abcde''"
  using honest_peer_serves [OF buffer_reliable, of "\<lambda>i. None" 3 "[''abcde'']" 5 hash20 "hash20 []" "[0]"
        "replicate 20 CHR ''p''" "SetExtReserved 0" honest_conn "[]" "[]"] honest_sizes honest_parts
  by (simp add: hash20_def honest_conn_def lessThan_Suc)

lemma honest_fetched:
  "fst (FetchMetadata bencode_env hash20 buffer_put (\<lambda>i. None) (hash20 []) (Inr honest_conn) []) = Inr ''abcde''"
  using FetchMetadata_honest [OF buffer_reliable, of "\<lambda>i. None" 3 "[''abcde'']" 5 hash20 "hash20 []" "[0]"
        "replicate 20 CHR ''p''" "SetExtReserved 0" honest_conn "[]" "[]"] honest_sizes honest_parts
  by (simp add: hash20_def honest_conn_def lessThan_Suc)

theorem metadata_authentic_witness:
  "\<exists>s. FetchMetadata bencode_env hash20 buffer_put (\<lambda>i. None) (hash20 []) (Inr honest_conn) [] = (Inr ''abcde'', s) \<and>
     hash20 ''abcde'' = hash20 [] \<and> (\<exists>stream. s = Some stream \<and> closed (conn stream))"
proof -
  obtain s where s: "FetchMetadata bencode_env hash20 buffer_put (\<lambda>i. None) (hash20 []) (Inr honest_conn) [] = (Inr ''abcde'', s)"
    using honest_fetched by (metis prod.collapse)
  then show ?thesis using metadata_authentic [OF s] by blast
qed

text \<open>
  C9. How fetching comes to an end. On any stream that stops sending, with any context, the call returns
  metadata or an error, or panics (an index the peer gave is not checked), and the connection is closed.
  On a stream that never stops it is the context that ends it: when the context is done at look \<open>k\<close>, the
  loop is left after no more than \<open>k\<close> rounds, on the first \<open>(k + 1) * 100003\<close> bytes. Nothing else
  does: keep-alives hold it for as many rounds as there are, until the context is done, whose error it returns.
\<close>

theorem fetching_ends:
  assumes "env_total E"
  shows "fst (FetchMetadata E sha1 put ctx ih dialled rand_id) \<noteq> Inl OutOfFuel \<and>
    (case snd (FetchMetadata E sha1 put ctx ih dialled rand_id) of
       Some stream \<Rightarrow> closed (conn stream) | None \<Rightarrow> True) \<and>
    (ctx k \<noteq> None \<and> Suc k * 100003 \<le> n \<longrightarrow>
       fst (fetch_loop E sha1 put ctx (Suc k) 0 (so_far inp n e) proto st w) \<noteq> Inl OutOfFuel \<and>
       fst (fetch_loop E sha1 put ctx (Suc k) 0 (so_far inp n e) proto st w) =
         fst (fetch_loop E sha1 put ctx (Suc k) 0 (so_far inp (Suc k * 100003) e) proto st w)) \<and>
    ((\<forall>i<k. ctx i = None) \<longrightarrow>
       fst (fetch_loop E sha1 put ctx k 0 \<lparr>avail = concat (replicate k (message [])) @ rest, closing = e\<rparr> proto st w) =
         Inl OutOfFuel \<and>
       (\<forall>reason. ctx k = Some reason \<longrightarrow>
          fst (fetch_loop E sha1 put ctx (Suc k) 0 \<lparr>avail = concat (replicate k (message [])) @ rest, closing = e\<rparr> proto st w) =
            Inl (Err reason)))"
proof -
  have "fst (FetchMetadata E sha1 put ctx ih dialled rand_id) \<noteq> Inl OutOfFuel"
    using fetch_from_ends [OF assms, of sha1 put ctx ih]
    by (auto simp: FetchMetadata_def nil_deref_def split_beta split: option.split)
  moreover have "case snd (FetchMetadata E sha1 put ctx ih dialled rand_id) of
      Some stream \<Rightarrow> closed (conn stream) | None \<Rightarrow> True"
    using FetchMetadata_closed [of E sha1 put ctx ih dialled rand_id] by (simp split: option.split)
  ultimately show ?thesis
    by (intro conjI impI allI; (elim conjE)?)
      (assumption | rule fetch_loop_endless [OF assms] keepalives_end; assumption)+
qed

definition third_look :: "nat \<Rightarrow> gerror option" where
  "third_look i = (if i < 2 then None else Some (OtherError ''context deadline exceeded''))"

theorem fetching_ends_witness:
  "fst (fetch_loop bencode_env hash20 buffer_put third_look 3 0
      (so_far (\<lambda>i. CHR 0x00) 300009 EOF) fm_center (\<lambda>p. NewFetchMetaExt []) (bufio_new [])) \<noteq> Inl OutOfFuel \<and>
   fst (fetch_loop bencode_env hash20 buffer_put third_look 3 0
      \<lparr>avail = concat (replicate 2 (message [])) @ ''more'', closing = EOF\<rparr> fm_center (\<lambda>p. NewFetchMetaExt []) (bufio_new [])) =
     Inl (Err (OtherError ''context deadline exceeded''))"
proof -
  have "third_look 2 \<noteq> None \<and> Suc 2 * 100003 \<le> (300009 :: nat)" "\<forall>i<2. third_look i = None" "Suc 2 = 3"
      "third_look 2 = Some (OtherError ''context deadline exceeded'')"
    by (simp_all add: third_look_def)
  then show ?thesis
    using fetching_ends [OF bencode_env_ok(1), of hash20 buffer_put third_look "hash20 []" "Inr honest_conn" "[]" 2 300009
        "\<lambda>i. CHR 0x00" EOF fm_center "\<lambda>p. NewFetchMetaExt []" "bufio_new []" "''more''"]
    by metis
qed
text \<open>
  C35. Peers that are of no use. After a proper greeting, a message that is only its ID makes
  \<open>FetchMetadata\<close> panic; a message for an extension before the handshake is an error; so is a handshake
  that leaves the extension out or gives it the number 0, and one without a size or with one that is not
  positive. After a proper handshake, a message under any number but the one that was offered is an error,
  and so is a refusal; a piece whose number is none of those asked for makes it panic.
\<close>

theorem bad_peers:
  assumes "reliable put" and "\<forall>i. ctx i = None" and "length ih = 20" "length pid = 20" and "CheckExtReserved res"
    and "0 < n" "n < 256" and "0 < msize" "msize < 2 ^ 63" and "length (peer_hello n msize) \<le> 99999"
    and "- (2 ^ 63) \<le> i" "i < 2 ^ 63" and "length content < 99998"
  shows "meeting sha1 put ctx ih out pid res rand_id [[ExtID]] rest = Inl (Panic ''index out of range'') \<and>
    (b0 \<noteq> CHR 0x00 \<longrightarrow> meeting sha1 put ctx ih out pid res rand_id [ExtID # b0 # content] rest =
      Inl (Err (OtherError ''have not handshake''))) \<and>
    (bval_ok (BDict kvs) \<and> map_of kvs ''m'' = Some (numbers ms) \<and> (\<forall>(k, n) \<in> set ms. 0 \<le> n) \<and> length (benc (BDict kvs)) < 99998 \<longrightarrow>
      (map_of ms ''ut_metadata'' \<in> {None, Some 0} \<longrightarrow>
        meeting sha1 put ctx ih out pid res rand_id [ExtID # CHR 0x00 # benc (BDict kvs)] rest =
          Inl (Err (OtherError ''not support Extension for Peers to Send Metadata Files''))) \<and>
      (map_of ms ''ut_metadata'' = Some n \<and> map_of kvs ''metadata_size'' = map_option BInt named \<and> pred_option (\<lambda>k. k \<le> 0) named \<longrightarrow>
        meeting sha1 put ctx ih out pid res rand_id [ExtID # CHR 0x00 # benc (BDict kvs)] rest =
          Inl (Err (OtherError (if named = None then ''don't known metadata size'' else ''wrong size''))))) \<and>
    (b0 \<notin> {CHR 0x00, CHR 0x01} \<longrightarrow>
      meeting sha1 put ctx ih out pid res rand_id [peer_hello n msize, ExtID # b0 # content] rest =
        Inl (Err (OtherError ''unknown this extension id''))) \<and>
    (length (benc (BDict [(''msg_type'', BInt 2), (''piece'', BInt i)]) @ data) < 99998 \<longrightarrow>
      meeting sha1 put ctx ih out pid res rand_id
          [peer_hello n msize, ExtID # CHR 0x01 # benc (BDict [(''msg_type'', BInt 2), (''piece'', BInt i)]) @ data] rest =
        Inl (Err (OtherError ''peer reject out request''))) \<and>
    (length (benc (BDict [(''msg_type'', BInt 1), (''piece'', BInt i)]) @ data) < 99998 \<and> (i < 0 \<or> getPiecesNum msize \<le> i) \<longrightarrow>
      meeting sha1 put ctx ih out pid res rand_id
          [peer_hello n msize, ExtID # CHR 0x01 # benc (BDict [(''msg_type'', BInt 1), (''piece'', BInt i)]) @ data] rest =
        Inl (Panic ''index out of range''))"
proof -
  have greeted: "greeted put ctx ih pid res" using assms(1-5) by (simp add: greeted_def)
  show ?thesis
  proof (intro conjI impI; (elim conjE)?)
    show "meeting sha1 put ctx ih out pid res rand_id [[ExtID]] rest = Inl (Panic ''index out of range'')"
      by (rule bare_fails [OF greeted])
  next
    assume "b0 \<noteq> CHR 0x00"
    then show "meeting sha1 put ctx ih out pid res rand_id [ExtID # b0 # content] rest =
        Inl (Err (OtherError ''have not handshake''))"
      by (rule early_fails [OF greeted assms(13)])
  qed (rule unsupported_fails [OF greeted] sizeless_fails [OF greeted _ _ _ _ _ assms(6,7)]
      unknown_fails [OF greeted assms(13) _ assms(6-10)] refusal_fails [OF greeted assms(11,12) _ assms(6-10)]
      stray_fails [OF greeted assms(11,12) _ assms(6-10)]; assumption)+
qed

abbreviation met :: "bytes list \<Rightarrow> abort + bytes" where
  "met bodies \<equiv> meeting (\<lambda>s. s) buffer_put (\<lambda>i. None) (replicate 20 CHR ''h'') [] (replicate 20 CHR ''p'') (SetExtReserved 0) []
     bodies ''more''"

theorem bad_peers_witness:
  "met [[ExtID]] = Inl (Panic ''index out of range'') \<and>
   met [ExtID # CHR 0x00 # benc (BDict [(''m'', numbers [(''ut_metadata'', 3)])])] =
     Inl (Err (OtherError ''don't known metadata size'')) \<and>
   met [peer_hello 3 5, ExtID # CHR 0x02 # ''x''] = Inl (Err (OtherError ''unknown this extension id'')) \<and>
   met [peer_hello 3 5, ExtID # CHR 0x01 # benc (BDict [(''msg_type'', BInt 2), (''piece'', BInt 7)]) @ []] =
     Inl (Err (OtherError ''peer reject out request'')) \<and>
   met [peer_hello 3 5, ExtID # CHR 0x01 # benc (BDict [(''msg_type'', BInt 1), (''piece'', BInt 7)]) @ []] =
     Inl (Panic ''index out of range'')"
proof -
  let ?kvs = "[(''m'', numbers [(''ut_metadata'', 3)])]"
  have size: "length (peer_hello 3 5) \<le> 99999" "length (benc (BDict ?kvs)) < 99998"
      "length (benc (BDict [(''msg_type'', BInt 2), (''piece'', BInt 7)])) < 99998"
      "length (benc (BDict [(''msg_type'', BInt 1), (''piece'', BInt 7)])) < 99998"
    by (simp_all add: peer_hello_def hello_dict_def numbers_def bstr_def show_int_def show_nat.simps)
  have ok: "bval_ok (BDict ?kvs)" "getPiecesNum 5 \<le> 7" "CheckExtReserved (SetExtReserved 0)"
    by (simp_all add: numbers_def len_ok_def honest_parts)
  show ?thesis
    using bad_peers [OF buffer_reliable, where ctx = "\<lambda>i. None" and ih = "replicate 20 CHR ''h''" and pid = "replicate 20 CHR ''p''"
        and res = "SetExtReserved 0" and n = 3 and msize = 5 and i = 7 and content = "''x''" and ?b0.0 = "CHR 0x02"
        and ?sha1.0 = "\<lambda>s. s" and out = "[]" and rand_id = "[]" and rest = "''more''" and kvs = ?kvs
        and ms = "[(''ut_metadata'', 3)]" and named = None and data = "[]"] size ok
    by (simp del: benc.simps bval_ok.simps)
qed

section \<open>Outlines and the pipeline\<close>

text \<open>
  C36. The outline of a torrent: metadata of one file gives its name and length, metadata of several
  gives each file under its joined path, in order, and metadata with neither a length nor files makes
  \<open>FillOutline\<close> panic on the nil length, after the name was set.
\<close>

theorem outline_calls:
  assumes "env_safe E" and "0 \<le> pl"
  shows "(bval_ok (single_file name n pl pcs) \<and> 0 \<le> n \<longrightarrow>
      FillOutline E (benc (single_file name n pl pcs) @ rest) = (None, [SetName name, AddFile name n])) \<and>
    (bval_ok (multi_file name fs pl pcs) \<and> fs \<noteq> [] \<and> (\<forall>f \<in> set fs. 0 \<le> snd f) \<longrightarrow>
      FillOutline E (benc (multi_file name fs pl pcs) @ rest) =
        (None, SetName name # map (\<lambda>(path, n). AddFile (join_path path) n) fs)) \<and>
    (bval_ok (no_file name pl pcs) \<longrightarrow>
      (\<exists>msg. FillOutline E (benc (no_file name pl pcs) @ rest) = (Some (Panic msg), [SetName name])))"
  using FillOutline_single [OF assms(1) _ _ assms(2)] FillOutline_multi [OF assms(1) _ _ _ assms(2)]
    FillOutline_neither [OF assms(1) _ assms(2)]
  by (simp del: benc.simps bval_ok.simps)

theorem outline_calls_witness:
  "FillOutline bencode_env (benc (single_file ''a.txt'' 7 16 ''h'') @ []) =
      (None, [SetName ''a.txt'', AddFile ''a.txt'' 7]) \<and>
   FillOutline bencode_env (benc (multi_file ''dir'' [([''x'', ''y''], 3), ([''z''], 4)] 16 ''h'') @ []) =
      (None, [SetName ''dir'', AddFile (join_path [''x'', ''y'']) 3, AddFile (join_path [''z'']) 4]) \<and>
   (\<exists>msg. FillOutline bencode_env (benc (no_file ''none'' 16 ''h'') @ []) = (Some (Panic msg), [SetName ''none'']))"
proof -
  let ?fs = "[([''x'', ''y''], 3), ([''z''], 4 :: int)]"
  have ok: "bval_ok (single_file ''a.txt'' 7 16 ''h'')" "bval_ok (multi_file ''dir'' ?fs 16 ''h'')"
      "bval_ok (no_file ''none'' 16 ''h'')"
    by (simp_all add: single_file_def multi_file_def file_entry_def no_file_def len_ok_def)
  have fs: "?fs \<noteq> []" "\<forall>f \<in> set ?fs. 0 \<le> snd f" by simp_all
  have pl: "(0 :: int) \<le> 16" "(0 :: int) \<le> 7" by simp_all
  note calls = outline_calls [OF bencode_env_ok(2) pl(1)]
  have "FillOutline bencode_env (benc (single_file ''a.txt'' 7 16 ''h'') @ []) =
      (None, [SetName ''a.txt'', AddFile ''a.txt'' 7])"
    using calls [THEN conjunct1, rule_format] ok(1) pl(2) by blast
  moreover have "FillOutline bencode_env (benc (multi_file ''dir'' ?fs 16 ''h'') @ []) =
      (None, SetName ''dir'' # map (\<lambda>(path, n). AddFile (join_path path) n) ?fs)"
    using calls [THEN conjunct2, THEN conjunct1, rule_format] ok(2) fs by blast
  moreover have "\<exists>msg. FillOutline bencode_env (benc (no_file ''none'' 16 ''h'') @ []) = (Some (Panic msg), [SetName ''none''])"
    using calls [THEN conjunct2, THEN conjunct2, rule_format] ok(3) by blast
  ultimately show ?thesis by (simp only: list.map prod.case)
qed

lemma Run_callback_ok: "list_all (call_ok sha1) (Run_callback E sha1 put ctx has dialled rand_id ih)"
  using FetchMetadata_hash [of E sha1 put ctx ih dialled rand_id]
  by (auto simp: Run_callback_def call_ok_def split: prod.split sum.split)

text \<open>
  C37. The pipeline is fed right: whatever peers and crawler do, metadata is only handed over under
  the hash it has, tracker lists only when there are any, and metadata and trackers together never;
  the loop that serves a peer ends within the length of what the peer sends.
\<close>

theorem pipeline_calls:
  assumes "env_total E"
  shows "list_all (call_ok sha1) (Run_callback E sha1 put ctx has dialled rand_id ih) \<and>
    list_all (call_ok sha1) (fst (RunAndFetchTracker_callback E sha1 put ctx pull dialled rand_id ih)) \<and>
    fst (MainLoop E sha1 wr ctx (Suc (length (avail r))) 0 r mtf st w) \<noteq> Some OutOfFuel"
proof (intro conjI)
  show "list_all (call_ok sha1) (Run_callback E sha1 put ctx has dialled rand_id ih)"
    by (rule Run_callback_ok)
  show "list_all (call_ok sha1) (fst (RunAndFetchTracker_callback E sha1 put ctx pull dialled rand_id ih))"
    using RunAndFetchTracker_ok [of E sha1 put ctx pull dialled rand_id ih]
    by (metis list_all_iff prod.collapse)
  show "fst (MainLoop E sha1 wr ctx (Suc (length (avail r))) 0 r mtf st w) \<noteq> Some OutOfFuel"
    by (rule MainLoop_ends [OF assms]) simp
qed

theorem pipeline_calls_witness:
  "Run_callback bencode_env hash20 buffer_put (\<lambda>i. None) (\<lambda>ih. False) (Inr honest_conn) [] (hash20 []) =
     [DisposeMeta (hash20 []) ''abcde''] \<and> call_ok hash20 (DisposeMeta (hash20 []) ''abcde'')"
proof -
  have "Run_callback bencode_env hash20 buffer_put (\<lambda>i. None) (\<lambda>ih. False) (Inr honest_conn) [] (hash20 []) =
      [DisposeMeta (hash20 []) ''abcde'']"
    using honest_fetched by (simp add: Run_callback_def split_beta split: sum.split)
  then show ?thesis
    using pipeline_calls [OF bencode_env_ok(1), THEN conjunct1,
        of hash20 buffer_put "\<lambda>i. None" "\<lambda>ih. False" "Inr honest_conn" "[]" "hash20 []"] by simp
qed

section \<open>Distance\<close>

text \<open>
  C40. The prefix length of \<open>tools.CommonPrefixLen\<close> is the number of leading bits two different node
  IDs share, as the loop over bytes and the shift loop compute it; for equal IDs it is 168, eight more
  than an ID has bits.
\<close>

theorem prefix_length:
  assumes "length a = 20" and "length b = 20"
  shows "CommonPrefixLen a b = Inr (if a = b then 168 else common_prefix (bits a) (bits b))"
  using assms by (rule CommonPrefixLen_bits)

theorem prefix_length_witness:
  "CommonPrefixLen (replicate 20 CHR ''a'') (replicate 20 CHR ''b'') = Inr 6 \<and>
   CommonPrefixLen (replicate 20 CHR ''a'') (replicate 20 CHR ''a'') = Inr 168"
proof -
  have "common_prefix (bits (replicate 20 CHR ''a'')) (bits (replicate 20 CHR ''b'')) = 6" by code_simp
  then show ?thesis
    using prefix_length [of "replicate 20 CHR ''a''" "replicate 20 CHR ''b''"]
      prefix_length [of "replicate 20 CHR ''a''" "replicate 20 CHR ''a''"] by simp
qed

end
