(* ===== verification/Dht_Nodes.thy ===== *)
theory Dht_Nodes
  imports Bencode_Raw Bencode_Structs Tools
begin

text \<open>
  \<open>dht/util.go\<close>: the compact form of a list of nodes, as the methods of \<open>NodePtrSlice\<close> read and write
  it.
\<close>

section \<open>Nodes\<close>

record UDPAddr =
  IP :: bytes
  Port :: int

record Node =
  Addr :: "UDPAddr option"
  ID :: bytes

text \<open>A \<open>[]*Node\<close> may hold nil pointers, and a node a nil address; both make \<open>PackNodes\<close> panic.\<close>

fun pack_loop :: "Node option list \<Rightarrow> abort + bytes" where
  "pack_loop [] = Inr []"
| "pack_loop (nd # nds) =
     (case Option.bind nd Addr of
        None \<Rightarrow> Inl (Panic ''invalid memory address or nil pointer dereference'')
      | Some a \<Rightarrow>
          (case EncodeCompactIPPortInfo (IP a) (Port a) of
             Inl e \<Rightarrow> Inl (Err e)
           | Inr s \<Rightarrow> (case pack_loop nds of Inl e \<Rightarrow> Inl e | Inr rest \<Rightarrow> Inr (s @ rest))))"

definition PackNodes :: "Node option list \<Rightarrow> abort + bytes" where
  "PackNodes nodes = (if length nodes = 0 then Inr [] else pack_loop nodes)"

definition unpack_node :: "bytes \<Rightarrow> Node" where
  "unpack_node buf =
     (case DecodeCompactIPPortInfo (drop 20 buf) of
        Inr (ip, port) \<Rightarrow> \<lparr>Addr = Some \<lparr>IP = ip, Port = port\<rparr>, ID = take 20 buf\<rparr>
      | Inl e \<Rightarrow> \<lparr>Addr = Some \<lparr>IP = [], Port = 0\<rparr>, ID = take 20 buf\<rparr>)"

definition unpackNodes :: "bytes \<Rightarrow> gerror + Node list" where
  "unpackNodes data =
     (if length data mod 26 \<noteq> 0
      then Inl (OtherError ''the length of data should be an integer multiple of 26'')
      else Inr (map (\<lambda>i. unpack_node (take 26 (drop (i * 26) data))) [0..<length data div 26]))"

section \<open>As Go values\<close>

definition addr_val :: "UDPAddr \<Rightarrow> goval" where
  "addr_val a = VStruct [VSlice (Some (of_bytes (IP a))), VInt (Port a)]"

definition addr_of :: "goval \<Rightarrow> UDPAddr" where
  "addr_of v =
     (case v of
        VStruct [VSlice ip, VInt port] \<Rightarrow> \<lparr>IP = (case ip of Some bs \<Rightarrow> to_bytes bs | None \<Rightarrow> []), Port = port\<rparr>
      | _ \<Rightarrow> \<lparr>IP = [], Port = 0\<rparr>)"

definition node_val :: "Node \<Rightarrow> goval" where
  "node_val nd = VStruct [VPtr (map_option addr_val (Addr nd)), VString (ID nd)]"

definition node_of :: "goval \<Rightarrow> Node" where
  "node_of v =
     (case v of
        VStruct [VPtr a, VString i] \<Rightarrow> \<lparr>Addr = map_option addr_of a, ID = i\<rparr>
      | _ \<Rightarrow> \<lparr>Addr = None, ID = []\<rparr>)"

definition nodes_type :: gotype where
  "nodes_type = TNamed ''NodePtrSlice'' (TSlice (TPtr node_type))"

definition nodes_val :: "Node list \<Rightarrow> goval" where
  "nodes_val nds = VSlice (Some (map (\<lambda>nd. VPtr (Some (node_val nd))) nds))"

definition nodes_of :: "goval \<Rightarrow> Node option list" where
  "nodes_of v =
     (case v of
        VSlice (Some vs) \<Rightarrow> map (\<lambda>x. case x of VPtr p \<Rightarrow> map_option node_of p | _ \<Rightarrow> None) vs
      | _ \<Rightarrow> [])"

lemma addr_of_val [simp]: "addr_of (addr_val a) = a"
  by (simp add: addr_of_def addr_val_def)

lemma node_of_val [simp]: "node_of (node_val nd) = nd"
  by (cases "Addr nd") (simp_all add: node_of_def node_val_def)

lemma nodes_of_val [simp]: "nodes_of (nodes_val nds) = map Some nds" "nodes_of (VSlice None) = []"
  by (simp_all add: nodes_of_def nodes_val_def)

section \<open>The methods\<close>

definition NodePtrSlice_MarshalBencode :: "env \<Rightarrow> Node option list \<Rightarrow> abort + bytes" where
  "NodePtrSlice_MarshalBencode E nds =
     (case PackNodes nds of
        Inl e \<Rightarrow> Inl e
      | Inr raw \<Rightarrow> (case Marshal E (Some (TString, VString raw)) of
                      (data, None) \<Rightarrow> Inr data
                    | (data, Some e) \<Rightarrow> Inl e))"

definition NodePtrSlice_UnmarshalBencode :: "env \<Rightarrow> goval \<Rightarrow> bytes \<Rightarrow> abort option \<times> goval" where
  "NodePtrSlice_UnmarshalBencode E v data =
     (case unmarshal_var E data TString (VString []) of
        (Some e, x) \<Rightarrow> (Some e, v)
      | (None, x) \<Rightarrow>
          (case unpackNodes (case x of VString raw \<Rightarrow> raw | _ \<Rightarrow> []) of
             Inl e \<Rightarrow> (Some (Err e), v)
           | Inr nodes \<Rightarrow> (None, nodes_val nodes)))"

section \<open>The formats\<close>

text \<open>The form the protocol prescribes, and \<open>unpackNodes\<close> reads: ID, address and port.\<close>

record contact =
  c_id :: bytes
  c_ip :: "byte \<times> byte \<times> byte \<times> byte"
  c_port :: nat

definition contact_ok :: "contact \<Rightarrow> bool" where
  "contact_ok c \<longleftrightarrow> length (c_id c) = 20 \<and> c_port c < 65536"

definition compact :: "contact \<Rightarrow> bytes" where
  "compact c = (case c_ip c of (x, y, z, w) \<Rightarrow> c_id c @ [x, y, z, w] @ put_be 2 (c_port c))"

definition contact_node :: "contact \<Rightarrow> Node" where
  "contact_node c =
     (case c_ip c of (x, y, z, w) \<Rightarrow>
        \<lparr>Addr = Some \<lparr>IP = net_IPv4 x y z w, Port = int (c_port c)\<rparr>, ID = c_id c\<rparr>)"

lemma length_compact: "contact_ok c \<Longrightarrow> length (compact c) = 26"
  by (simp add: compact_def contact_ok_def split: prod.split)

lemma unpack_compact: "contact_ok c \<Longrightarrow> unpack_node (compact c) = contact_node c"
  using compact_decode [of "c_port c"]
  by (cases "c_ip c") (simp add: unpack_node_def compact_def contact_ok_def contact_node_def)

lemma length_compacts: "\<forall>c \<in> set cs. contact_ok c \<Longrightarrow> length (concat (map compact cs)) = 26 * length cs"
  by (induction cs) (simp_all add: length_compact)

lemma take_compacts:
  "\<forall>c \<in> set cs. contact_ok c \<Longrightarrow> i < length cs \<Longrightarrow> take 26 (drop (i * 26) (concat (map compact cs))) = compact (cs ! i)"
proof (induction cs arbitrary: i)
  case (Cons c cs)
  then show ?case by (cases i) (simp_all add: length_compact)
qed simp

lemma unpackNodes_compact:
  assumes "\<forall>c \<in> set cs. contact_ok c"
  shows "unpackNodes (concat (map compact cs)) = Inr (map contact_node cs)"
proof -
  have "map (\<lambda>i. unpack_node (take 26 (drop (i * 26) (concat (map compact cs))))) [0..<length cs] =
      map (\<lambda>i. contact_node (cs ! i)) [0..<length cs]"
    using assms by (intro map_cong refl) (simp add: take_compacts unpack_compact)
  also have "\<dots> = map contact_node cs"
    using map_nth [of cs] by (metis (no_types, lifting) map_map o_def map_eq_conv)
  finally show ?thesis
    using length_compacts [OF assms] by (simp add: unpackNodes_def)
qed

text \<open>
  What \<open>PackNodes\<close> writes lacks the IDs: six bytes a node, so \<open>unpackNodes\<close> refuses it, except by
  chance for a multiple of thirteen nodes.
\<close>

lemma EncodeCompact_length: "EncodeCompactIPPortInfo ip port = Inr s \<Longrightarrow> length s = 6"
  by (auto simp: EncodeCompactIPPortInfo_def Let_def split: if_splits)

lemma pack_loop_length: "pack_loop nds = Inr s \<Longrightarrow> length s = 6 * length nds"
  by (induction nds arbitrary: s) (auto dest: EncodeCompact_length split: option.splits sum.splits)

lemma pack_unpack:
  assumes "PackNodes nds = Inr s" and "\<not> 13 dvd length nds"
  shows "\<exists>e. unpackNodes s = Inl e"
proof -
  have len: "length s = 6 * length nds"
    using assms(1) by (auto simp: PackNodes_def dest: pack_loop_length split: if_splits)
  have "\<not> 26 dvd 6 * length nds"
  proof
    assume "26 dvd 6 * length nds"
    then have "13 dvd 3 * length nds" by presburger
    then show False using assms(2) by presburger
  qed
  then show ?thesis by (simp add: unpackNodes_def len mod_eq_0_iff_dvd)
qed

lemma unpackNodes_length: "unpackNodes data = Inr nds \<Longrightarrow> 26 * length nds = length data"
  by (auto simp: unpackNodes_def split: if_splits)

end
