(* ===== verification/Dht_Krpc.thy ===== *)
theory Dht_Krpc
  imports Dht_Nodes Go_Io
begin

text \<open>
  \<open>dht/krpc.go\<close>, the messages of the DHT, and how \<open>dht/dht.go\<close> sends and dispatches them.
\<close>

section \<open>Errors of the protocol\<close>

text \<open>A \<open>KRPCErr\<close> is its code and its description.\<close>

type_synonym KRPCErr = "int \<times> bytes"

definition kerr_Error :: "KRPCErr \<Rightarrow> string" where
  "kerr_Error kerr = ''KRPC error: ('' @ show_int (fst kerr) @ '')'' @ snd kerr"

definition Code :: "KRPCErr \<Rightarrow> int" where
  "Code kerr = fst kerr"

definition Describe :: "KRPCErr \<Rightarrow> bytes" where
  "Describe kerr = snd kerr"

definition kerr_struct :: gotype where
  "kerr_struct = TStruct [(hidden_field ''code'', TInt 64), (hidden_field ''describe'', TString)]"

definition kerr_type :: gotype where
  "kerr_type = TNamed ''KRPCErr'' kerr_struct"

definition kerr_val :: "KRPCErr \<Rightarrow> goval" where
  "kerr_val kerr = VStruct [VInt (fst kerr), VString (snd kerr)]"

definition kerr_of :: "goval \<Rightarrow> KRPCErr" where
  "kerr_of v = (case v of VStruct [VInt c, VString d] \<Rightarrow> (c, d) | _ \<Rightarrow> (0, []))"

lemma kerr_of_val [simp]: "kerr_of (kerr_val kerr) = kerr"
  by (simp add: kerr_of_def kerr_val_def)

definition irregular :: abort where
  "irregular = Err (KRPCError 203 ''Irregular package'')"

text \<open>
  \<open>UnmarshalBencode\<close>: the list is decoded into \<open>[]interface{}\<close>. Only whether the second element is a
  string is looked at; a first one that is no integer counts as 0.
\<close>

definition as_int64 :: "goval \<Rightarrow> int" where
  "as_int64 v = (case v of VIface (Some (TInt w, VInt n)) \<Rightarrow> if w = 64 then n else 0 | _ \<Rightarrow> 0)"

definition as_string :: "goval \<Rightarrow> bytes option" where
  "as_string v = (case v of VIface (Some (TString, VString s)) \<Rightarrow> Some s | _ \<Rightarrow> None)"

definition KRPCErr_UnmarshalBencode :: "env \<Rightarrow> goval \<Rightarrow> bytes \<Rightarrow> abort option \<times> goval" where
  "KRPCErr_UnmarshalBencode E v b =
     (case unmarshal_var E b (TSlice TIface) (VSlice None) of
        (Some e, x) \<Rightarrow> (Some e, v)
      | (None, x) \<Rightarrow>
          (let e = (case x of VSlice (Some es) \<Rightarrow> es | _ \<Rightarrow> []) in
           if length e < 2 then (Some irregular, v)
           else
             (let kerr = (as_int64 (e ! 0), case as_string (e ! 1) of Some s \<Rightarrow> s | None \<Rightarrow> []) in
              (if as_string (e ! 1) = None then Some irregular else None, kerr_val kerr))))"

definition KRPCErr_MarshalBencode :: "env \<Rightarrow> KRPCErr \<Rightarrow> abort + bytes" where
  "KRPCErr_MarshalBencode E kerr =
     (case Marshal E (Some (TSlice TIface, VSlice (Some
          [VIface (Some (TInt 64, VInt (fst kerr))), VIface (Some (TString, VString (snd kerr)))]))) of
        (data, None) \<Rightarrow> Inr data
      | (data, Some e) \<Rightarrow> Inl e)"

section \<open>The types of the repository that have methods\<close>

text \<open>
  The methods of the two types only encode and decode strings, integers and dynamically typed lists,
  whose types have no methods.
\<close>

definition nodes_methods :: methods where
  "nodes_methods = no_methods\<lparr>
     unmarshal := Some (NodePtrSlice_UnmarshalBencode env0),
     marshal := Some (\<lambda>recv. NodePtrSlice_MarshalBencode env0 (case recv of Some v \<Rightarrow> nodes_of v | None \<Rightarrow> []))\<rparr>"

definition kerr_methods :: methods where
  "kerr_methods = no_methods\<lparr>
     unmarshal := Some (KRPCErr_UnmarshalBencode env0),
     marshal := Some (\<lambda>recv. KRPCErr_MarshalBencode env0 (case recv of Some v \<Rightarrow> kerr_of v | None \<Rightarrow> (0, [])))\<rparr>"

definition btlet_env :: env where
  "btlet_env nm =
     (if nm = ''RawMessage'' then raw_methods
      else if nm = ''NodePtrSlice'' then nodes_methods
      else if nm = ''KRPCErr'' then kerr_methods
      else no_methods)"

section \<open>Messages\<close>

record Message =
  TransactionID :: bytes
  Y :: bytes
  Q :: bytes
  Args :: "bytes option"
  Resp :: "bytes option"
  Kerr :: "KRPCErr option"   \<comment> \<open>the field \<open>Err\<close>\<close>

definition message_fields :: "(field_info \<times> gotype) list" where
  "message_fields =
     [(tagged_field ''TransactionID'' ''t'', TString), (tagged_field ''Y'' ''y'', TString),
      (tagged_field ''Q'' ''q,omitempty'', TString), (tagged_field ''Args'' ''a,omitempty'', raw_type),
      (tagged_field ''Resp'' ''r,omitempty'', raw_type), (tagged_field ''Err'' ''e,omitempty'', TPtr kerr_type)]"

definition message_type :: gotype where
  "message_type = TNamed ''Message'' (TStruct message_fields)"

definition message_val :: "Message \<Rightarrow> goval" where
  "message_val m = VStruct
     [VString (TransactionID m), VString (Y m), VString (Q m), raw_val (Args m), raw_val (Resp m),
      VPtr (map_option kerr_val (Kerr m))]"

definition message_of :: "goval \<Rightarrow> Message" where
  "message_of v =
     (case v of
        VStruct [VString t, VString y, VString q, a, r, VPtr e] \<Rightarrow>
          \<lparr>TransactionID = t, Y = y, Q = q, Args = raw_of a, Resp = raw_of r, Kerr = map_option kerr_of e\<rparr>
      | _ \<Rightarrow> \<lparr>TransactionID = [], Y = [], Q = [], Args = None, Resp = None, Kerr = None\<rparr>)"

lemma message_of_val [simp]: "message_of (message_val m) = m"
  by (cases "Kerr m") (simp_all add: message_of_def message_val_def)

text \<open>The arguments of the queries and the body of a response.\<close>

definition PingArgs :: gotype where
  "PingArgs = TNamed ''PingArgs'' (TStruct [(tagged_field ''NodeID'' ''id'', TString)])"

definition FindNodeArgs :: gotype where
  "FindNodeArgs = TNamed ''FindNodeArgs'' (TStruct
     [(tagged_field ''NodeID'' ''id'', TString), (tagged_field ''Target'' ''target'', TString)])"

definition GetPeersArgs :: gotype where
  "GetPeersArgs = TNamed ''GetPeersArgs'' (TStruct
     [(tagged_field ''NodeID'' ''id'', TString), (tagged_field ''InfoHash'' ''info_hash'', TString)])"

definition AnnouncePeerArgs :: gotype where
  "AnnouncePeerArgs = TNamed ''AnnouncePeerArgs'' (TStruct
     [(tagged_field ''NodeID'' ''id'', TString), (tagged_field ''InfoHash'' ''info_hash'', TString),
      (tagged_field ''Port'' ''port'', TInt 64), (tagged_field ''Token'' ''token'', TString)])"

definition Response :: gotype where
  "Response = TNamed ''Response'' (TStruct
     [(tagged_field ''NodeID'' ''id'', TString), (tagged_field ''Nodes'' ''nodes,omitempty'', TPtr nodes_type),
      (tagged_field ''Token'' ''token,omitempty'', TString), (tagged_field ''Values'' ''values,omitempty'', TSlice TString)])"

section \<open>Making messages\<close>

definition MakeQueryEx :: "env \<Rightarrow> bytes \<Rightarrow> bytes \<Rightarrow> (gotype \<times> goval) option \<Rightarrow> abort + Message" where
  "MakeQueryEx E q tid args =
     (case Marshal E args of
        (a, Some e) \<Rightarrow> Inl e
      | (a, None) \<Rightarrow>
          Inr \<lparr>TransactionID = tid, Y = ''q'', Q = q, Args = Some a, Resp = None, Kerr = None\<rparr>)"

text \<open>The type switch: a value of one of the four types, or a pointer to one.\<close>

definition query_name :: "(gotype \<times> goval) option \<Rightarrow> bytes option" where
  "query_name args =
     (case args of
        None \<Rightarrow> None
      | Some (t, v) \<Rightarrow>
          (if t = TPtr PingArgs \<or> t = PingArgs then Some ''ping''
           else if t = TPtr FindNodeArgs \<or> t = FindNodeArgs then Some ''find_node''
           else if t = TPtr GetPeersArgs \<or> t = GetPeersArgs then Some ''get_peers''
           else if t = TPtr AnnouncePeerArgs \<or> t = AnnouncePeerArgs then Some ''announce_peer''
           else None))"

definition MakeQuery :: "env \<Rightarrow> bytes \<Rightarrow> (gotype \<times> goval) option \<Rightarrow> abort + Message" where
  "MakeQuery E tid args =
     (case query_name args of
        None \<Rightarrow> Inl (Err (OtherError ''Unknown args type''))
      | Some q \<Rightarrow> MakeQueryEx E q tid args)"

definition MakeResponse :: "env \<Rightarrow> bytes \<Rightarrow> (gotype \<times> goval) option \<Rightarrow> abort + Message" where
  "MakeResponse E tid resp =
     (case Marshal E resp of
        (r, Some e) \<Rightarrow> Inl e
      | (r, None) \<Rightarrow>
          Inr \<lparr>TransactionID = tid, Y = ''r'', Q = [], Args = None, Resp = Some r, Kerr = None\<rparr>)"

definition MakeError :: "bytes \<Rightarrow> KRPCErr option \<Rightarrow> abort + Message" where
  "MakeError tid err =
     Inr \<lparr>TransactionID = tid, Y = ''e'', Q = [], Args = None, Resp = None, Kerr = err\<rparr>"

section \<open>Sending and dispatching\<close>

text \<open>
  \<open>Host.SendMessage\<close> of a \<open>*Message\<close>: the datagram written. Setting the deadline and writing are the
  operation \<open>put\<close>.
\<close>

definition SendMessage :: "env \<Rightarrow> 'w put \<Rightarrow> 'w \<Rightarrow> Message \<Rightarrow> abort option \<times> 'w" where
  "SendMessage E put w m =
     (case Marshal E (Some (TPtr message_type, VPtr (Some (message_val m)))) of
        (data, Some e) \<Rightarrow> (Some e, w)
      | (data, None) \<Rightarrow> (case put w data of (r, w1) \<Rightarrow> (map_option Err r, w1)))"

datatype dispose_call =
    DisposeQuery UDPAddr bytes bytes "bytes option"
  | DisposeResponse UDPAddr bytes "bytes option"
  | DisposeError UDPAddr bytes int bytes
  | DisposeUnknownMessage UDPAddr bytes

text \<open>
  \<open>disposeMessage\<close>: how it ended and the call it made on its disposer, whose result it returns. The
  deferred recovery from a panic is left out: the decoder lets none out, and the only disposer \<open>Serv\<close> uses
  is the proxy, whose methods spawn a job and do nothing that could panic.
\<close>

definition disposeMessage :: "env \<Rightarrow> (dispose_call \<Rightarrow> gerror option) \<Rightarrow> UDPAddr \<Rightarrow> bytes \<Rightarrow>
    abort option \<times> dispose_call option" where
  "disposeMessage E disposer addr data =
     (case unmarshal_var E data message_type (zero message_type) of
        (Some e, v) \<Rightarrow> (Some e, None)
      | (None, v) \<Rightarrow>
          (let m = message_of v in
           if Y m = ''q'' then
             (let c = DisposeQuery addr (TransactionID m) (Q m) (Args m) in (map_option Err (disposer c), Some c))
           else if Y m = ''r'' then
             (let c = DisposeResponse addr (TransactionID m) (Resp m) in (map_option Err (disposer c), Some c))
           else (None, None)))"

end
