(* ===== verification/Dht_Messages.thy ===== *)
theory Dht_Messages
  imports Dht_Krpc
begin

text \<open>
  What holds of the messages of the DHT: the types with methods fit the contracts of the codec, messages
  survive the wire, and what one host sends is what the other one dispatches.
\<close>

section \<open>The types with methods\<close>

lemma unmarshal_var_safe:
  assumes "env_safe E" and "wf_type t" and "has_type t v"
  shows "has_type t (snd (unmarshal_var E b t v)) \<and> (\<forall>msg. fst (unmarshal_var E b t v) \<noteq> Some (Panic msg))"
  using decodeInto_safe [OF assms, of "newDecoder b"] by (simp add: unmarshal_var_def safe_result_def split_beta)

lemma unmarshal_var_total: "env_total E \<Longrightarrow> fst (unmarshal_var E b t v) \<noteq> Some OutOfFuel"
  using decodeInto_total [of E t v "newDecoder b"] by (simp add: unmarshal_var_def split_beta)

lemma wf_node_types [simp]: "wf_type nodes_type" "wf_type kerr_type" "declared ''NodePtrSlice'' = Some (TSlice (TPtr node_type))"
  "declared ''KRPCErr'' = Some kerr_struct"
  by (simp_all add: nodes_type_def kerr_type_def kerr_struct_def declared_def node_type_def udpaddr_type_def
      field_ok_def embedded_def field_def hidden_field_def)

lemma port_bound: "DecodeCompactIPPortInfo s = Inr (ip, port) \<Longrightarrow> 0 \<le> port \<and> port < 65536"
proof -
  assume "DecodeCompactIPPortInfo s = Inr (ip, port)"
  then obtain w :: "16 word" where "port = uint w" by (auto simp: DecodeCompactIPPortInfo_def split: if_splits)
  then show ?thesis using uint_lt2p [of w] by simp
qed

lemma node_typed: "has_type node_type (node_val (unpack_node buf))"
  by (auto simp: node_type_def udpaddr_type_def unpack_node_def node_val_def addr_val_def split: sum.split
      dest!: port_bound)

lemma unpackNodes_typed: "unpackNodes data = Inr nds \<Longrightarrow> has_type (TSlice (TPtr node_type)) (nodes_val nds)"
  using node_typed by (auto simp: unpackNodes_def nodes_val_def list_all_iff split: if_splits)

lemma nodes_unmarshal_ok:
  assumes "has_type (TSlice (TPtr node_type)) v"
  shows "has_type (TSlice (TPtr node_type)) (snd (NodePtrSlice_UnmarshalBencode env0 v b)) \<and>
    (\<forall>msg. fst (NodePtrSlice_UnmarshalBencode env0 v b) \<noteq> Some (Panic msg)) \<and>
    fst (NodePtrSlice_UnmarshalBencode env0 v b) \<noteq> Some OutOfFuel"
  using unmarshal_var_safe [OF env0_ok(2), of TString "VString []" b] unmarshal_var_total [OF env0_ok(1), of b TString "VString []"]
    assms unpackNodes_typed
  by (auto simp: NodePtrSlice_UnmarshalBencode_def split: prod.split option.split sum.split simp del: has_type_iff(6))

lemma as_int64_bounds: "has_type TIface v \<Longrightarrow> - (2 ^ 63) \<le> as_int64 v \<and> as_int64 v < 2 ^ 63"
  by (auto simp: as_int64_def split: option.splits goval.splits gotype.splits)

lemma kerr_unmarshal_ok:
  assumes "has_type kerr_struct v"
  shows "has_type kerr_struct (snd (KRPCErr_UnmarshalBencode env0 v b)) \<and>
    (\<forall>msg. fst (KRPCErr_UnmarshalBencode env0 v b) \<noteq> Some (Panic msg)) \<and>
    fst (KRPCErr_UnmarshalBencode env0 v b) \<noteq> Some OutOfFuel"
proof -
  let ?r = "unmarshal_var env0 b (TSlice TIface) (VSlice None)"
  have safe: "has_type (TSlice TIface) (snd ?r)" "\<forall>msg. fst ?r \<noteq> Some (Panic msg)" "fst ?r \<noteq> Some OutOfFuel"
    using unmarshal_var_safe [OF env0_ok(2), of "TSlice TIface" "VSlice None" b]
      unmarshal_var_total [OF env0_ok(1), of b "TSlice TIface" "VSlice None"] by auto
  let ?e = "case snd ?r of VSlice (Some es) \<Rightarrow> es | _ \<Rightarrow> []"
  have "list_all (has_type TIface) ?e"
    using safe(1) by (auto split: option.split)
  then have "\<forall>i < length ?e. has_type TIface (?e ! i)" by (simp only: list_all_length)
  then have "- (2 ^ 63) \<le> as_int64 (?e ! 0) \<and> as_int64 (?e ! 0) < 2 ^ 63" if "\<not> length ?e < 2"
    using that by (intro as_int64_bounds) (drule spec [of _ 0], erule mp, linarith)
  then show ?thesis
    using safe(2,3) assms
    by (auto simp: KRPCErr_UnmarshalBencode_def kerr_val_def kerr_struct_def irregular_def Let_def split_beta split: option.split)
qed

lemma btlet_env_ok: "env_total btlet_env" "env_safe btlet_env"
proof -
  have u: "unmarshal (btlet_env nm) = Some f \<Longrightarrow>
      nm = ''RawMessage'' \<and> f = (\<lambda>v data. (None, raw_val (raw_UnmarshalBencode (raw_of v) data))) \<or>
      nm = ''NodePtrSlice'' \<and> f = NodePtrSlice_UnmarshalBencode env0 \<or>
      nm = ''KRPCErr'' \<and> f = KRPCErr_UnmarshalBencode env0" for nm f
    by (auto simp: btlet_env_def nodes_methods_def kerr_methods_def no_methods_def split: if_splits)
  have ut: "unmarshal_text (btlet_env nm) = None" for nm
    by (simp add: btlet_env_def nodes_methods_def kerr_methods_def no_methods_def)
  have "fst (NodePtrSlice_UnmarshalBencode env0 v b) \<noteq> Some OutOfFuel" for v b
    using unmarshal_var_total [OF env0_ok(1), of b TString "VString []"]
    by (auto simp: NodePtrSlice_UnmarshalBencode_def split_beta split: option.split sum.split)
  moreover have "fst (KRPCErr_UnmarshalBencode env0 v b) \<noteq> Some OutOfFuel" for v b
    using unmarshal_var_total [OF env0_ok(1), of b "TSlice TIface" "VSlice None"]
    by (auto simp: KRPCErr_UnmarshalBencode_def irregular_def Let_def split_beta split: option.split)
  ultimately show "env_total btlet_env" using u ut by (auto simp: env_total_def dest!: u)
  show "env_safe btlet_env"
    unfolding env_safe_def
  proof (intro allI impI)
    fix nm t f v b
    assume "unmarshal (btlet_env nm) = Some f \<or> unmarshal_text (btlet_env nm) = Some f"
      and wf: "wf_type (TNamed nm t)" and ty: "has_type t v"
    then show "has_type t (snd (f v b)) \<and> (\<forall>msg. fst (f v b) \<noteq> Some (Panic msg))"
      using u [of nm f] ut [of nm] nodes_unmarshal_ok [of v b] kerr_unmarshal_ok [of v b] raw_val_typed
      by (auto simp del: has_type_iff(6,9))
  qed
qed

interpretation btlet_typed: typed_decoder "readValueInto m" "decode btlet_env n" for m n
  by (rule typed_decode [OF btlet_env_ok(2)])

interpretation btlet_fuelled: fuelled_decoder "readValueInto (Suc n)" "decode btlet_env (Suc n)" n for n
  by (rule fuelled_decode [OF btlet_env_ok(1)])

interpretation btlet_spec: spec_decoder "readValueInto n" "decode btlet_env n" "assign btlet_env" n for n
  by (rule spec_decoder_decode [OF btlet_env_ok(2)])

section \<open>Messages on the wire\<close>

definition kerr_bval :: "KRPCErr \<Rightarrow> bval" where
  "kerr_bval kerr = BList [BInt (fst kerr), BStr (snd kerr)]"

definition message_dict :: "bytes \<Rightarrow> bytes \<Rightarrow> bytes \<Rightarrow> bval option \<Rightarrow> bval option \<Rightarrow> KRPCErr option \<Rightarrow> (bytes \<times> bval) list" where
  "message_dict tid y q a r e =
     (case a of None \<Rightarrow> [] | Some b \<Rightarrow> [(''a'', b)]) @
     (case e of None \<Rightarrow> [] | Some k \<Rightarrow> [(''e'', kerr_bval k)]) @
     (if q = [] then [] else [(''q'', BStr q)]) @
     (case r of None \<Rightarrow> [] | Some b \<Rightarrow> [(''r'', b)]) @
     [(''t'', BStr tid), (''y'', BStr y)]"

definition message_with :: "bytes \<Rightarrow> bytes \<Rightarrow> bytes \<Rightarrow> bval option \<Rightarrow> bval option \<Rightarrow> KRPCErr option \<Rightarrow> Message" where
  "message_with tid y q a r e =
     \<lparr>TransactionID = tid, Y = y, Q = q, Args = map_option benc a, Resp = map_option benc r, Kerr = e\<rparr>"

lemma message_tags:
  "parseTag ''t'' = (''t'', [])" "parseTag ''y'' = (''y'', [])"
  "parseTag ''q,omitempty'' = (''q'', [''omitempty''])" "parseTag ''a,omitempty'' = (''a'', [''omitempty''])"
  "parseTag ''r,omitempty'' = (''r'', [''omitempty''])" "parseTag ''e,omitempty'' = (''e'', [''omitempty''])"
  by code_simp+

lemma btlet_methods [simp]:
  "btlet_env ''RawMessage'' = raw_methods" "btlet_env ''NodePtrSlice'' = nodes_methods"
  "btlet_env ''KRPCErr'' = kerr_methods" "btlet_env ''Message'' = no_methods" "btlet_env ''Response'' = no_methods"
  by (simp_all add: btlet_env_def)

lemma Marshal_kerr: "KRPCErr_MarshalBencode env0 kerr = Inr (benc (kerr_bval kerr))"
proof -
  let ?v = "VSlice (Some [VIface (Some (TInt 64, VInt (fst kerr))), VIface (Some (TString, VString (snd kerr)))])"
  have "Marshal env0 (Some (TSlice TIface, ?v)) = (benc (kerr_bval kerr), None)"
    by (simp add: Marshal_def Encode_def encode.simps encodeLoop.simps encodeKind.simps methods_at_def iface_method_def
        encodeArrayOrSlice_def emit_def writeInt_def writeString_def kerr_bval_def bstr_def)
  then show ?thesis by (simp add: KRPCErr_MarshalBencode_def)
qed

lemma encode_kerr: "encode btlet_env True kerr_type (kerr_val kerr) = (None, benc (kerr_bval kerr))"
  by (simp add: encode.simps methods_at_def kerr_type_def kerr_methods_def no_methods_def write_method_def invoke_def
      Marshal_kerr emit_def)

lemma encode_raw_btlet: "encode btlet_env a raw_type (raw_val m) = (None, raw_MarshalBencode m)"
  by (rule encode_raw) simp_all

lemma raw_empty: "isEmptyValue (raw_val m) \<longleftrightarrow> m = None \<or> m = Some []"
  by (cases m) (simp_all add: isEmptyValue_def raw_val_def)

lemma direct_raw: "getDirectValue a raw_type (raw_val m) = Some (a, raw_type, raw_val m)"
  by (subst getDirectValue.simps) (simp add: raw_type_def raw_val_def)

lemma direct_string: "getDirectValue a TString (VString s) = Some (a, TString, VString s)"
  by (subst getDirectValue.simps) simp

definition wire_fields :: "bytes \<Rightarrow> bytes \<Rightarrow> bytes \<Rightarrow> bval option \<Rightarrow> bval option \<Rightarrow> KRPCErr option \<Rightarrow> dictionary" where
  "wire_fields tid y q a r e =
   [(''t'', True, TString, VString tid), (''y'', True, TString, VString y)] @
   (if q = [] then [] else [(''q'', True, TString, VString q)]) @
   (case a of None \<Rightarrow> [] | Some b \<Rightarrow> [(''a'', True, raw_type, raw_val (Some (benc b)))]) @
   (case r of None \<Rightarrow> [] | Some b \<Rightarrow> [(''r'', True, raw_type, raw_val (Some (benc b)))]) @
   (case e of None \<Rightarrow> [] | Some k \<Rightarrow> [(''e'', True, kerr_type, kerr_val k)])"

lemma kerr_direct: "getDirectValue True (TPtr kerr_type) (VPtr (Some (kerr_val k))) = Some (True, kerr_type, kerr_val k)"
  by (simp add: getDirectValue.simps kerr_type_def kerr_struct_def kerr_val_def)

lemma read_message: "readStruct [] True message_type (message_val (message_with tid y q a r e)) = Inr (wire_fields tid y q a r e)"
  apply (cases a; cases r; cases e)
  apply (simp_all add: message_type_def message_fields_def message_val_def message_with_def readStruct.simps
    tagged_field_def field_def message_tags ignored_def omitEmpty_def raw_empty direct_raw direct_string isEmptyValue_def[of "VString s" for s] isEmptyValue_def[of "VPtr s" for s]
    wire_fields_def kerr_direct getDirectValue.simps[of _ _ "VPtr None"])
  done

lemma keys_order:
  "''a'' < (''e'' :: string)" "''e'' < (''q'' :: string)" "''q'' < (''r'' :: string)" "''r'' < (''t'' :: string)" "''t'' < (''y'' :: string)"
  by code_simp+

lemma sort_wire: "sort_key fst (wire_fields tid y q a r e) =
   (case a of None \<Rightarrow> [] | Some b \<Rightarrow> [(''a'', True, raw_type, raw_val (Some (benc b)))]) @
   (case e of None \<Rightarrow> [] | Some k \<Rightarrow> [(''e'', True, kerr_type, kerr_val k)]) @
   (if q = [] then [] else [(''q'', True, TString, VString q)]) @
   (case r of None \<Rightarrow> [] | Some b \<Rightarrow> [(''r'', True, raw_type, raw_val (Some (benc b)))]) @
   [(''t'', True, TString, VString tid), (''y'', True, TString, VString y)]"
  by (cases a; cases r; cases e) (simp_all add: wire_fields_def)


lemma encodeLoop_message:
  "encodeLoop btlet_env True message_type (message_val m) =
     (case readStruct [] True message_type (message_val m) of
             Inl e \<Rightarrow> (Some e, ''d'')
           | Inr dict \<Rightarrow>
               run_all ([emit ''d''] @
                 concat (map (\<lambda>(k, a', t', x). [writeString k, encode btlet_env a' t' x]) (struct_entries dict)) @
                 [emit ''e'']))"
  by (subst encodeLoop.simps)
    (simp add: encodeKind.simps methods_at_def message_type_def message_val_def no_methods_def)

lemma Marshal_message:
  "Marshal btlet_env (Some (TPtr message_type, VPtr (Some (message_val (message_with tid y q a r e))))) =
    (benc (BDict (message_dict tid y q a r e)), None)"
proof -
  have "Marshal btlet_env (Some (TPtr message_type, VPtr (Some (message_val (message_with tid y q a r e))))) =
    prod.swap (encodeLoop btlet_env True message_type (message_val (message_with tid y q a r e)))"
    by (simp add: Marshal_def Encode_def encode.simps [of _ False] encodeLoop.simps [of _ _ "TPtr t" for t] methods_at_def
      message_type_def no_methods_def split_beta prod_eq_iff)
  also have "\<dots> = (benc (BDict (message_dict tid y q a r e)), None)"
    unfolding encodeLoop_message read_message struct_entries_def
    by (cases a; cases r; cases e)
      (simp_all add: sort_wire message_dict_def encode_string encode_raw_btlet encode_kerr writeString_bstr emit_def
        raw_MarshalBencode_def bstr_def)
  finally show ?thesis .
qed

lemma assign_kerr_list:
  "assign env0 (kerr_bval kerr) (TSlice TIface) (VSlice None) =
   Some (VSlice (Some [VIface (Some (TInt 64, VInt (fst kerr))), VIface (Some (TString, VString (snd kerr)))]))"
  unfolding kerr_bval_def
  by (intro assign_slice) (simp_all add: through.simps assign_at_def assign_int_def assign_str_def All_less_Suc2)

lemma unmarshal_kerr:
  assumes "bval_ok (kerr_bval kerr)"
  shows "KRPCErr_UnmarshalBencode env0 v (benc (kerr_bval kerr)) = (None, kerr_val kerr)"
  using unmarshal_var_assign [OF env0_ok(2) assms, of "TSlice TIface" "VSlice None" "[]"]
  by (simp add: KRPCErr_UnmarshalBencode_def assign_kerr_list as_int64_def as_string_def del: benc.simps assign.simps)

lemma assign_kerr:
  assumes "bval_ok (kerr_bval kerr)"
  shows "assign btlet_env (kerr_bval kerr) kerr_type v = Some (kerr_val kerr)"
proof -
  have "assign btlet_env (BList bs) kerr_type v = 
    (case KRPCErr_UnmarshalBencode env0 v (benc (BList bs)) of (None, x) \<Rightarrow> Some x | _ \<Rightarrow> None)" for bs
    by (simp add: through.simps kerr_type_def kerr_struct_def assign_at_def kerr_methods_def no_methods_def)
  then show ?thesis using unmarshal_kerr [OF assms] by (simp add: kerr_bval_def del: assign.simps benc.simps)
qed

lemma flat_message: "flat message_fields"
  by (simp add: flat_def message_fields_def flat_field_def tagged_field_def field_def field_opts_def field_key_def message_tags ignored_def)


lemma message_field_list:
  "length message_fields = 6"
  "map (\<lambda>ft. field_key (fst ft)) message_fields = [''t'', ''y'', ''q'', ''a'', ''r'', ''e'']"
  "map snd message_fields = [TString, TString, TString, raw_type, raw_type, TPtr kerr_type]"
  "map (\<lambda>(f, t). zero t) message_fields = [VString [], VString [], VString [], raw_val None, raw_val None, VPtr None]"
  subgoal by (simp add: message_fields_def)
  subgoal by (simp add: message_fields_def tagged_field_def field_def field_key_def message_tags)
  subgoal by (simp add: message_fields_def)
  subgoal apply (simp add: message_fields_def raw_val_def) apply (simp add: raw_type_def) done
  done

lemma message_field_at:
  assumes "j < 6"
  shows "field_key (fst (message_fields ! j)) = [''t'', ''y'', ''q'', ''a'', ''r'', ''e''] ! j"
    and "snd (message_fields ! j) = [TString, TString, TString, raw_type, raw_type, TPtr kerr_type] ! j"
  using assms unfolding message_field_list(2,3) [symmetric] by (simp_all add: message_field_list(1))

lemma bval_ok_entry: "bval_ok (BDict kvs) \<Longrightarrow> map_of kvs k = Some b \<Longrightarrow> bval_ok b"
  by (drule map_of_SomeD) (auto simp: list_all_iff)

lemma assign_named:
  "unmarshal (E nm) = None \<Longrightarrow> unmarshal_text (E nm) = None \<Longrightarrow>
   assign E (BDict kvs) (TNamed nm (TStruct fs)) (VStruct vs) = assign E (BDict kvs) (TStruct fs) (VStruct vs)"
  by (simp add: through.simps assign_at_def assign_dict_def assign_obj_def wrapStruct2Map.simps)

lemma assign_message:
  assumes ok: "bval_ok (BDict kvs)"
    and m: "map_of kvs ''t'' = Some (BStr tid)" "map_of kvs ''y'' = Some (BStr y)"
    "map_of kvs ''q'' = (if q = [] then None else Some (BStr q))"
    "map_of kvs ''a'' = a" "map_of kvs ''r'' = r" "map_of kvs ''e'' = map_option kerr_bval e"
  shows "assign btlet_env (BDict kvs) message_type (zero message_type) = Some (message_val (message_with tid y q a r e))"
proof -
  have k: "bval_ok (kerr_bval k)" if "e = Some k" for k
    using m(6) that by (auto intro!: bval_ok_entry [OF ok] simp del: bval_ok.simps)
  let ?ws = "[VString tid, VString y, VString q, raw_val (map_option benc a), raw_val (map_option benc r), VPtr (map_option kerr_val e)]"
  let ?zs = "[VString [], VString [], VString [], raw_val None, raw_val None, VPtr None]"
  let ?ks = "[''t'', ''y'', ''q'', ''a'', ''r'', ''e'']"
  let ?ts = "[TString, TString, TString, raw_type, raw_type, TPtr kerr_type]"
  have "\<forall>j < 6. case map_of kvs (?ks ! j) of
      None \<Rightarrow> ?ws ! j = ?zs ! j | Some b \<Rightarrow> assign btlet_env b (?ts ! j) (?zs ! j) = Some (?ws ! j)"
    using m k by (simp add: eval_nat_numeral All_less_Suc2 assign_raw_env assign_ptr assign_kerr split: option.split del: assign.simps)
  then have "assign btlet_env (BDict kvs) (TStruct message_fields) (VStruct ?zs) = Some (VStruct ?ws)"
    using ok by (intro assign_flat [OF flat_message]) (simp_all add: message_field_list(1) message_field_at cong: option.case_cong del: assign.simps)
  then show ?thesis 
    by (simp add: message_type_def assign_named no_methods_def message_field_list message_val_def message_with_def del: assign.simps)
qed

lemma wf_message [simp]: "wf_type message_type" "declared ''Message'' = None"
  "has_type message_type (zero message_type)"
  by (auto simp: message_type_def message_fields_def tagged_field_def field_def field_ok_def embedded_def declared_def
    raw_type_def)

lemma read_datagram:
  assumes "bval_ok (BDict kvs)"
    and "map_of kvs ''t'' = Some (BStr tid)" "map_of kvs ''y'' = Some (BStr y)"
    "map_of kvs ''q'' = (if q = [] then None else Some (BStr q))"
    "map_of kvs ''a'' = a" "map_of kvs ''r'' = r" "map_of kvs ''e'' = map_option kerr_bval e"
  shows "unmarshal_var btlet_env (benc (BDict kvs) @ rest) message_type (zero message_type) =
    (None, message_val (message_with tid y q a r e))"
  using unmarshal_var_assign [OF btlet_env_ok(2) assms(1) wf_message(1,3), of rest] assign_message [OF assms]
  by (simp del: benc.simps assign.simps)

lemma dispose_datagram:
  assumes "bval_ok (BDict kvs)"
    and "map_of kvs ''t'' = Some (BStr tid)" "map_of kvs ''y'' = Some (BStr y)"
    "map_of kvs ''q'' = (if q = [] then None else Some (BStr q))"
    "map_of kvs ''a'' = a" "map_of kvs ''r'' = r" "map_of kvs ''e'' = map_option kerr_bval e"
  shows "disposeMessage btlet_env disposer addr (benc (BDict kvs) @ rest) =
    (let call = (if y = ''q'' then Some (DisposeQuery addr tid q (map_option benc a))
                 else if y = ''r'' then Some (DisposeResponse addr tid (map_option benc r))
                 else None)
     in (Option.bind call (\<lambda>c. map_option Err (disposer c)), call))"
  by (simp add: disposeMessage_def read_datagram [OF assms] message_with_def Let_def del: benc.simps)

lemma message_dict_ok:
  assumes "len_ok tid" "len_ok y" "len_ok q" "pred_option bval_ok a" "pred_option bval_ok r"
     "pred_option (\<lambda>k. bval_ok (kerr_bval k)) e"
  shows "bval_ok (BDict (message_dict tid y q a r e))"
  using assms by (cases a; cases r; cases e) (simp_all add: message_dict_def len_ok_def)

lemma message_dict_get:
  "map_of (message_dict tid y q a r e) ''t'' = Some (BStr tid)"
  "map_of (message_dict tid y q a r e) ''y'' = Some (BStr y)"
  "map_of (message_dict tid y q a r e) ''q'' = (if q = [] then None else Some (BStr q))"
  "map_of (message_dict tid y q a r e) ''a'' = a"
  "map_of (message_dict tid y q a r e) ''r'' = r"
  "map_of (message_dict tid y q a r e) ''e'' = map_option kerr_bval e"
  by (simp_all add: message_dict_def split: option.split)

text \<open>A panic never leaves the dispatch of a datagram, whatever it holds.\<close>

lemma disposeMessage_safe:
  shows "\<forall>msg. fst (disposeMessage btlet_env disposer addr data) \<noteq> Some (Panic msg)"
    "fst (disposeMessage btlet_env disposer addr data) \<noteq> Some OutOfFuel"
  using unmarshal_var_safe [OF btlet_env_ok(2) wf_message(1,3), of data]
    unmarshal_var_total [OF btlet_env_ok(1), of data message_type "zero message_type"]
  by (auto simp: disposeMessage_def Let_def split_beta split: option.splits)

end
