(* ===== verification/Dht_Bodies.thy ===== *)
theory Dht_Bodies
  imports Dht_Messages
begin

text \<open>
  The arguments of the queries and the body of a response on the wire: how a host reads those it is
  sent, whatever else their dictionaries hold, and what it writes.
\<close>

section \<open>Bodies\<close>

text \<open>The bodies of the messages are structs without embedded fields and without methods.\<close>

lemma read_body:
  assumes "bval_ok (BDict kvs)" and "flat fs" and "wf_type (TNamed nm (TStruct fs))" and "btlet_env nm = no_methods"
    and "length ws = length fs"
    and "\<forall>j < length fs. case map_of kvs (field_key (fst (fs ! j))) of
        None \<Rightarrow> ws ! j = zero (snd (fs ! j))
      | Some b \<Rightarrow> assign btlet_env b (snd (fs ! j)) (zero (snd (fs ! j))) = Some (ws ! j)"
  shows "unmarshal_var btlet_env (benc (BDict kvs)) (TNamed nm (TStruct fs)) (zero (TNamed nm (TStruct fs))) =
    (None, VStruct ws)"
proof -
  let ?zs = "map (\<lambda>(f, t). zero t) fs"
  have "map (\<lambda>(f, t). zero t) fs ! j = zero (snd (fs ! j))" if "j < length fs" for j
    using that by (simp add: split_beta)
  then have "assign btlet_env (BDict kvs) (TStruct fs) (VStruct ?zs) = Some (VStruct ws)"
    using assms by (intro assign_flat) (simp_all cong: option.case_cong del: assign.simps)
  then have "assign btlet_env (BDict kvs) (TNamed nm (TStruct fs)) (VStruct ?zs) = Some (VStruct ws)"
    using assms(4) by (simp add: assign_named no_methods_def del: assign.simps)
  moreover have "has_type (TNamed nm (TStruct fs)) (zero (TNamed nm (TStruct fs)))"
    using assms(3) by (rule has_type_zero)
  ultimately show ?thesis
    using unmarshal_var_assign [OF btlet_env_ok(2) assms(1,3), of "zero (TNamed nm (TStruct fs))" "[]"]
    by (simp del: benc.simps assign.simps)
qed

lemma body_tags:
  "parseTag ''id'' = (''id'', [])" "parseTag ''target'' = (''target'', [])" "parseTag ''info_hash'' = (''info_hash'', [])"
  "parseTag ''port'' = (''port'', [])" "parseTag ''token'' = (''token'', [])"
  "parseTag ''nodes,omitempty'' = (''nodes'', [''omitempty''])" "parseTag ''token,omitempty'' = (''token'', [''omitempty''])"
  "parseTag ''values,omitempty'' = (''values'', [''omitempty''])"
  by code_simp+

lemmas body_defs = PingArgs_def FindNodeArgs_def GetPeersArgs_def AnnouncePeerArgs_def Response_def

lemma body_env [simp]: "btlet_env ''PingArgs'' = no_methods" "btlet_env ''FindNodeArgs'' = no_methods"
  "btlet_env ''GetPeersArgs'' = no_methods" "btlet_env ''AnnouncePeerArgs'' = no_methods"
  by (simp_all add: btlet_env_def)

lemma wf_bodies [simp]: "wf_type PingArgs" "wf_type FindNodeArgs" "wf_type GetPeersArgs" "wf_type AnnouncePeerArgs" "wf_type Response"
  by (auto simp: body_defs tagged_field_def field_def field_ok_def embedded_def declared_def)

lemma flat_bodies:
  "flat [(tagged_field ''NodeID'' ''id'', TString)]"
  "flat [(tagged_field ''NodeID'' ''id'', TString), (tagged_field ''InfoHash'' ''info_hash'', TString)]"
  "flat [(tagged_field ''NodeID'' ''id'', TString), (tagged_field ''InfoHash'' ''info_hash'', TString),
      (tagged_field ''Port'' ''port'', TInt 64), (tagged_field ''Token'' ''token'', TString)]"
  "flat [(tagged_field ''NodeID'' ''id'', TString), (tagged_field ''Nodes'' ''nodes,omitempty'', TPtr nodes_type),
      (tagged_field ''Token'' ''token,omitempty'', TString), (tagged_field ''Values'' ''values,omitempty'', TSlice TString)]"
  by (simp_all add: flat_def flat_field_def tagged_field_def field_def field_opts_def field_key_def body_tags ignored_def)

lemma body_keys [simp]:
  "field_key (tagged_field ''NodeID'' ''id'') = ''id''" "field_key (tagged_field ''InfoHash'' ''info_hash'') = ''info_hash''"
  "field_key (tagged_field ''Port'' ''port'') = ''port''" "field_key (tagged_field ''Token'' ''token'') = ''token''"
  "field_key (tagged_field ''Nodes'' ''nodes,omitempty'') = ''nodes''"
  "field_key (tagged_field ''Token'' ''token,omitempty'') = ''token''"
  "field_key (tagged_field ''Values'' ''values,omitempty'') = ''values''"
  by (simp_all add: field_key_def tagged_field_def field_def body_tags)

lemma read_ping:
  assumes "bval_ok (BDict kvs)" and "map_of kvs ''id'' = Some (BStr i)"
  shows "unmarshal_var btlet_env (benc (BDict kvs)) PingArgs (zero PingArgs) = (None, VStruct [VString i])"
  using assms unfolding PingArgs_def
  by (intro read_body flat_bodies wf_bodies [unfolded body_defs]) (simp_all del: assign.simps)

lemma read_get_peers:
  assumes "bval_ok (BDict kvs)" and "map_of kvs ''id'' = Some (BStr i)" and "map_of kvs ''info_hash'' = Some (BStr ih)"
  shows "unmarshal_var btlet_env (benc (BDict kvs)) GetPeersArgs (zero GetPeersArgs) = (None, VStruct [VString i, VString ih])"
  using assms unfolding GetPeersArgs_def
  by (intro read_body flat_bodies wf_bodies [unfolded body_defs]) (simp_all add: All_less_Suc2 del: assign.simps)

lemma read_announce:
  assumes "bval_ok (BDict kvs)" and "map_of kvs ''id'' = Some (BStr i)" and "map_of kvs ''info_hash'' = Some (BStr ih)"
    and "map_of kvs ''port'' = Some (BInt p)" and "map_of kvs ''token'' = Some (BStr tok)"
  shows "unmarshal_var btlet_env (benc (BDict kvs)) AnnouncePeerArgs (zero AnnouncePeerArgs) =
    (None, VStruct [VString i, VString ih, VInt p, VString tok])"
proof -
  have "signed_take_bit 63 p = p"
    using bval_ok_entry [OF assms(1,4)] by (simp add: signed_take_bit_int_eq_self)
  then show ?thesis
    using assms unfolding AnnouncePeerArgs_def
    by (intro read_body flat_bodies wf_bodies [unfolded body_defs]) (simp_all add: All_less_Suc2 del: assign.simps)
qed

lemma assign_nodes:
  assumes "len_ok data" and "unpackNodes data = Inr nds"
  shows "assign btlet_env (BStr data) nodes_type v = Some (nodes_val nds)"
proof -
  have "NodePtrSlice_UnmarshalBencode env0 v (benc (BStr data)) = (None, nodes_val nds)"
    using unmarshal_var_assign [OF env0_ok(2), of "BStr data" TString "VString []" "[]"] assms
    by (simp add: NodePtrSlice_UnmarshalBencode_def del: benc.simps assign.simps)
  then show ?thesis
    by (simp add: through.simps nodes_type_def assign_at_def nodes_methods_def no_methods_def)
qed

text \<open>A response with nodes, as the crawler reads it. Lists of peers are strings.\<close>

lemma read_response:
  assumes "bval_ok (BDict kvs)" and "map_of kvs ''id'' = Some (BStr i)" and "map_of kvs ''nodes'' = Some (BStr data)"
    and "unpackNodes data = Inr nds"
    and "map_of kvs ''token'' = map_option BStr tok" and "map_of kvs ''values'' = map_option (\<lambda>ss. BList (map BStr ss)) vals"
  shows "\<exists>vs. unmarshal_var btlet_env (benc (BDict kvs)) Response (zero Response) =
    (None, VStruct [VString i, VPtr (Some (nodes_val nds)), VString (case tok of Some s \<Rightarrow> s | None \<Rightarrow> []), VSlice vs])"
proof -
  have "len_ok data" using bval_ok_entry [OF assms(1,3)] by simp
  then have n: "assign btlet_env (BStr data) (TPtr nodes_type) (VPtr None) = Some (VPtr (Some (nodes_val nds)))"
    using assms(4) by (intro assign_ptr assign_nodes)
  define vs where "vs = (case vals of None \<Rightarrow> None | Some ss \<Rightarrow> if ss = [] then None else Some (map VString ss))"
  have "case map_option (\<lambda>ss. BList (map BStr ss)) vals of
        None \<Rightarrow> VSlice vs = VSlice None
      | Some b \<Rightarrow> assign btlet_env b (TSlice TString) (VSlice None) = Some (VSlice vs)"
    using assign_strings [of btlet_env] by (simp add: vs_def split: option.split)
  moreover have "case map_option BStr tok of
        None \<Rightarrow> VString (case tok of Some s \<Rightarrow> s | None \<Rightarrow> []) = VString []
      | Some b \<Rightarrow> assign btlet_env b TString (VString []) = Some (VString (case tok of Some s \<Rightarrow> s | None \<Rightarrow> []))"
    by (simp split: option.split del: assign.simps)
  ultimately show ?thesis
    using assms n unfolding Response_def
    by (intro exI [of _ vs] read_body flat_bodies wf_bodies [unfolded body_defs])
      (simp_all add: All_less_Suc2 btlet_methods cong: option.case_cong del: assign.simps)
qed

lemma Marshal_body:
  assumes "btlet_env nm = no_methods" and "readStruct [] True (TNamed nm (TStruct fs)) (VStruct vs) = Inr dict"
  shows "Marshal btlet_env (Some (TPtr (TNamed nm (TStruct fs)), VPtr (Some (VStruct vs)))) =
    prod.swap (run_all ([emit ''d''] @
       concat (map (\<lambda>(k, a', t', x). [writeString k, encode btlet_env a' t' x]) (struct_entries dict)) @ [emit ''e'']))"
proof -
  have "encodeLoop btlet_env True (TNamed nm (TStruct fs)) (VStruct vs) =
      run_all ([emit ''d''] @
       concat (map (\<lambda>(k, a', t', x). [writeString k, encode btlet_env a' t' x]) (struct_entries dict)) @ [emit ''e''])"
    using assms by (subst encodeLoop.simps) (simp add: encodeKind.simps methods_at_def no_methods_def)
  then show ?thesis
    using assms(1)
    by (simp add: Marshal_def Encode_def encode.simps [of _ False] encodeLoop.simps [of _ _ "TPtr t" for t] methods_at_def
      no_methods_def split_beta prod_eq_iff)
qed

lemma Marshal_entries:
  assumes "btlet_env nm = no_methods" and "readStruct [] True (TNamed nm (TStruct fs)) (VStruct vs) = Inr dict"
    and "sort_key fst dict = dict'" and "\<forall>(k, a, t, x) \<in> set dict'. encode btlet_env a t x = (None, benc (bs k))"
  shows "Marshal btlet_env (Some (TPtr (TNamed nm (TStruct fs)), VPtr (Some (VStruct vs)))) =
    (benc (BDict (map (\<lambda>(k, a, t, x). (k, bs k)) dict')), None)"
proof -
  let ?f = "\<lambda>(k, a', t', x). [writeString k, encode btlet_env a' t' x]"
  have "concat (map snd (concat (map ?f dict'))) = concat (map (\<lambda>(k, b). bstr k @ benc b) (map (\<lambda>(k, a, t, x). (k, bs k)) dict'))"
    using assms(4) by (induction dict') (auto simp: writeString_bstr)
  moreover have "\<forall>w \<in> set (concat (map ?f dict')). fst w = None"
    using assms(4) by (auto simp: writeString_bstr)
  ultimately have "run_all ([emit ''d''] @ concat (map ?f dict') @ [emit ''e'']) =
      (None, benc (BDict (map (\<lambda>(k, a, t, x). (k, bs k)) dict')))"
    by (subst run_all_ok) (auto simp: emit_def)
  then show ?thesis
    using assms(3) by (subst Marshal_body [OF assms(1,2)]) (simp add: struct_entries_def)
qed

lemma Marshal_find_node:
  "Marshal btlet_env (Some (TPtr FindNodeArgs, VPtr (Some (VStruct [VString i, VString t])))) =
   (benc (BDict [(''id'', BStr i), (''target'', BStr t)]), None)"
  unfolding FindNodeArgs_def
  by (subst Marshal_entries [where dict' = "[(''id'', True, TString, VString i), (''target'', True, TString, VString t)]"
        and bs = "\<lambda>k. BStr (if k = ''id'' then i else t)"],
      simp_all add: readStruct.simps tagged_field_def field_def body_tags ignored_def omitEmpty_def direct_string encode_string)
    simp

definition response_val :: "bytes \<Rightarrow> Node list option option \<Rightarrow> bytes \<Rightarrow> goval" where
  "response_val i nds tok = VStruct [VString i, VPtr (map_option (\<lambda>p. case p of None \<Rightarrow> VSlice None | Some ns \<Rightarrow> nodes_val ns) nds), VString tok, VSlice None]"

lemma direct_nodes:
  "getDirectValue True (TPtr nodes_type) (VPtr None) = None"
  "getDirectValue True (TPtr nodes_type) (VPtr (Some (VSlice s))) = Some (True, nodes_type, VSlice s)"
  "getDirectValue True (TSlice TString) (VSlice s) = Some (True, TSlice TString, VSlice s)"
  by (simp_all add: getDirectValue.simps nodes_type_def)

lemma encode_no_nodes: "encode btlet_env True nodes_type (VSlice None) = (None, benc (BStr []))"
  by (simp add: encode.simps [of _ True] nodes_type_def methods_at_def nodes_methods_def no_methods_def write_method_def
      invoke_def emit_def NodePtrSlice_MarshalBencode_def PackNodes_def Marshal_def Encode_def encode_string)

lemma readStruct_response:
  "readStruct [] True Response (response_val i None []) = Inr [(''id'', True, TString, VString i)]"
  "tok \<noteq> [] \<Longrightarrow> readStruct [] True Response (response_val i (Some None) tok) =
     Inr [(''id'', True, TString, VString i), (''nodes'', True, nodes_type, VSlice None), (''token'', True, TString, VString tok)]"
  by (simp_all add: Response_def response_val_def readStruct.simps tagged_field_def field_def body_tags ignored_def
     omitEmpty_def direct_string direct_nodes isEmptyValue_def)

lemma Marshal_response:
  "Marshal btlet_env (Some (TPtr Response, VPtr (Some (response_val i None [])))) =
   (benc (BDict [(''id'', BStr i)]), None)"
  "tok \<noteq> [] \<Longrightarrow> Marshal btlet_env (Some (TPtr Response, VPtr (Some (response_val i (Some None) tok)))) =
   (benc (BDict [(''id'', BStr i), (''nodes'', BStr []), (''token'', BStr tok)]), None)"
  using Marshal_entries [OF btlet_methods(5) readStruct_response(1) [unfolded Response_def response_val_def],
      where dict' = "[(''id'', True, TString, VString i)]" and bs = "\<lambda>k. BStr i"]
    Marshal_entries [OF btlet_methods(5) readStruct_response(2) [unfolded Response_def response_val_def],
      where dict' = "[(''id'', True, TString, VString i), (''nodes'', True, nodes_type, VSlice None), (''token'', True, TString, VString tok)]"
        and bs = "\<lambda>k. BStr (if k = ''id'' then i else if k = ''nodes'' then [] else tok)"]
  by (simp_all add: Response_def response_val_def encode_string encode_no_nodes)

text \<open>What the host sends, then, is the message on the wire.\<close>

lemma SendMessage_wire:
  "SendMessage btlet_env put w (message_with tid y q a r e) =
    (case put w (benc (BDict (message_dict tid y q a r e))) of (res, w1) \<Rightarrow> (map_option Err res, w1))"
  by (simp add: SendMessage_def Marshal_message)

lemma query_names:
  "query_name (Some (TPtr PingArgs, v)) = Some ''ping''" "query_name (Some (TPtr FindNodeArgs, v)) = Some ''find_node''"
  "query_name (Some (TPtr GetPeersArgs, v)) = Some ''get_peers''"
  "query_name (Some (TPtr AnnouncePeerArgs, v)) = Some ''announce_peer''"
  by (simp_all add: query_name_def body_defs)

lemma MakeQuery_find_node:
  "MakeQuery btlet_env tid (Some (TPtr FindNodeArgs, VPtr (Some (VStruct [VString i, VString t])))) =
   Inr (message_with tid ''q'' ''find_node'' (Some (BDict [(''id'', BStr i), (''target'', BStr t)])) None None)"
  by (simp add: MakeQuery_def MakeQueryEx_def query_names Marshal_find_node message_with_def del: benc.simps)

lemma MakeResponse_id:
  "MakeResponse btlet_env tid (Some (TPtr Response, VPtr (Some (response_val i None [])))) =
   Inr (message_with tid ''r'' [] None (Some (BDict [(''id'', BStr i)])) None)"
  by (simp add: MakeResponse_def Marshal_response message_with_def del: benc.simps)

lemma MakeResponse_token:
  "tok \<noteq> [] \<Longrightarrow> MakeResponse btlet_env tid (Some (TPtr Response, VPtr (Some (response_val i (Some None) tok)))) =
   Inr (message_with tid ''r'' [] None (Some (BDict [(''id'', BStr i), (''nodes'', BStr []), (''token'', BStr tok)])) None)"
  by (simp add: MakeResponse_def Marshal_response message_with_def del: benc.simps)

end
