(* ===== verification/Dht_Host.thy ===== *)
theory Dht_Host
  imports Dht_Messages
begin

text \<open>
  The serving loop of \<open>dht/dht.go\<close> and the proxy that hands every message to a worker. The worker pool
  is not part of the repository: a job spawned is an output, in the order of spawning; the pool runs
  each of them at some time.
\<close>

section \<open>Hosts\<close>

record Host =
  maxWorkers :: int

definition SetMaxWorkers :: "Host \<Rightarrow> int \<Rightarrow> Host" where
  "SetMaxWorkers core n = core\<lparr>maxWorkers := n\<rparr>"

text \<open>
  \<open>NewHost\<close>; resolving the address and listening are the world's, their results \<open>addr\<close> and
  \<open>listen\<close>.
\<close>

definition NewHost :: "('e + 'a) \<Rightarrow> ('a \<Rightarrow> 'e option) \<Rightarrow> 'e + Host" where
  "NewHost addr listen =
     (case addr of
        Inl e \<Rightarrow> Inl e
      | Inr a \<Rightarrow> (case listen a of Some e \<Rightarrow> Inl e | None \<Rightarrow> Inr \<lparr>maxWorkers = 0\<rparr>))"

section \<open>The proxy\<close>

text \<open>
  What a job carries to its worker, and the four \<open>Dispose\<close> methods of the proxy: each spawns a job with
  the arguments of the call and returns no error.
\<close>

datatype argv =
    queryArgv UDPAddr bytes bytes "bytes option"
  | respArgv UDPAddr bytes "bytes option"
  | errorArgv UDPAddr bytes int bytes
  | unknownMessageArgv UDPAddr bytes

fun spawned :: "dispose_call \<Rightarrow> argv" where
  "spawned (DisposeQuery src tid q args) = queryArgv src tid q args"
| "spawned (DisposeResponse src tid resp) = respArgv src tid resp"
| "spawned (DisposeError src tid code desc) = errorArgv src tid code desc"
| "spawned (DisposeUnknownMessage src m) = unknownMessageArgv src m"

definition proxy_dispose :: "dispose_call \<Rightarrow> gerror option" where
  "proxy_dispose c = None"

text \<open>
  The functions the workers run: the same call, of the disposer behind the proxy, its error dropped.
\<close>

fun argv_call :: "argv \<Rightarrow> dispose_call" where
  "argv_call (queryArgv src tid q args) = DisposeQuery src tid q args"
| "argv_call (respArgv src tid resp) = DisposeResponse src tid resp"
| "argv_call (errorArgv src tid code desc) = DisposeError src tid code desc"
| "argv_call (unknownMessageArgv src m) = DisposeUnknownMessage src m"

definition fnDispose :: "('s \<Rightarrow> dispose_call \<Rightarrow> gerror option \<times> 's) \<Rightarrow> argv \<Rightarrow> 's \<Rightarrow> 's" where
  "fnDispose disposer a s = snd (disposer s (argv_call a))"

lemma argv_call_spawned [simp]: "argv_call (spawned c) = c"
  by (cases c) simp_all

lemma spawned_argv_call [simp]: "spawned (argv_call a) = a"
  by (cases a) simp_all

lemma fnDispose_spawned: "fnDispose disposer (spawned c) s = snd (disposer s c)"
  by (simp add: fnDispose_def)

section \<open>Serving\<close>

text \<open>What a round of the loop of \<open>Serv\<close> meets.\<close>

datatype round = Cancelled | ReadFailed | Received UDPAddr bytes

text \<open>
  A datagram longer than the buffer loses its end. The error of \<open>disposeMessage\<close> is dropped. The result
  is whether \<open>Serv\<close> has returned (it returns no error, and the connection is closed), and the jobs.
\<close>

fun Serv :: "env \<Rightarrow> round list \<Rightarrow> bool \<times> dispose_call list" where
  "Serv E [] = (False, [])"
| "Serv E (Cancelled # rs) = (True, [])"
| "Serv E (ReadFailed # rs) = Serv E rs"
| "Serv E (Received addr datagram # rs) =
     (case disposeMessage E proxy_dispose addr (take 8196 datagram) of
        (err, job) \<Rightarrow> (case Serv E rs of (ret, jobs) \<Rightarrow> (ret, (case job of None \<Rightarrow> [] | Some c \<Rightarrow> [c]) @ jobs)))"

lemma Serv_returns: "fst (Serv E rs) \<longleftrightarrow> Cancelled \<in> set rs"
  by (induction E rs rule: Serv.induct) (auto split: prod.split)

lemma Serv_cancelled: "Serv E (rs @ Cancelled # rs') = (True, snd (Serv E rs))"
  by (induction E rs rule: Serv.induct) (auto split: prod.splits)

lemma Serv_append: "Cancelled \<notin> set rs \<Longrightarrow> snd (Serv E (rs @ rs')) = snd (Serv E rs) @ snd (Serv E rs')"
  by (induction E rs rule: Serv.induct) (auto split: prod.splits)

text \<open>The job a datagram leads to, if any, and where it comes from.\<close>

definition job_of :: "env \<Rightarrow> round \<Rightarrow> dispose_call option" where
  "job_of E r =
     (case r of
        Received addr datagram \<Rightarrow> snd (disposeMessage E proxy_dispose addr (take 8196 datagram))
      | _ \<Rightarrow> None)"

lemma Serv_jobs: "Cancelled \<notin> set rs \<Longrightarrow> snd (Serv E rs) = List.map_filter (job_of E) rs"
  by (induction E rs rule: Serv.induct)
    (auto simp: job_of_def List.map_filter_simps split: prod.splits option.splits)

fun sender :: "dispose_call \<Rightarrow> UDPAddr" where
  "sender (DisposeQuery a t q x) = a"
| "sender (DisposeResponse a t x) = a"
| "sender (DisposeError a t c d) = a"
| "sender (DisposeUnknownMessage a m) = a"

fun handled :: "dispose_call \<Rightarrow> bool" where
  "handled (DisposeQuery a t q x) = True"
| "handled (DisposeResponse a t x) = True"
| "handled c = False"

lemma disposeMessage_call: "disposeMessage E disposer addr data = (r, Some c) \<Longrightarrow> sender c = addr \<and> handled c"
  by (auto simp: disposeMessage_def Let_def split: prod.splits option.splits if_splits)

text \<open>
  Only queries and responses reach a worker: the errors of other nodes and unknown messages are
  never disposed of.
\<close>

lemma Serv_only:
  assumes "c \<in> set (snd (Serv E rs))"
  shows "handled c \<and> (\<exists>datagram. Received (sender c) datagram \<in> set rs \<and>
    snd (disposeMessage E proxy_dispose (sender c) (take 8196 datagram)) = Some c)"
  using assms
proof (induction E rs rule: Serv.induct)
  case (4 E addr datagram rs)
  obtain r job where d: "disposeMessage E proxy_dispose addr (take 8196 datagram) = (r, job)" by fastforce
  show ?case
  proof (cases "job = Some c")
    case True
    then show ?thesis using d disposeMessage_call by fastforce
  next
    case False
    then have "c \<in> set (snd (Serv E rs))" using 4 d by (auto split: prod.splits option.splits)
    then show ?thesis using "4.IH" d by (cases job) auto
  qed
qed auto

end
