(* ===== verification/Dht_Dispatcher.thy ===== *)
theory Dht_Dispatcher
  imports Dht_Krpc
begin

text \<open>
  The transaction dispatcher of \<open>dht/krpc.go\<close>: a map from transaction IDs to boxes, a goroutine per box
  that runs \<open>loop\<close>, and any number of goroutines inside \<open>Remove\<close>, \<open>DisposeResponse\<close> or
  \<open>DisposeError\<close>. The channels have no buffer, so a send meets a receive in one step. The methods of
  a transaction are calls out of the component: they are the labels of the steps, with the answers
  they gave. A transaction keeps its ID.
\<close>

section \<open>Boxes\<close>

text \<open>
  Where the goroutine of a box is: before \<open>OnLaunch\<close> returned, in the \<open>select\<close> of the loop, before
  \<open>rmself\<close>, before \<open>OnFinish\<close> returned, ended.
\<close>

datatype phase = Launching | Waiting | Leaving | Finishing | Finished

record transactionBox =
  box_id :: bytes
  phase :: phase

definition newTransactionBox :: "bytes \<Rightarrow> transactionBox" where
  "newTransactionBox tid = \<lparr>box_id = tid, phase = Launching\<rparr>"

text \<open>
  What a round of the loop waits for, with the answer of \<open>OnTimeout\<close>. After a round that goes on,
  a new timer runs; how long it has run is left out, so it may fire in any round.
\<close>

datatype wake = Alive | TimerFired bool | End

fun loop_round :: "wake \<Rightarrow> phase" where
  "loop_round Alive = Waiting"
| "loop_round (TimerFired again) = (if again then Waiting else Leaving)"
| "loop_round End = Leaving"

text \<open>
  The \<open>select\<close> of \<open>keepAlive\<close> has a default: nothing happens when the loop does not wait. The send of
  \<open>done\<close> has none: it is not possible, and its goroutine waits.
\<close>

definition keepAlive :: "phase \<Rightarrow> phase" where
  "keepAlive p = (if p = Waiting then loop_round Alive else p)"

definition end_box :: "phase \<Rightarrow> phase option" where
  "end_box p = (if p = Waiting then Some (loop_round End) else None)"

section \<open>The dispatcher\<close>

text \<open>What a message carries to its transaction.\<close>

datatype dispose =
    OnResponse UDPAddr "bytes option"
  | OnError UDPAddr int bytes

text \<open>A goroutine inside the dispatcher: it has loaded a box, it asks the transaction, or it is in \<open>done\<close>.\<close>

datatype call = Loaded nat dispose | Asking nat dispose | Ending nat

record dispatcher =
  transactions :: "bytes \<Rightarrow> nat option"
  boxes :: "transactionBox list"
  calls :: "call list"

definition NewTransactionDispatcher :: dispatcher where
  "NewTransactionDispatcher = \<lparr>transactions = (\<lambda>_. None), boxes = [], calls = []\<rparr>"

definition set_phase :: "nat \<Rightarrow> phase \<Rightarrow> dispatcher \<Rightarrow> dispatcher" where
  "set_phase b p d = d\<lparr>boxes := (boxes d)[b := (boxes d ! b)\<lparr>phase := p\<rparr>]\<rparr>"

text \<open>\<open>Add\<close>: \<open>LoadOrStore\<close>, and the goroutine of the new box.\<close>

definition Add :: "bytes \<Rightarrow> dispatcher \<Rightarrow> gerror + dispatcher" where
  "Add tid d =
     (if transactions d tid \<noteq> None then Inl (OtherError ''transation id is already exist'')
      else Inr (d\<lparr>transactions := (transactions d)(tid \<mapsto> length (boxes d)),
                  boxes := boxes d @ [newTransactionBox tid]\<rparr>))"

text \<open>The loads of \<open>Remove\<close> and of the two \<open>Dispose\<close> operations.\<close>

definition Remove :: "bytes \<Rightarrow> dispatcher \<Rightarrow> dispatcher" where
  "Remove tid d =
     (case transactions d tid of
        None \<Rightarrow> d
      | Some b \<Rightarrow> d\<lparr>calls := calls d @ [Ending b]\<rparr>)"

definition DisposeResponse_load :: "UDPAddr \<Rightarrow> bytes \<Rightarrow> bytes option \<Rightarrow> dispatcher \<Rightarrow> dispatcher" where
  "DisposeResponse_load src tid resp d =
     (case transactions d tid of
        None \<Rightarrow> d
      | Some b \<Rightarrow> d\<lparr>calls := calls d @ [Loaded b (OnResponse src resp)]\<rparr>)"

definition DisposeError_load :: "UDPAddr \<Rightarrow> bytes \<Rightarrow> int \<Rightarrow> bytes \<Rightarrow> dispatcher \<Rightarrow> dispatcher" where
  "DisposeError_load src tid code desc d =
     (case transactions d tid of
        None \<Rightarrow> d
      | Some b \<Rightarrow> d\<lparr>calls := calls d @ [Loaded b (OnError src code desc)]\<rparr>)"

text \<open>\<open>mkRemoveSelf\<close>: whatever box is stored under the ID is deleted.\<close>

definition removeSelf :: "nat \<Rightarrow> dispatcher \<Rightarrow> dispatcher" where
  "removeSelf b d = d\<lparr>transactions := (transactions d)(box_id (boxes d ! b) := None)\<rparr>"

section \<open>Steps\<close>

text \<open>The calls of a transaction's methods, by the index of its box, and the result of \<open>Add\<close>.\<close>

datatype event =
    Added bytes bool
  | Launched nat
  | Answered nat dispose bool
  | TimedOut nat bool
  | Ended nat
  | Removed bytes
  | OnFinished nat

abbreviation phase_of :: "dispatcher \<Rightarrow> nat \<Rightarrow> phase" where
  "phase_of d b \<equiv> phase (boxes d ! b)"

definition set_call :: "nat \<Rightarrow> call \<Rightarrow> dispatcher \<Rightarrow> dispatcher" where
  "set_call i c d = d\<lparr>calls := (calls d)[i := c]\<rparr>"

definition end_call :: "nat \<Rightarrow> dispatcher \<Rightarrow> dispatcher" where
  "end_call i d = d\<lparr>calls := take i (calls d) @ drop (Suc i) (calls d)\<rparr>"

inductive step :: "dispatcher \<Rightarrow> event list \<Rightarrow> dispatcher \<Rightarrow> bool" where
  add: "Add tid d = Inr d' \<Longrightarrow> step d [Added tid True] d'"
| add_error: "Add tid d = Inl e \<Longrightarrow> step d [Added tid False] d"
| remove: "step d [] (Remove tid d)"
| response: "step d [] (DisposeResponse_load src tid resp d)"
| error: "step d [] (DisposeError_load src tid code desc d)"
| keep: "i < length (calls d) \<Longrightarrow> calls d ! i = Loaded b m \<Longrightarrow>
    step d [] (set_call i (Asking b m) (set_phase b (keepAlive (phase_of d b)) d))"
| answer: "i < length (calls d) \<Longrightarrow> calls d ! i = Asking b m \<Longrightarrow>
    step d [Answered b m r] (if r then end_call i d else set_call i (Ending b) d)"
| ending: "i < length (calls d) \<Longrightarrow> calls d ! i = Ending b \<Longrightarrow> end_box (phase_of d b) = Some p \<Longrightarrow>
    step d [Ended b] (end_call i (set_phase b p d))"
| launch: "b < length (boxes d) \<Longrightarrow> phase_of d b = Launching \<Longrightarrow> step d [Launched b] (set_phase b Waiting d)"
| timeout: "b < length (boxes d) \<Longrightarrow> phase_of d b = Waiting \<Longrightarrow>
    step d [TimedOut b r] (set_phase b (loop_round (TimerFired r)) d)"
| rmself: "b < length (boxes d) \<Longrightarrow> phase_of d b = Leaving \<Longrightarrow>
    step d [Removed (box_id (boxes d ! b))] (set_phase b Finishing (removeSelf b d))"
| finish: "b < length (boxes d) \<Longrightarrow> phase_of d b = Finishing \<Longrightarrow>
    step d [OnFinished b] (set_phase b Finished d)"

inductive runs :: "dispatcher \<Rightarrow> event list \<Rightarrow> dispatcher \<Rightarrow> bool" where
  refl: "runs d [] d"
| snoc: "runs d tr d1 \<Longrightarrow> step d1 es d2 \<Longrightarrow> runs d (tr @ es) d2"

lemmas dispatcher_defs = Add_def Remove_def DisposeResponse_load_def DisposeError_load_def removeSelf_def
  set_phase_def set_call_def end_call_def keepAlive_def end_box_def

lemma runs_trans: "runs d2 es d3 \<Longrightarrow> runs d1 tr d2 \<Longrightarrow> runs d1 (tr @ es) d3"
proof (induction rule: runs.induct)
  case (snoc d es d1 es' d2)
  then show ?case by (metis runs.snoc append.assoc)
qed simp

lemma runs_step: "step d es d' \<Longrightarrow> runs d es d'"
  using runs.snoc [OF runs.refl] by force

section \<open>The map and the boxes\<close>

text \<open>A box is active until it has removed itself. The map holds the active boxes under their IDs.\<close>

definition active :: "phase \<Rightarrow> bool" where
  "active p \<longleftrightarrow> p \<in> {Launching, Waiting, Leaving}"

definition registered :: "dispatcher \<Rightarrow> bool" where
  "registered d \<longleftrightarrow>
     (\<forall>tid b. transactions d tid = Some b \<longleftrightarrow>
        b < length (boxes d) \<and> box_id (boxes d ! b) = tid \<and> active (phase_of d b))"

text \<open>Every call has its box.\<close>

definition box_of :: "call \<Rightarrow> nat" where
  "box_of c = (case c of Loaded b m \<Rightarrow> b | Asking b m \<Rightarrow> b | Ending b \<Rightarrow> b)"

definition calls_ok :: "dispatcher \<Rightarrow> bool" where
  "calls_ok d \<longleftrightarrow> (\<forall>c \<in> set (calls d). box_of c < length (boxes d))"

lemma boxes_set_phase [simp]: "boxes (set_phase b p d) = (boxes d)[b := (boxes d ! b)\<lparr>phase := p\<rparr>]"
  "transactions (set_phase b p d) = transactions d" "calls (set_phase b p d) = calls d"
  by (simp_all add: set_phase_def)

lemma boxes_calls [simp]: "boxes (set_call i c d) = boxes d" "boxes (end_call i d) = boxes d"
  "transactions (set_call i c d) = transactions d" "transactions (end_call i d) = transactions d"
  "calls (set_call i c d) = (calls d)[i := c]" "calls (end_call i d) = take i (calls d) @ drop (Suc i) (calls d)"
  by (simp_all add: set_call_def end_call_def)

lemma active_simps [simp]: "active Launching" "active Waiting" "active Leaving" "\<not> active Finishing" "\<not> active Finished"
  by (simp_all add: active_def)

lemma active_keepAlive [simp]: "active (keepAlive p) = active p"
  by (simp add: keepAlive_def)

lemma update_phase [simp]:
  "box_id (bs[b := (bs ! b)\<lparr>phase := p\<rparr>] ! c) = box_id (bs ! c)"
  "phase (bs[b := (bs ! b)\<lparr>phase := p\<rparr>] ! c) = (if b = c \<and> c < length bs then p else phase (bs ! c))"
  by (cases "b = c"; cases "c < length bs"; simp add: not_less list_update_beyond)+

text \<open>A phase that stays active, or a box that stays out, changes nothing.\<close>

lemma registered_set_phase:
  assumes "registered d" and "b < length (boxes d) \<Longrightarrow> active p = active (phase_of d b)"
  shows "registered (set_phase b p d)"
proof -
  have "active (phase_of (set_phase b p d) c) = active (phase_of d c)" for c
    using assms(2) by simp
  then show ?thesis using assms(1) by (simp add: registered_def del: update_phase(2))
qed

lemma registered_unique:
  assumes "registered d" and "b < length (boxes d)" "active (phase_of d b)" and "c < length (boxes d)" "active (phase_of d c)"
    and "box_id (boxes d ! b) = box_id (boxes d ! c)"
  shows "b = c"
proof -
  have "transactions d (box_id (boxes d ! b)) = Some b" "transactions d (box_id (boxes d ! b)) = Some c"
    using assms by (simp_all add: registered_def)
  then show ?thesis by simp
qed

lemma registered_calls [simp]: "registered (set_call i c d) = registered d" "registered (end_call i d) = registered d"
  "registered (d\<lparr>calls := cs\<rparr>) = registered d"
  by (simp_all add: registered_def)

lemma registered_Add: "registered d \<Longrightarrow> Add tid d = Inr d' \<Longrightarrow> registered d'"
  by (auto simp: registered_def Add_def newTransactionBox_def nth_append less_Suc_eq split: if_splits)

lemma registered_rmself:
  assumes "registered d" and "b < length (boxes d)" and "phase_of d b = Leaving"
  shows "registered (set_phase b Finishing (removeSelf b d))"
  using assms registered_unique [OF assms(1,2)] by (auto simp: registered_def removeSelf_def)

lemma step_registered: "step d es d' \<Longrightarrow> registered d \<Longrightarrow> registered d'"
proof (induction rule: step.induct)
  case (add tid d d')
  then show ?case using registered_Add by blast
next
  case (rmself b d)
  then show ?case by (simp add: registered_rmself)
qed (auto simp: Remove_def DisposeResponse_load_def DisposeError_load_def end_box_def
    intro: registered_set_phase split: option.splits if_splits)

lemma runs_registered: "runs d tr d' \<Longrightarrow> registered d \<Longrightarrow> registered d'"
  by (induction rule: runs.induct) (auto intro: step_registered)

lemma registered_new [simp]: "registered NewTransactionDispatcher"
  by (simp add: registered_def NewTransactionDispatcher_def)

section \<open>Every call has its box\<close>

lemma set_end_call: "set (calls (end_call i d)) \<subseteq> set (calls d)"
  by (auto dest: in_set_takeD in_set_dropD)

lemma calls_ok_new [simp]: "calls_ok NewTransactionDispatcher"
  by (simp add: calls_ok_def NewTransactionDispatcher_def)

lemma calls_ok_set_phase [simp]: "calls_ok (set_phase b p d) = calls_ok d"
  by (simp add: calls_ok_def)

lemma calls_ok_end_call: "calls_ok d \<Longrightarrow> calls_ok (end_call i d)"
  using set_end_call [of i d] by (auto simp: calls_ok_def)

lemma calls_ok_nth: "calls_ok d \<Longrightarrow> i < length (calls d) \<Longrightarrow> calls d ! i = c \<Longrightarrow> box_of c < length (boxes d)"
  by (auto simp: calls_ok_def)

lemma calls_ok_set_call:
  "calls_ok d \<Longrightarrow> box_of c < length (boxes d) \<Longrightarrow> calls_ok (set_call i c d)"
  by (auto simp: calls_ok_def dest: set_update_subset_insert [THEN subsetD])

lemma box_of_simps [simp]: "box_of (Loaded b m) = b" "box_of (Asking b m) = b" "box_of (Ending b) = b"
  by (simp_all add: box_of_def)

lemma step_calls_ok: "step d es d' \<Longrightarrow> registered d \<Longrightarrow> calls_ok d \<Longrightarrow> calls_ok d'"
proof (induction rule: step.induct)
  case (keep i d b m)
  then show ?case using calls_ok_nth [OF keep.prems(2) keep.hyps] by (simp add: calls_ok_set_call)
next
  case (answer i d b m r)
  then show ?case using calls_ok_nth [OF answer.prems(2) answer.hyps] by (simp add: calls_ok_set_call calls_ok_end_call)
qed (auto simp: calls_ok_end_call, auto simp: Add_def Remove_def DisposeResponse_load_def DisposeError_load_def removeSelf_def
    calls_ok_def registered_def less_SucI split: option.splits if_splits)

lemma runs_calls_ok: "runs d tr d' \<Longrightarrow> registered d \<Longrightarrow> calls_ok d \<Longrightarrow> calls_ok d'"
  by (induction rule: runs.induct) (auto intro: step_calls_ok dest: runs_registered)

section \<open>The life of a box\<close>

text \<open>What the goroutine of a box does, in the order it does it.\<close>

fun of_loop :: "nat \<Rightarrow> event \<Rightarrow> bool" where
  "of_loop b (Launched c) = (c = b)"
| "of_loop b (TimedOut c r) = (c = b)"
| "of_loop b (Ended c) = (c = b)"
| "of_loop b (OnFinished c) = (c = b)"
| "of_loop b e = False"

abbreviation history :: "nat \<Rightarrow> event list \<Rightarrow> event list" where
  "history b \<equiv> filter (of_loop b)"

text \<open>
  \<open>OnLaunch\<close> once and first, then any number of \<open>OnTimeout\<close> that want to go on, one reason to stop, and
  \<open>OnFinish\<close> once and last.
\<close>

definition lifecycle :: "nat \<Rightarrow> phase \<Rightarrow> event list \<Rightarrow> bool" where
  "lifecycle b p h \<longleftrightarrow>
     (case p of
        Launching \<Rightarrow> h = []
      | Waiting \<Rightarrow> (\<exists>n. h = Launched b # replicate n (TimedOut b True))
      | Finished \<Rightarrow>
          (\<exists>n e. e \<in> {TimedOut b False, Ended b} \<and> h = Launched b # replicate n (TimedOut b True) @ [e, OnFinished b])
      | _ \<Rightarrow> (\<exists>n e. e \<in> {TimedOut b False, Ended b} \<and> h = Launched b # replicate n (TimedOut b True) @ [e]))"

definition lived :: "event list \<Rightarrow> dispatcher \<Rightarrow> bool" where
  "lived tr d \<longleftrightarrow>
     (\<forall>b. if b < length (boxes d) then lifecycle b (phase_of d b) (history b tr) else history b tr = [])"

lemma lived_upd:
  assumes "lived tr d" and "length (boxes d') = length (boxes d)"
    and "\<And>c. c < length (boxes d) \<Longrightarrow> c \<noteq> b \<Longrightarrow> phase_of d' c = phase_of d c"
    and "\<forall>c. c \<noteq> b \<longrightarrow> history c es = []" and "b < length (boxes d)"
    and "lifecycle b (phase_of d b) (history b tr) \<Longrightarrow> lifecycle b (phase_of d' b) (history b tr @ history b es)"
  shows "lived (tr @ es) d'"
  unfolding lived_def
proof
  fix c
  show "if c < length (boxes d') then lifecycle c (phase_of d' c) (history c (tr @ es)) else history c (tr @ es) = []"
    using assms by (cases "c = b") (auto simp: lived_def)
qed

lemma lifecycle_step:
  "lifecycle b Launching h \<Longrightarrow> lifecycle b Waiting (h @ [Launched b])"
  "lifecycle b Waiting h \<Longrightarrow> lifecycle b (loop_round (TimerFired r)) (h @ [TimedOut b r])"
  "lifecycle b Waiting h \<Longrightarrow> lifecycle b Leaving (h @ [Ended b])"
  "lifecycle b Leaving h \<Longrightarrow> lifecycle b Finishing h"
  "lifecycle b Finishing h \<Longrightarrow> lifecycle b Finished (h @ [OnFinished b])"
  by (auto simp: lifecycle_def replicate_append_same simp flip: replicate_Suc)

lemma lived_same: "lived tr d \<Longrightarrow> boxes d' = boxes d \<Longrightarrow> \<forall>b. history b es = [] \<Longrightarrow> lived (tr @ es) d'"
  by (simp add: lived_def)

lemma lived_calls [simp]: "lived tr (d\<lparr>calls := cs\<rparr>) = lived tr d"
  by (simp add: lived_def)

lemma step_lived: "step d es d' \<Longrightarrow> calls_ok d \<Longrightarrow> lived tr d \<Longrightarrow> lived (tr @ es) d'"
proof (induction rule: step.induct)
  case (add tid d d')
  have fresh: "history (length (boxes d)) tr = []"
    using add.prems(2) unfolding lived_def by (metis less_irrefl)
  show ?case using add
    by (auto simp: fresh lived_def Add_def newTransactionBox_def lifecycle_def [of _ Launching] nth_append less_Suc_eq split: if_splits)
next
  case (keep i d b m)
  then show ?case by (intro lived_upd [of tr d _ b]) (auto simp: keepAlive_def dest: calls_ok_nth)
next
  case (ending i d b p)
  then show ?case
    by (intro lived_upd [of tr d _ b]) (auto simp: end_box_def lifecycle_step dest: calls_ok_nth split: if_splits)
next
  case (launch b d)
  then show ?case by (intro lived_upd [of tr d _ b]) (simp_all add: lifecycle_step)
next
  case (timeout b d r)
  then show ?case using lifecycle_step(2) by (intro lived_upd [of tr d _ b]) simp_all
next
  case (rmself b d)
  then show ?case by (intro lived_upd [of tr d _ b]) (simp_all add: removeSelf_def lifecycle_step)
next
  case (finish b d)
  then show ?case by (intro lived_upd [of tr d _ b]) (simp_all add: lifecycle_step)
qed (auto intro!: lived_same simp: Remove_def DisposeResponse_load_def DisposeError_load_def split: option.split)

lemma lived_new: "lived [] NewTransactionDispatcher"
  by (simp add: lived_def NewTransactionDispatcher_def)

lemma runs_lived: "runs d tr d' \<Longrightarrow> registered d \<Longrightarrow> calls_ok d \<Longrightarrow> lived tr0 d \<Longrightarrow> lived (tr0 @ tr) d'"
proof (induction rule: runs.induct)
  case (snoc d tr d1 es d2)
  then show ?case using step_lived [OF snoc.hyps(2)] runs_calls_ok by force
qed simp

section \<open>Ending\<close>

text \<open>
  A box that waits accepts the end: it then removes itself, its ID is free again, and \<open>OnFinish\<close> runs.
\<close>

lemma end_runs:
  assumes "b < length (boxes d)" and "phase_of d b = Waiting" and "Ending b \<in> set (calls d)"
  shows "\<exists>d'. runs d [Ended b, Removed (box_id (boxes d ! b)), OnFinished b] d' \<and>
    phase_of d' b = Finished \<and> transactions d' (box_id (boxes d ! b)) = None"
proof -
  obtain i where i: "i < length (calls d)" "calls d ! i = Ending b" using assms(3) by (auto simp: in_set_conv_nth)
  define d1 where "d1 = end_call i (set_phase b Leaving d)"
  define d2 where "d2 = set_phase b Finishing (removeSelf b d1)"
  define d3 where "d3 = set_phase b Finished d2"
  have 1: "step d [Ended b] d1"
    unfolding d1_def using i assms(2) by (intro step.ending) (simp_all add: end_box_def)
  have 2: "step d1 [Removed (box_id (boxes d ! b))] d2"
    using step.rmself [of b d1] assms(1) by (simp add: d1_def d2_def)
  have 3: "step d2 [OnFinished b] d3"
    unfolding d3_def using assms(1) by (intro step.finish) (simp_all add: d2_def d1_def removeSelf_def)
  have "runs d [Ended b, Removed (box_id (boxes d ! b)), OnFinished b] d3"
    using runs_trans [OF runs_trans [OF runs_step [OF 3] runs_step [OF 2]] runs_step [OF 1]] by simp
  moreover have "phase_of d3 b = Finished" "transactions d3 (box_id (boxes d ! b)) = None"
    using assms(1) by (simp_all add: d3_def d2_def d1_def removeSelf_def)
  ultimately show ?thesis by blast
qed

text \<open>
  A box that has left its loop never receives again, so a goroutine in its \<open>done\<close> stays there: the
  number of those never falls.
\<close>

definition left_loop :: "phase \<Rightarrow> bool" where
  "left_loop p \<longleftrightarrow> p \<in> {Leaving, Finishing, Finished}"

lemma count_end_call:
  assumes "i < length (calls d)" and "calls d ! i \<noteq> c"
  shows "count_list (calls (end_call i d)) c = count_list (calls d) c"
proof -
  have "count_list (calls d) c = count_list (take i (calls d) @ calls d ! i # drop (Suc i) (calls d)) c"
    using assms(1) by (simp flip: id_take_nth_drop)
  then show ?thesis using assms(2) by simp
qed

lemma count_set_call:
  assumes "i < length (calls d)" and "calls d ! i \<noteq> c"
  shows "count_list (calls d) c \<le> count_list (calls (set_call i c' d)) c"
proof -
  have "count_list (calls d) c = count_list (take i (calls d) @ calls d ! i # drop (Suc i) (calls d)) c"
    using assms(1) by (simp flip: id_take_nth_drop)
  then show ?thesis using assms by (simp add: upd_conv_take_nth_drop)
qed

lemma step_stuck:
  "step d es d' \<Longrightarrow> b < length (boxes d) \<Longrightarrow> left_loop (phase_of d b) \<Longrightarrow>
    b < length (boxes d') \<and> left_loop (phase_of d' b) \<and>
    count_list (calls d) (Ending b) \<le> count_list (calls d') (Ending b)"
proof (induction rule: step.induct)
  case (keep i d b' m)
  then show ?case using count_set_call [of i d "Ending b" "Asking b' m"]
    by (auto simp: keepAlive_def left_loop_def)
next
  case (answer i d b' m r)
  then show ?case using count_set_call [of i d "Ending b" "Ending b'"] count_end_call [of i d "Ending b"] by auto
next
  case (ending i d b' p)
  then have "b \<noteq> b'" by (auto simp: end_box_def left_loop_def split: if_splits)
  then show ?case using ending count_end_call [of i "set_phase b' p d" "Ending b"] by simp
qed (auto simp: Add_def Remove_def DisposeResponse_load_def DisposeError_load_def removeSelf_def left_loop_def nth_append
    split: option.split if_splits)

lemma runs_stuck:
  "runs d tr d' \<Longrightarrow> b < length (boxes d) \<Longrightarrow> left_loop (phase_of d b) \<Longrightarrow>
    b < length (boxes d') \<and> left_loop (phase_of d' b) \<and>
    count_list (calls d) (Ending b) \<le> count_list (calls d') (Ending b)"
proof (induction rule: runs.induct)
  case (snoc d tr d1 es d2)
  then show ?case using step_stuck [OF snoc.hyps(2)] by fastforce
qed simp

end
