(* ===== verification/Dht_Crawler.thy ===== *)
theory Dht_Crawler
  imports Dht_Bodies Dht_Host Dht_Dispatcher Go_Net
begin

text \<open>
  \<open>dht/crawler.go\<close>: the filter of the nodes already met, the transaction that answers the queries of
  other nodes and asks them for more, and the disposer that ties it to the host. What the crawler does
  to the outside is a list of effects, in order.
\<close>

section \<open>Identifiers\<close>

text \<open>Slicing a string out of range panics.\<close>

definition makeID :: "bytes \<Rightarrow> bytes \<Rightarrow> abort + bytes" where
  "makeID dst i =
     (if length dst = 0 then Inr i
      else if length dst < 15 \<or> length i < 15 then Inl (Panic ''slice bounds out of range'')
      else Inr (take 15 dst @ drop 15 i))"

section \<open>The filter\<close>

text \<open>The bloom filter of \<open>github.com/willf/bloom\<close>, whose operations are parameters.\<close>

record 'f bloom =
  NewWithEstimates :: "nat \<Rightarrow> 'f"
  AddString :: "'f \<Rightarrow> string \<Rightarrow> 'f"
  TestString :: "'f \<Rightarrow> string \<Rightarrow> bool"
  TestAndAddString :: "'f \<Rightarrow> string \<Rightarrow> bool \<times> 'f"
  ClearAll :: "'f \<Rightarrow> 'f"

text \<open>
  What its documentation promises: a key added is in the set and stays there; \<open>TestAndAddString\<close> is
  the test followed by the addition; nothing is in a new or a cleared filter. A key never added may
  test as a member.
\<close>

definition bloom_ok :: "'f bloom \<Rightarrow> bool" where
  "bloom_ok B \<longleftrightarrow>
     (\<forall>f k. TestString B (AddString B f k) k) \<and>
     (\<forall>f k j. TestString B f k \<longrightarrow> TestString B (AddString B f j) k) \<and>
     (\<forall>f k. TestAndAddString B f k = (TestString B f k, AddString B f k)) \<and>
     (\<forall>f k. \<not> TestString B (ClearAll B f) k) \<and>
     (\<forall>n k. \<not> TestString B (NewWithEstimates B n) k)"

record 'f nodeFilter =
  core :: 'f
  amount :: nat
  cap :: nat

definition newNodeFilter :: "'f bloom \<Rightarrow> nat \<Rightarrow> 'f nodeFilter" where
  "newNodeFilter B n = \<lparr>core = NewWithEstimates B n, amount = 0, cap = n\<rparr>"

definition addr_key :: "UDPAddr \<Rightarrow> string" where
  "addr_key a = host_port (IP a) (Port a)"

definition nil_deref :: abort where
  "nil_deref = Panic ''invalid memory address or nil pointer dereference''"

text \<open>
  \<open>AddNode\<close> unlocks right after it has locked, so its body runs without the lock. Its accesses to the
  filter, each of which the others can come between (\<open>Dht_Filter\<close>), are \<open>AddString\<close>,
  \<open>TestAndAddString\<close> and the increment; \<open>AddNode\<close> is the call that nothing comes between.
\<close>

definition AddNode_add :: "'f bloom \<Rightarrow> string \<Rightarrow> 'f nodeFilter \<Rightarrow> 'f nodeFilter" where
  "AddNode_add B key filt = filt\<lparr>core := AddString B (core filt) key\<rparr>"

definition AddNode_test :: "'f bloom \<Rightarrow> string \<Rightarrow> 'f nodeFilter \<Rightarrow> bool \<times> 'f nodeFilter" where
  "AddNode_test B key filt =
     (case TestAndAddString B (core filt) key of (present, c) \<Rightarrow> (present, filt\<lparr>core := c\<rparr>))"

definition AddNode :: "'f bloom \<Rightarrow> Node \<Rightarrow> 'f nodeFilter \<Rightarrow> (abort + bool) \<times> 'f nodeFilter" where
  "AddNode B nd filt =
     (case Addr nd of
        None \<Rightarrow> (Inl nil_deref, filt)
      | Some a \<Rightarrow>
          (case AddNode_test B (addr_key a) (AddNode_add B (addr_key a) filt) of
             (present, filt1) \<Rightarrow>
               if \<not> present then (Inr False, filt1\<lparr>amount := amount filt1 + 1\<rparr>)
               else (Inr True, filt1)))"

definition Check :: "'f bloom \<Rightarrow> Node option \<Rightarrow> 'f nodeFilter \<Rightarrow> abort + bool" where
  "Check B nd filt =
     (case Option.bind nd Addr of
        None \<Rightarrow> Inl nil_deref
      | Some a \<Rightarrow> Inr (\<not> TestString B (core filt) (addr_key a)))"

definition Reset_core :: "'f bloom \<Rightarrow> 'f nodeFilter \<Rightarrow> 'f nodeFilter" where
  "Reset_core B filt = filt\<lparr>core := ClearAll B (core filt)\<rparr>"

definition Reset_amount :: "'f nodeFilter \<Rightarrow> 'f nodeFilter" where
  "Reset_amount filt = filt\<lparr>amount := 0\<rparr>"

definition Reset :: "'f bloom \<Rightarrow> 'f nodeFilter \<Rightarrow> 'f nodeFilter" where
  "Reset B filt = Reset_amount (Reset_core B filt)"

lemmas filter_defs = AddNode_add_def AddNode_test_def AddNode_def Reset_core_def Reset_amount_def Reset_def

definition IsFull :: "'f nodeFilter \<Rightarrow> bool" where
  "IsFull filt \<longleftrightarrow> amount filt \<ge> cap filt"

section \<open>The transaction\<close>

text \<open>\<open>finish\<close> is whether its channel has been closed.\<close>

record 'f sybilTransaction =
  trans_id :: bytes
  target :: bytes
  filt :: "'f nodeFilter"
  finish :: bool

text \<open>
  What it does: send a message (the result is dropped), report an info hash, start the goroutine of
  \<open>OnLaunch\<close>. The parameters: the random strings, in the order they are drawn.
\<close>

datatype effect =
    Sent "UDPAddr option" Message
  | Crawled bytes bytes int
  | Patrolling

definition newSybilTransaction :: "'f bloom \<Rightarrow> (nat \<Rightarrow> bytes) \<Rightarrow> (nat \<Rightarrow> bytes) \<Rightarrow> bytes \<Rightarrow> 'f sybilTransaction" where
  "newSybilTransaction B rand1 rand2 tid =
     \<lparr>trans_id = RandomString rand1 2, target = RandomString rand2 20,
      filt = newNodeFilter B (8 * 1024 * 1024), finish = False\<rparr>"

definition changeTarget :: "(nat \<Rightarrow> bytes) \<Rightarrow> 'f sybilTransaction \<Rightarrow> 'f sybilTransaction" where
  "changeTarget rand t = t\<lparr>target := RandomString rand 20\<rparr>"

text \<open>\<open>own\<close> is the node ID of the handle.\<close>

fun findTargetNode :: "env \<Rightarrow> bytes \<Rightarrow> bytes \<Rightarrow> bytes \<Rightarrow> Node list \<Rightarrow> abort option \<times> effect list" where
  "findTargetNode E own tid tgt [] = (None, [])"
| "findTargetNode E own tid tgt (nd # nds) =
     (case makeID (ID nd) own of
        Inl e \<Rightarrow> (Some e, [])
      | Inr i \<Rightarrow>
          (case MakeQuery E tid (Some (TPtr FindNodeArgs, VPtr (Some (VStruct [VString i, VString tgt])))) of
             Inl (Err e) \<Rightarrow> findTargetNode E own tid tgt nds
           | Inl a \<Rightarrow> (Some a, [])
           | Inr msg \<Rightarrow>
               (case findTargetNode E own tid tgt nds of (r, es) \<Rightarrow> (r, Sent (Addr nd) msg # es))))"

text \<open>The bootstrap nodes that resolve.\<close>

definition boot :: "env \<Rightarrow> (string \<Rightarrow> UDPAddr option) \<Rightarrow> bytes \<Rightarrow> string list \<Rightarrow> 'f sybilTransaction \<Rightarrow>
    abort option \<times> effect list" where
  "boot E resolve own bootstrap t =
     findTargetNode E own (trans_id t) (target t)
       (map (\<lambda>a. \<lparr>Addr = Some a, ID = []\<rparr>) (List.map_filter resolve bootstrap))"

definition defaultBootstrap :: "string list" where
  "defaultBootstrap = [''router.bittorrent.com:6881'', ''router.utorrent.com:6881'', ''dht.transmissionbt.com:6881'']"

definition sybil_OnLaunch :: "env \<Rightarrow> (string \<Rightarrow> UDPAddr option) \<Rightarrow> bytes \<Rightarrow> 'f sybilTransaction \<Rightarrow>
    abort option \<times> effect list" where
  "sybil_OnLaunch E resolve own t =
     (case boot E resolve own defaultBootstrap t of
        (Some a, es) \<Rightarrow> (Some a, es)
      | (None, es) \<Rightarrow> (None, es @ [Patrolling]))"

text \<open>What the goroutine does every minute until \<open>finish\<close> is closed.\<close>

definition patrol :: "'f bloom \<Rightarrow> (nat \<Rightarrow> bytes) \<Rightarrow> 'f sybilTransaction \<Rightarrow> 'f sybilTransaction" where
  "patrol B rand t =
     (if IsFull (filt t) then (let t1 = changeTarget rand t in t1\<lparr>filt := Reset B (filt t1)\<rparr>) else t)"

definition sybil_OnError :: "'f sybilTransaction \<Rightarrow> bool \<times> 'f sybilTransaction" where
  "sybil_OnError t = (True, t)"

text \<open>The loop of \<open>OnResponse\<close>, over a slice of pointers.\<close>

fun ask_nodes :: "env \<Rightarrow> 'f bloom \<Rightarrow> bytes \<Rightarrow> bytes \<Rightarrow> 'f sybilTransaction \<Rightarrow> Node option list \<Rightarrow>
    abort option \<times> effect list" where
  "ask_nodes E B own tgt t [] = (None, [])"
| "ask_nodes E B own tgt t (nd # nds) =
     (case Check B nd (filt t) of
        Inl e \<Rightarrow> (Some e, [])
      | Inr False \<Rightarrow> ask_nodes E B own tgt t nds
      | Inr True \<Rightarrow>
          (case findTargetNode E own (trans_id t) tgt [the nd] of
             (Some a, es) \<Rightarrow> (Some a, es)
           | (None, es) \<Rightarrow> (case ask_nodes E B own tgt t nds of (r, es') \<Rightarrow> (r, es @ es'))))"

text \<open>
  An error makes it return before anything happened; \<open>Inl\<close> otherwise is a panic. A nil \<open>RawMessage\<close>
  is no bytes.
\<close>

definition raw_bytes :: "bytes option \<Rightarrow> bytes" where
  "raw_bytes m = (case m of None \<Rightarrow> [] | Some b \<Rightarrow> b)"

definition sybil_OnResponse :: "env \<Rightarrow> 'f bloom \<Rightarrow> bytes \<Rightarrow> UDPAddr \<Rightarrow> bytes option \<Rightarrow> 'f sybilTransaction \<Rightarrow>
    (abort + bool) \<times> 'f sybilTransaction \<times> effect list" where
  "sybil_OnResponse E B own src resp t =
     (case unmarshal_var E (raw_bytes resp) Response (zero Response) of
        (Some (Err e), v) \<Rightarrow> (Inr True, t, [])
      | (Some a, v) \<Rightarrow> (Inl a, t, [])
      | (None, v) \<Rightarrow>
          (case v of
             VStruct [VString i, VPtr (Some nodes), VString tok, VSlice vals] \<Rightarrow>
               (let t1 = t\<lparr>filt := snd (AddNode B \<lparr>Addr = Some src, ID = i\<rparr> (filt t))\<rparr> in
                case ask_nodes E B own (target t1) t1 (nodes_of nodes) of
                  (Some a, es) \<Rightarrow> (Inl a, t1, es)
                | (None, es) \<Rightarrow> (Inr True, t1, es))
           | _ \<Rightarrow> (Inr True, t, [])))"

text \<open>
  The cases of \<open>OnQuery\<close>: how one ends (\<open>Returned\<close>: the function returned there; \<open>Fell\<close>: it went on
  with the node's ID; or a panic) and its effects. \<open>crawl\<close> is whether there is a callback, whose call
  is deferred to the end of the function, panics included.
\<close>

datatype query_end = Returned | Fell bytes | Died abort

definition respond :: "env \<Rightarrow> bytes \<Rightarrow> UDPAddr \<Rightarrow> bytes \<Rightarrow> bytes \<Rightarrow> (bytes \<Rightarrow> goval) \<Rightarrow> query_end \<times> effect list" where
  "respond E own src tid i body =
     (case makeID i own of
        Inl a \<Rightarrow> (Died a, [])
      | Inr k \<Rightarrow>
          (case MakeResponse E tid (Some (TPtr Response, VPtr (Some (body k)))) of
             Inl (Err e) \<Rightarrow> (Returned, [])
           | Inl a \<Rightarrow> (Died a, [])
           | Inr r \<Rightarrow> (Fell i, [Sent (Some src) r])))"

definition query_case :: "env \<Rightarrow> (nat \<Rightarrow> bytes) \<Rightarrow> bytes \<Rightarrow> bool \<Rightarrow> UDPAddr \<Rightarrow> bytes \<Rightarrow> bytes \<Rightarrow> bytes \<Rightarrow>
    (query_end \<times> effect list) \<times> effect list" where
  "query_case E rand own crawl src tid q args =
     (let read = (\<lambda>T k. case unmarshal_var E args T (zero T) of
                    (Some (Err e), v) \<Rightarrow> ((Returned, []), [])
                  | (Some a, v) \<Rightarrow> ((Died a, []), [])
                  | (None, v) \<Rightarrow> k (case v of VStruct vs \<Rightarrow> vs | _ \<Rightarrow> []))
      in
      if q = ''ping'' then
        read PingArgs (\<lambda>vs. case vs of
            [VString i] \<Rightarrow> (respond E own src tid i (\<lambda>k. response_val k None []), [])
          | _ \<Rightarrow> ((Returned, []), []))
      else if q = ''get_peers'' then
        read GetPeersArgs (\<lambda>vs. case vs of
            [VString i, VString ih] \<Rightarrow>
              (respond E own src tid i (\<lambda>k. response_val k (Some None) (RandomString rand 20)), [])
          | _ \<Rightarrow> ((Returned, []), []))
      else if q = ''announce_peer'' then
        read AnnouncePeerArgs (\<lambda>vs. case vs of
            [VString i, VString ih, VInt port, VString tok] \<Rightarrow>
              (respond E own src tid i (\<lambda>k. response_val k None []), if crawl then [Crawled ih (IP src) port] else [])
          | _ \<Rightarrow> ((Returned, []), []))
      else ((Fell [], []), []))"

definition OnQuery :: "env \<Rightarrow> 'f bloom \<Rightarrow> (nat \<Rightarrow> bytes) \<Rightarrow> bytes \<Rightarrow> bool \<Rightarrow> UDPAddr \<Rightarrow> bytes \<Rightarrow> bytes \<Rightarrow> bytes option \<Rightarrow>
    'f sybilTransaction \<Rightarrow> abort option \<times> effect list" where
  "OnQuery E B rand own crawl src tid q args t =
     (case query_case E rand own crawl src tid q (raw_bytes args) of
        ((end, es), deferred) \<Rightarrow>
          (case end of
             Returned \<Rightarrow> (None, es @ deferred)
           | Died a \<Rightarrow> (Some a, es @ deferred)
           | Fell i \<Rightarrow>
               (let nd = \<lparr>Addr = Some src, ID = i\<rparr> in
                case Check B (Some nd) (filt t) of
                  Inl a \<Rightarrow> (Some a, es @ deferred)
                | Inr False \<Rightarrow> (None, es @ deferred)
                | Inr True \<Rightarrow>
                    (case findTargetNode E own (trans_id t) (target t) [nd] of
                       (r, es') \<Rightarrow> (r, es @ es' @ deferred)))))"

definition OnTimeout :: "env \<Rightarrow> 'f bloom \<Rightarrow> (nat \<Rightarrow> bytes) \<Rightarrow> (string \<Rightarrow> UDPAddr option) \<Rightarrow> bytes \<Rightarrow> 'f sybilTransaction \<Rightarrow>
    (abort + bool) \<times> 'f sybilTransaction \<times> effect list" where
  "OnTimeout E B rand resolve own t =
     (let t1 = changeTarget rand t; t2 = t1\<lparr>filt := Reset B (filt t1)\<rparr> in
      case boot E resolve own defaultBootstrap t2 of
        (Some a, es) \<Rightarrow> (Inl a, t2, es)
      | (None, es) \<Rightarrow> (Inr True, t2, es))"

text \<open>Closing a channel twice panics.\<close>

definition sybil_OnFinish :: "'f sybilTransaction \<Rightarrow> abort option \<times> 'f sybilTransaction" where
  "sybil_OnFinish t =
     (if finish t then (Some (Panic ''close of closed channel''), t) else (None, t\<lparr>finish := True\<rparr>))"

section \<open>The crawler\<close>

record SybilCrawler =
  host :: string
  nodeID :: bytes
  crawler_workers :: int

definition NewSybilCrawler :: "(nat \<Rightarrow> bytes) \<Rightarrow> string \<Rightarrow> SybilCrawler" where
  "NewSybilCrawler rand h = \<lparr>host = h, nodeID = RandomString rand 20, crawler_workers = 65535\<rparr>"

definition Crawler_SetMaxWorkers :: "SybilCrawler \<Rightarrow> int \<Rightarrow> SybilCrawler" where
  "Crawler_SetMaxWorkers c n = c\<lparr>crawler_workers := n\<rparr>"

definition Stimulate_sybil :: "'f bloom \<Rightarrow> (nat \<Rightarrow> bytes) \<Rightarrow> 'f sybilTransaction \<Rightarrow> 'f sybilTransaction" where
  "Stimulate_sybil B rand t = (let t1 = changeTarget rand t in t1\<lparr>filt := Reset B (filt t1)\<rparr>)"

text \<open>
  A job of the host, run by \<open>sybilMessageDisposer\<close>: a query goes to the transaction, a response to the
  dispatcher, which finds the transaction by its ID (\<open>registered\<close>: while it holds it), an error or
  an unknown message nowhere. Its \<open>OnResponse\<close> never answers false, so \<open>done\<close> is not called.
\<close>

definition sybil_dispose :: "env \<Rightarrow> 'f bloom \<Rightarrow> (nat \<Rightarrow> bytes) \<Rightarrow> bytes \<Rightarrow> bool \<Rightarrow> dispatcher \<Rightarrow> 'f sybilTransaction \<Rightarrow>
    dispose_call \<Rightarrow> abort option \<times> 'f sybilTransaction \<times> effect list" where
  "sybil_dispose E B rand own crawl disp t c =
     (case c of
        DisposeQuery src tid q args \<Rightarrow>
          (case OnQuery E B rand own crawl src tid q args t of (r, es) \<Rightarrow> (r, t, es))
      | DisposeResponse src tid resp \<Rightarrow>
          (if transactions disp tid = None then (None, t, [])
           else case sybil_OnResponse E B own src resp t of
             (Inl a, t1, es) \<Rightarrow> (Some a, t1, es)
           | (Inr _, t1, es) \<Rightarrow> (None, t1, es))
      | _ \<Rightarrow> (None, t, []))"

text \<open>
  \<open>Crawl\<close> up to serving: the host with its workers, the transaction, and the dispatcher that has
  added it.
\<close>

definition Crawl_start :: "'f bloom \<Rightarrow> (nat \<Rightarrow> bytes) \<Rightarrow> (nat \<Rightarrow> bytes) \<Rightarrow> (nat \<Rightarrow> bytes) \<Rightarrow> gerror + Host \<Rightarrow> SybilCrawler \<Rightarrow>
    gerror + Host \<times> dispatcher \<times> 'f sybilTransaction" where
  "Crawl_start B rand1 rand2 rand3 new_host crawler =
     (case new_host of
        Inl e \<Rightarrow> Inl e
      | Inr h \<Rightarrow>
          (let t = newSybilTransaction B rand2 rand3 (RandomString rand1 2) in
           case Add (trans_id t) NewTransactionDispatcher of
             Inl e \<Rightarrow> Inl e
           | Inr disp \<Rightarrow> Inr (SetMaxWorkers h (crawler_workers crawler), disp, t)))"

end
