(* ===== verification/Dht_Crawl_Spec.thy ===== *)
theory Dht_Crawl_Spec
  imports Dht_Crawler
begin

text \<open>
  What the crawler does with the messages of the protocol: the identifiers it pretends to have, the
  effects of each query and response, from the datagram to the callback, and what its filter keeps.
\<close>

section \<open>Identifiers\<close>

definition sybil_id :: "bytes \<Rightarrow> bytes \<Rightarrow> bytes" where
  "sybil_id dst own = (if dst = [] then own else take 15 dst @ drop 15 own)"

lemma makeID_ok: "length dst = 0 \<or> 15 \<le> length dst \<Longrightarrow> 15 \<le> length own \<Longrightarrow> makeID dst own = Inr (sybil_id dst own)"
  by (auto simp: makeID_def sybil_id_def)

lemma makeID_panics:
  "15 \<le> length own \<Longrightarrow> (\<exists>msg. makeID dst own = Inl (Panic msg)) \<longleftrightarrow> 0 < length dst \<and> length dst < 15"
  by (auto simp: makeID_def)

lemma common_prefix_bound: "n \<le> length xs \<Longrightarrow> n \<le> length ys \<Longrightarrow> take n xs = take n ys \<Longrightarrow> n \<le> common_prefix xs ys"
proof (induction xs ys arbitrary: n rule: common_prefix.induct)
  case (1 x xs y ys)
  then show ?case by (cases n) auto
qed auto

lemma bits_append [simp]: "bits (xs @ ys) = bits xs @ bits ys"
  by (simp add: bits_def)

lemma sybil_prefix:
  assumes "length dst = 20" and "length own = 20"
  shows "length (sybil_id dst own) = 20 \<and> 120 \<le> common_prefix (bits dst) (bits (sybil_id dst own))"
proof -
  have s: "sybil_id dst own = take 15 dst @ drop 15 own" using assms by (auto simp: sybil_id_def)
  have d: "bits dst = bits (take 15 dst) @ bits (drop 15 dst)" by (simp flip: bits_append)
  have "120 \<le> common_prefix (bits dst) (bits (sybil_id dst own))"
    unfolding s d bits_append common_prefix_append_same using assms by simp
  then show ?thesis using assms s by simp
qed

section \<open>The filter\<close>

lemma AddNode_known:
  assumes "bloom_ok B" and "Addr nd = Some a"
  shows "fst (AddNode B nd flt) = Inr True" and "amount (snd (AddNode B nd flt)) = amount flt"
    and "cap (snd (AddNode B nd flt)) = cap flt" and "TestString B (core (snd (AddNode B nd flt))) (addr_key a)"
    and "TestString B (core flt) k \<Longrightarrow> TestString B (core (snd (AddNode B nd flt))) k"
  using assms unfolding bloom_ok_def filter_defs by simp_all

section \<open>Asking for nodes\<close>

definition find_node_msg :: "bytes \<Rightarrow> bytes \<Rightarrow> bytes \<Rightarrow> Message" where
  "find_node_msg tid i tgt =
     message_with tid ''q'' ''find_node'' (Some (BDict [(''id'', BStr i), (''target'', BStr tgt)])) None None"

definition id_ok :: "bytes \<Rightarrow> bool" where
  "id_ok i \<longleftrightarrow> i = [] \<or> 15 \<le> length i"

lemma findTargetNode_sends:
  assumes "15 \<le> length own" and "\<forall>nd \<in> set nds. id_ok (ID nd)"
  shows "findTargetNode btlet_env own tid tgt nds =
    (None, map (\<lambda>nd. Sent (Addr nd) (find_node_msg tid (sybil_id (ID nd) own) tgt)) nds)"
  using assms(2)
proof (induction nds)
  case (Cons nd nds)
  then have "makeID (ID nd) own = Inr (sybil_id (ID nd) own)"
    using assms(1) by (intro makeID_ok) (auto simp: id_ok_def)
  then show ?case using Cons by (simp add: MakeQuery_find_node find_node_msg_def)
qed simp

lemma ask_nodes_sends:
  assumes "15 \<le> length own" and "\<forall>nd \<in> set nds. id_ok (ID nd) \<and> Addr nd \<noteq> None"
  shows "ask_nodes btlet_env B own tgt t (map Some nds) =
    (None, map (\<lambda>nd. Sent (Addr nd) (find_node_msg (trans_id t) (sybil_id (ID nd) own) tgt))
       (filter (\<lambda>nd. Check B (Some nd) (filt t) = Inr True) nds))"
  using assms(2)
proof (induction nds)
  case (Cons nd nds)
  obtain a where "Addr nd = Some a" using Cons.prems by auto
  then have "Check B (Some nd) (filt t) = Inr True \<or> Check B (Some nd) (filt t) = Inr False"
    by (simp add: Check_def)
  then show ?case
    using Cons findTargetNode_sends [OF assms(1), of "[nd]"] by (auto split: prod.split)
qed simp

section \<open>Queries\<close>

definition pong :: "bytes \<Rightarrow> bytes \<Rightarrow> Message" where
  "pong tid i = message_with tid ''r'' [] None (Some (BDict [(''id'', BStr i)])) None"

definition peers_reply :: "bytes \<Rightarrow> bytes \<Rightarrow> bytes \<Rightarrow> Message" where
  "peers_reply tid i tok =
     message_with tid ''r'' [] None (Some (BDict [(''id'', BStr i), (''nodes'', BStr []), (''token'', BStr tok)])) None"

text \<open>After its case a query makes the crawler ask the node back, if it is new.\<close>

definition ask_back :: "'f bloom \<Rightarrow> bytes \<Rightarrow> UDPAddr \<Rightarrow> bytes \<Rightarrow> 'f sybilTransaction \<Rightarrow> effect list" where
  "ask_back B own src i t =
     (if TestString B (core (filt t)) (addr_key src) then []
      else [Sent (Some src) (find_node_msg (trans_id t) (sybil_id i own) (target t))])"

lemma OnQuery_fell:
  assumes "query_case btlet_env rand own crawl src tid q (raw_bytes args) = ((Fell i, es), deferred)"
    and "15 \<le> length own" and "id_ok i"
  shows "OnQuery btlet_env B rand own crawl src tid q args t = (None, es @ ask_back B own src i t @ deferred)"
  using assms findTargetNode_sends [OF assms(2), of "[\<lparr>Addr = Some src, ID = i\<rparr>]"]
  by (auto simp: OnQuery_def Check_def ask_back_def Let_def)

lemma respond_ok:
  assumes "15 \<le> length own" and "id_ok i"
    and "MakeResponse btlet_env tid (Some (TPtr Response, VPtr (Some (body (sybil_id i own))))) = Inr r"
  shows "respond btlet_env own src tid i body = (Fell i, [Sent (Some src) r])"
  using assms makeID_ok [of i own] by (simp add: respond_def id_ok_def)

lemma OnQuery_ping:
  assumes "bval_ok (BDict kvs)" and "map_of kvs ''id'' = Some (BStr i)" and "15 \<le> length own" and "id_ok i"
  shows "OnQuery btlet_env B rand own crawl src tid ''ping'' (Some (benc (BDict kvs))) t =
    (None, Sent (Some src) (pong tid (sybil_id i own)) # ask_back B own src i t)"
proof -
  have "query_case btlet_env rand own crawl src tid ''ping'' (raw_bytes (Some (benc (BDict kvs)))) =
      ((Fell i, [Sent (Some src) (pong tid (sybil_id i own))]), [])"
    using respond_ok [OF assms(3,4) MakeResponse_id]
    by (simp add: query_case_def raw_bytes_def read_ping [OF assms(1,2)] pong_def del: benc.simps)
  from OnQuery_fell [OF this assms(3,4)] show ?thesis by simp
qed

lemma OnQuery_get_peers:
  assumes "bval_ok (BDict kvs)" and "map_of kvs ''id'' = Some (BStr i)" and "map_of kvs ''info_hash'' = Some (BStr ih)"
    and "15 \<le> length own" and "id_ok i" and "RandomString rand 20 \<noteq> []"
  shows "OnQuery btlet_env B rand own crawl src tid ''get_peers'' (Some (benc (BDict kvs))) t =
    (None, Sent (Some src) (peers_reply tid (sybil_id i own) (RandomString rand 20)) # ask_back B own src i t)"
proof -
  have "query_case btlet_env rand own crawl src tid ''get_peers'' (raw_bytes (Some (benc (BDict kvs)))) =
      ((Fell i, [Sent (Some src) (peers_reply tid (sybil_id i own) (RandomString rand 20))]), [])"
    using respond_ok [OF assms(4,5) MakeResponse_token [OF assms(6)]]
    by (simp add: query_case_def raw_bytes_def read_get_peers [OF assms(1-3)] peers_reply_def del: benc.simps)
  from OnQuery_fell [OF this assms(4,5)] show ?thesis by simp
qed

lemma OnQuery_announce:
  assumes "bval_ok (BDict kvs)" and "map_of kvs ''id'' = Some (BStr i)" and "map_of kvs ''info_hash'' = Some (BStr ih)"
    and "map_of kvs ''port'' = Some (BInt p)" and "map_of kvs ''token'' = Some (BStr tok)"
    and "15 \<le> length own" and "id_ok i"
  shows "OnQuery btlet_env B rand own crawl src tid ''announce_peer'' (Some (benc (BDict kvs))) t =
    (None, Sent (Some src) (pong tid (sybil_id i own)) # ask_back B own src i t @
       (if crawl then [Crawled ih (IP src) p] else []))"
proof -
  have "query_case btlet_env rand own crawl src tid ''announce_peer'' (raw_bytes (Some (benc (BDict kvs)))) =
      ((Fell i, [Sent (Some src) (pong tid (sybil_id i own))]), if crawl then [Crawled ih (IP src) p] else [])"
    using respond_ok [OF assms(6,7) MakeResponse_id]
    by (simp add: query_case_def raw_bytes_def read_announce [OF assms(1-5)] pong_def del: benc.simps)
  from OnQuery_fell [OF this assms(6,7)] show ?thesis by (simp only: append.simps)
qed

text \<open>A \<open>find_node\<close>, or a query it does not know, is not answered; the node is asked all the same.\<close>

lemma OnQuery_other:
  assumes "q \<notin> {''ping'', ''get_peers'', ''announce_peer''}" and "15 \<le> length own"
  shows "OnQuery btlet_env B rand own crawl src tid q args t = (None, ask_back B own src [] t)"
proof -
  have "query_case btlet_env rand own crawl src tid q (raw_bytes args) = ((Fell [], []), [])"
    using assms(1) by (simp add: query_case_def Let_def)
  from OnQuery_fell [OF this assms(2)] show ?thesis by (simp add: id_ok_def)
qed

text \<open>An ID of between 1 and 14 bytes makes the handler panic; the callback of an announcement runs all the same.\<close>

lemma OnQuery_short_id:
  assumes "bval_ok (BDict kvs)" and "map_of kvs ''id'' = Some (BStr i)" and "15 \<le> length own" and "\<not> id_ok i"
  shows "OnQuery btlet_env B rand own crawl src tid ''ping'' (Some (benc (BDict kvs))) t =
    (Some (Panic ''slice bounds out of range''), [])"
proof -
  have "makeID i own = Inl (Panic ''slice bounds out of range'')"
    using assms(4) by (simp add: makeID_def id_ok_def)
  then show ?thesis
    by (simp add: OnQuery_def query_case_def raw_bytes_def read_ping [OF assms(1,2)] respond_def del: benc.simps)
qed

section \<open>Responses\<close>

lemma contact_id_ok: "contact_ok c \<Longrightarrow> id_ok (ID (contact_node c)) \<and> Addr (contact_node c) \<noteq> None"
  by (cases "c_ip c") (simp add: contact_ok_def contact_node_def id_ok_def)

lemma OnResponse_contacts:
  assumes "bval_ok (BDict kvs)" and "map_of kvs ''id'' = Some (BStr i)"
    and "map_of kvs ''nodes'' = Some (BStr (concat (map compact cs)))" and "\<forall>c \<in> set cs. contact_ok c"
    and "map_of kvs ''token'' = map_option BStr tok" and "map_of kvs ''values'' = map_option (\<lambda>ss. BList (map BStr ss)) vals"
    and "15 \<le> length own" and "t1 = t\<lparr>filt := snd (AddNode B \<lparr>Addr = Some src, ID = i\<rparr> (filt t))\<rparr>"
  shows "sybil_OnResponse btlet_env B own src (Some (benc (BDict kvs))) t =
    (Inr True, t1, map (\<lambda>nd. Sent (Addr nd) (find_node_msg (trans_id t) (sybil_id (ID nd) own) (target t)))
       (filter (\<lambda>nd. Check B (Some nd) (filt t1) = Inr True) (map contact_node cs)))"
proof -
  obtain vs where v: "unmarshal_var btlet_env (benc (BDict kvs)) Response (zero Response) =
      (None, VStruct [VString i, VPtr (Some (nodes_val (map contact_node cs))),
        VString (case tok of Some s \<Rightarrow> s | None \<Rightarrow> []), VSlice vs])"
    using read_response [OF assms(1-3) unpackNodes_compact [OF assms(4)] assms(5,6)] by blast
  have "ask_nodes btlet_env B own (target t1) t1 (map Some (map contact_node cs)) =
      (None, map (\<lambda>nd. Sent (Addr nd) (find_node_msg (trans_id t1) (sybil_id (ID nd) own) (target t1)))
       (filter (\<lambda>nd. Check B (Some nd) (filt t1) = Inr True) (map contact_node cs)))"
    using assms(4) contact_id_ok by (intro ask_nodes_sends [OF assms(7)]) auto
  then show ?thesis
    using assms(8) by (simp add: sybil_OnResponse_def raw_bytes_def v Let_def del: benc.simps)
qed

section \<open>From the datagram to the callback\<close>

lemma announce_to_callback:
  assumes "bval_ok (BDict kvs)" and "length (benc (BDict kvs)) \<le> 8196"
    and "map_of kvs ''t'' = Some (BStr tid)" "map_of kvs ''y'' = Some (BStr ''q'')"
    "map_of kvs ''q'' = Some (BStr ''announce_peer'')" "map_of kvs ''a'' = Some (BDict akvs)"
    "map_of kvs ''e'' = map_option kerr_bval e"
    and "map_of akvs ''id'' = Some (BStr i)" and "map_of akvs ''info_hash'' = Some (BStr ih)"
    and "map_of akvs ''port'' = Some (BInt p)" and "map_of akvs ''token'' = Some (BStr tok)"
    and "15 \<le> length own" and "id_ok i"
  shows "\<exists>job. job_of btlet_env (Received src (benc (BDict kvs))) = Some job \<and>
    sybil_dispose btlet_env B rand own True disp t job =
      (None, t, Sent (Some src) (pong tid (sybil_id i own)) # ask_back B own src i t @ [Crawled ih (IP src) p])"
proof -
  have q: "map_of kvs ''q'' = (if ''announce_peer'' = ([] :: bytes) then None else Some (BStr ''announce_peer''))"
    using assms(5) by simp
  have a: "bval_ok (BDict akvs)" using bval_ok_entry [OF assms(1,6)] .
  have "disposeMessage btlet_env proxy_dispose src (benc (BDict kvs)) =
      (None, Some (DisposeQuery src tid ''announce_peer'' (Some (benc (BDict akvs)))))"
    using dispose_datagram [OF assms(1,3,4) q assms(6) HOL.refl assms(7), of proxy_dispose src "[]"]
    by (simp add: proxy_dispose_def del: benc.simps)
  then show ?thesis
    using assms(2) OnQuery_announce [OF a assms(8-13), of B rand True src tid t]
    by (simp add: job_of_def sybil_dispose_def del: benc.simps)
qed

section \<open>The life of the transaction\<close>

inductive evolves :: "env \<Rightarrow> 'f bloom \<Rightarrow> bytes \<Rightarrow> 'f sybilTransaction \<Rightarrow> bool" for E B own where
  start: "evolves E B own (newSybilTransaction B rand1 rand2 tid)"
| job: "evolves E B own t \<Longrightarrow> sybil_dispose E B rand own crawl disp t c = (r, t', es) \<Longrightarrow> evolves E B own t'"
| timeout: "evolves E B own t \<Longrightarrow> OnTimeout E B rand resolve own t = (r, t', es) \<Longrightarrow> evolves E B own t'"
| minute: "evolves E B own t \<Longrightarrow> evolves E B own (patrol B rand t)"
| stimulate: "evolves E B own t \<Longrightarrow> evolves E B own (Stimulate_sybil B rand t)"
| finished: "evolves E B own t \<Longrightarrow> sybil_OnFinish t = (r, t') \<Longrightarrow> evolves E B own t'"

lemma sybil_OnResponse_state:
  "sybil_OnResponse E B own src resp t = (r, t', es) \<Longrightarrow>
    t' = t \<or> (\<exists>i. t' = t\<lparr>filt := snd (AddNode B \<lparr>Addr = Some src, ID = i\<rparr> (filt t))\<rparr>)"
  by (auto simp: sybil_OnResponse_def Let_def split: prod.splits option.splits abort.splits goval.splits list.splits)

lemma sybil_dispose_state:
  "sybil_dispose E B rand own crawl disp t c = (r, t', es) \<Longrightarrow>
    t' = t \<or> (\<exists>src i. t' = t\<lparr>filt := snd (AddNode B \<lparr>Addr = Some src, ID = i\<rparr> (filt t))\<rparr>)"
  by (cases c) (auto simp: sybil_dispose_def split: prod.splits sum.splits if_splits dest!: sybil_OnResponse_state)

text \<open>
  The amount of the filter never grows, as a node is added before the test whether it was there: so
  the filter never counts as full, and the minutely reset never happens.
\<close>

lemma evolves_amount:
  assumes "bloom_ok B"
  shows "evolves E B own t \<Longrightarrow> amount (filt t) = 0 \<and> cap (filt t) = 8 * 1024 * 1024"
proof (induction rule: evolves.induct)
  case (job t rand crawl disp c r t' es)
  then show ?case
    using sybil_dispose_state [OF job.hyps(2)] AddNode_known(2,3) [OF assms] by fastforce
qed (auto simp: newSybilTransaction_def newNodeFilter_def OnTimeout_def changeTarget_def filter_defs patrol_def IsFull_def
    Stimulate_sybil_def sybil_OnFinish_def Let_def split: prod.splits option.splits if_splits)

end
