(* ===== verification/Dht_Registry.thy ===== *)
theory Dht_Registry
  imports Dht_Dispatcher
begin

text \<open>
  What the dispatcher promises to those who use it, as an abstract machine over its events: a registry
  of the running transactions. The dispatcher with its goroutines refines it. The phases of a box are
  ordered, and only ever go forward.
\<close>

section \<open>Phases are ordered\<close>

primrec rank :: "phase \<Rightarrow> nat" where
  "rank Launching = 0"
| "rank Waiting = 1"
| "rank Leaving = 2"
| "rank Finishing = 3"
| "rank Finished = 4"

lemma rank_inject [simp]: "rank p = rank q \<longleftrightarrow> p = q"
  by (cases p; cases q) simp_all

instantiation phase :: linorder
begin

definition less_eq_phase :: "phase \<Rightarrow> phase \<Rightarrow> bool" where
  "p \<le> q \<longleftrightarrow> rank p \<le> rank q"

definition less_phase :: "phase \<Rightarrow> phase \<Rightarrow> bool" where
  "p < q \<longleftrightarrow> rank p < rank q"

instance
  by intro_classes (auto simp: less_eq_phase_def less_phase_def)

end

lemma phase_le [simp]: "Waiting \<le> loop_round k" "keepAlive p = p" "Launching \<le> p"
  by (cases k) (simp_all add: keepAlive_def less_eq_phase_def)

lemma phase_rank: "Launching \<le> Waiting" "Leaving \<le> Finishing" "Finishing \<le> Finished"
  by (simp_all add: less_eq_phase_def)

lemma active_order: "active p \<longleftrightarrow> p < Finishing" "left_loop p \<longleftrightarrow> Waiting < p"
  by (cases p; simp add: active_def left_loop_def less_phase_def)+

lemma end_box_forward: "end_box p = Some q \<Longrightarrow> p < q"
  by (auto simp: end_box_def less_phase_def split: if_splits)

lemma set_phase_forward:
  "phase_of d b \<le> p \<Longrightarrow> phase_of d c \<le> phase_of (set_phase b p d) c"
  by auto

lemma step_forward:
  "step d es d' \<Longrightarrow> length (boxes d) \<le> length (boxes d') \<and>
    (\<forall>b < length (boxes d). phase_of d b \<le> phase_of d' b \<and> box_id (boxes d' ! b) = box_id (boxes d ! b))"
proof (induction rule: step.induct)
  case (add tid d d')
  then show ?case by (auto simp: Add_def nth_append split: if_splits)
next
  case (ending i d b p)
  then have "phase_of d b \<le> p" by (simp add: end_box_forward less_imp_le)
  then show ?case by auto
next
  case (timeout b d r)
  then show ?case using phase_le(1) [of "TimerFired r"] by (auto simp del: loop_round.simps)
qed (auto simp: Remove_def DisposeResponse_load_def DisposeError_load_def removeSelf_def phase_rank split: option.splits)

lemma runs_forward:
  "runs d tr d' \<Longrightarrow> b < length (boxes d) \<Longrightarrow> b < length (boxes d') \<and> phase_of d b \<le> phase_of d' b"
proof (induction rule: runs.induct)
  case (snoc d tr d1 es d2)
  then show ?case using step_forward [OF snoc.hyps(2)] by (meson order.trans less_le_trans)
qed simp

section \<open>The registry\<close>

text \<open>The running transactions with the numbers of their instances, and the number of the next.\<close>

record registry =
  running :: "(bytes \<times> nat) set"
  next_instance :: nat

definition new_registry :: registry where
  "new_registry = \<lparr>running = {}, next_instance = 0\<rparr>"

text \<open>
  An addition succeeds exactly when its ID is free. Only a running transaction is launched, times out
  or is ended; one is removed while it runs, and finished when it does no more. An answer may still
  come from one that was removed after the message was loaded.
\<close>

fun allow :: "event \<Rightarrow> registry \<Rightarrow> registry option" where
  "allow (Added tid ok) r =
     (if ok = (tid \<in> fst ` running r) then None
      else Some (if ok then \<lparr>running = insert (tid, next_instance r) (running r), next_instance = Suc (next_instance r)\<rparr> else r))"
| "allow (Launched b) r = (if b \<in> snd ` running r then Some r else None)"
| "allow (TimedOut b again) r = (if b \<in> snd ` running r then Some r else None)"
| "allow (Ended b) r = (if b \<in> snd ` running r then Some r else None)"
| "allow (Removed tid) r =
     (if tid \<in> fst ` running r then Some (r\<lparr>running := {p \<in> running r. fst p \<noteq> tid}\<rparr>) else None)"
| "allow (OnFinished b) r = (if b < next_instance r \<and> b \<notin> snd ` running r then Some r else None)"
| "allow (Answered b m again) r = (if b < next_instance r then Some r else None)"

fun allow_all :: "event list \<Rightarrow> registry \<Rightarrow> registry option" where
  "allow_all [] r = Some r"
| "allow_all (e # es) r = Option.bind (allow e r) (allow_all es)"

lemma allow_all_append: "allow_all (es @ es') r = Option.bind (allow_all es r) (allow_all es')"
  by (induction es arbitrary: r) (simp_all split: bind_split)

definition registry_of :: "dispatcher \<Rightarrow> registry" where
  "registry_of d = \<lparr>running = {(tid, b). transactions d tid = Some b}, next_instance = length (boxes d)\<rparr>"

lemma registry_sel [simp]:
  "tid \<in> fst ` running (registry_of d) \<longleftrightarrow> transactions d tid \<noteq> None"
  "b \<in> snd ` running (registry_of d) \<longleftrightarrow> (\<exists>tid. transactions d tid = Some b)"
  "next_instance (registry_of d) = length (boxes d)"
  by (force simp: registry_of_def)+

lemma registry_of_calls [simp]:
  "registry_of (set_call i c d) = registry_of d" "registry_of (end_call i d) = registry_of d"
  "registry_of (set_phase b p d) = registry_of d" "registry_of (d\<lparr>calls := cs\<rparr>) = registry_of d"
  by (simp_all add: registry_of_def)

lemma registered_running:
  "registered d \<Longrightarrow> b < length (boxes d) \<Longrightarrow> (\<exists>tid. transactions d tid = Some b) = active (phase_of d b)"
  by (auto simp: registered_def)

lemma registry_of_Add: "Add tid d = Inr d' \<Longrightarrow>
    transactions d tid = None \<and> registry_of d' =
      \<lparr>running = insert (tid, length (boxes d)) (running (registry_of d)), next_instance = Suc (length (boxes d))\<rparr>"
  by (auto simp: registry_of_def Add_def split: if_splits)

lemma registry_of_removeSelf:
  "registry_of (removeSelf b d) =
    (registry_of d)\<lparr>running := {p \<in> running (registry_of d). fst p \<noteq> box_id (boxes d ! b)}\<rparr>"
  by (auto simp: registry_of_def removeSelf_def split: if_splits)

text \<open>Every step of the dispatcher is a step of the registry.\<close>

lemma step_allowed:
  assumes "step d es d'" and "registered d" and "calls_ok d"
  shows "allow_all es (registry_of d) = Some (registry_of d')"
  using assms
proof (induction rule: step.induct)
  case (add tid d d')
  then show ?case using registry_of_Add [of tid d d'] by simp
next
  case (add_error tid d e)
  then show ?case by (auto simp: Add_def split: if_splits)
next
  case (answer i d b m r)
  then have "b < length (boxes d)" using calls_ok_nth by fastforce
  then show ?case by simp
next
  case (ending i d b p)
  then have "b < length (boxes d)" using calls_ok_nth by fastforce
  moreover have "phase_of d b = Waiting" using ending.hyps(3) by (simp add: end_box_def split: if_splits)
  ultimately show ?case using registered_running [OF ending.prems(1)] by simp
next
  case (rmself b d)
  then have "transactions d (box_id (boxes d ! b)) = Some b" by (simp add: registered_def)
  then show ?case by (simp add: registry_of_removeSelf)
qed (auto simp: registered_running Remove_def DisposeResponse_load_def DisposeError_load_def split: option.split)

lemma runs_allowed:
  "runs d tr d' \<Longrightarrow> registered d \<Longrightarrow> calls_ok d \<Longrightarrow> allow_all tr (registry_of d) = Some (registry_of d')"
proof (induction rule: runs.induct)
  case (snoc d tr d1 es d2)
  then show ?case
    using step_allowed [OF snoc.hyps(2)] runs_registered [OF snoc.hyps(1)] runs_calls_ok [OF snoc.hyps(1)]
    by (simp add: allow_all_append)
qed simp

lemma registry_of_new [simp]: "registry_of NewTransactionDispatcher = new_registry"
  by (simp add: registry_of_def NewTransactionDispatcher_def new_registry_def)

section \<open>Rules for single steps\<close>

inductive_cases step_AddedE [elim]: "step d [Added tid ok] d'"
inductive_cases step_AnsweredE [elim]: "step d [Answered b m r] d'"
inductive_cases step_EndedE [elim]: "step d [Ended b] d'"
inductive_cases step_LaunchedE [elim]: "step d [Launched b] d'"
inductive_cases step_TimedOutE [elim]: "step d [TimedOut b r] d'"
inductive_cases step_OnFinishedE [elim]: "step d [OnFinished b] d'"

fun_cases loop_round_LeavingE: "loop_round k = Leaving"
  and loop_round_WaitingE: "loop_round k = Waiting"

lemma loop_left: "loop_round k = Leaving \<longleftrightarrow> k = End \<or> k = TimerFired False"
  by (auto elim: loop_round_LeavingE split: if_splits)

lemma step_Added: "step d [Added tid ok] d' \<Longrightarrow> ok = (transactions d tid = None)"
  by (erule step_AddedE) (auto simp: Add_def split: if_splits)

lemma step_OnFinished: "step d [OnFinished b] d' \<Longrightarrow> phase_of d b = Finishing \<and> phase_of d' b = Finished"
  by (erule step_OnFinishedE) simp

end
