(* ===== verification/Dht_System.thy ===== *)
theory Dht_System
  imports Dht_Crawl_Spec Dht_Registry
begin

text \<open>
  The crawler as a whole: the datagrams that arrive, the jobs the host spawns and its workers run, the
  dispatcher with its goroutines, and the one transaction, whose methods are called where the
  dispatcher's steps say so. Methods are run one at a time, in any order the goroutines allow.
\<close>

section \<open>The messages of each method\<close>

definition is_response :: "effect \<Rightarrow> bool" where
  "is_response e = (case e of Sent dst m \<Rightarrow> Y m = ''r'' | _ \<Rightarrow> False)"

text \<open>A \<open>find_node\<close> under the transaction's own ID, to anybody.\<close>

definition asks :: "bytes \<Rightarrow> effect \<Rightarrow> bool" where
  "asks tid e = (case e of Sent dst m \<Rightarrow> Y m = ''q'' \<and> Q m = ''find_node'' \<and> TransactionID m = tid | _ \<Rightarrow> False)"

lemma asks_not_response [simp]: "asks tid e \<Longrightarrow> \<not> is_response e" "asks tid (Crawled ih ip p) = False"
  by (auto simp: asks_def is_response_def split: effect.splits)

lemma find_node_query: "MakeQuery E tid (Some (TPtr FindNodeArgs, v)) = Inr m \<Longrightarrow>
    Y m = ''q'' \<and> Q m = ''find_node'' \<and> TransactionID m = tid"
  by (auto simp: MakeQuery_def query_name_def MakeQueryEx_def FindNodeArgs_def PingArgs_def split: prod.splits option.splits)

lemma findTargetNode_asks:
  "findTargetNode E own tid tgt nds = (r, es) \<Longrightarrow> e \<in> set es \<Longrightarrow> asks tid e"
proof (induction nds arbitrary: r es)
  case (Cons nd nds)
  then show ?case
    using find_node_query by (fastforce simp: asks_def split: sum.splits abort.splits prod.splits)
qed simp

lemma ask_nodes_asks:
  "ask_nodes E B own tgt t nds = (r, es) \<Longrightarrow> e \<in> set es \<Longrightarrow> asks (trans_id t) e"
proof (induction nds arbitrary: r es)
  case (Cons nd nds)
  then show ?case
    using findTargetNode_asks by (auto simp del: findTargetNode.simps split: sum.splits prod.splits bool.splits option.splits)
qed simp

lemma boot_asks: "boot E resolve own bs t = (r, es) \<Longrightarrow> e \<in> set es \<Longrightarrow> asks (trans_id t) e"
  using findTargetNode_asks by (fastforce simp: boot_def)

lemma OnResponse_asks:
  "sybil_OnResponse E B own src resp t = (r, t', es) \<Longrightarrow> e \<in> set es \<Longrightarrow> asks (trans_id t) e"
  using ask_nodes_asks
  by (fastforce simp: sybil_OnResponse_def Let_def split: prod.splits option.splits abort.splits goval.splits list.splits)

lemma OnTimeout_asks:
  "OnTimeout E B rand resolve own t = (r, t', es) \<Longrightarrow> e \<in> set es \<Longrightarrow> asks (trans_id t) e"
  by (auto simp: OnTimeout_def Let_def changeTarget_def split: prod.splits option.splits dest: boot_asks)

lemma OnLaunch_asks:
  "sybil_OnLaunch E resolve own t = (r, es) \<Longrightarrow> e \<in> set es \<Longrightarrow> asks (trans_id t) e \<or> e = Patrolling"
  by (auto simp: sybil_OnLaunch_def split: prod.splits option.splits dest: boot_asks)

text \<open>
  A query brings at most one response, to the one who asked and under its transaction ID, then
  questions, and at most one call of the callback, for an \<open>announce_peer\<close>.
\<close>

definition answers :: "UDPAddr \<Rightarrow> bytes \<Rightarrow> effect list \<Rightarrow> bool" where
  "answers src tid es \<longleftrightarrow> es = [] \<or> (\<exists>m. es = [Sent (Some src) m] \<and> Y m = ''r'' \<and> TransactionID m = tid)"

definition reports_peer :: "UDPAddr \<Rightarrow> effect list \<Rightarrow> bool" where
  "reports_peer src es \<longleftrightarrow> es = [] \<or> (\<exists>ih p. es = [Crawled ih (IP src) p])"

lemma answers_simps [simp]: "answers src tid []" "reports_peer src []" "reports_peer src [Crawled ih (IP src) p]"
  by (simp_all add: answers_def reports_peer_def)

lemma respond_answers: "respond E own src tid i body = (en, es) \<Longrightarrow> answers src tid es"
  by (auto simp: respond_def answers_def MakeResponse_def split: sum.splits abort.splits prod.splits option.splits)

lemma query_case_answers:
  "query_case E rand own crawl src tid q args = ((en, es), ds) \<Longrightarrow>
    answers src tid es \<and> (es \<noteq> [] \<longrightarrow> q \<in> {''ping'', ''get_peers'', ''announce_peer''}) \<and>
    reports_peer src ds \<and> (ds \<noteq> [] \<longrightarrow> q = ''announce_peer'')"
  unfolding query_case_def Let_def
  by (auto split: if_splits prod.splits option.splits abort.splits goval.splits list.splits dest: respond_answers)

lemma OnQuery_answers:
  assumes "OnQuery E B rand own crawl src tid q args t = (r, es)"
  obtains rs qs ds where "es = rs @ qs @ ds" "answers src tid rs" "\<forall>e \<in> set qs. asks (trans_id t) e" "reports_peer src ds"
    "rs \<noteq> [] \<Longrightarrow> q \<in> {''ping'', ''get_peers'', ''announce_peer''}" "ds \<noteq> [] \<Longrightarrow> q = ''announce_peer''"
proof -
  obtain en rs ds where c: "query_case E rand own crawl src tid q (raw_bytes args) = ((en, rs), ds)"
    by (metis surj_pair)
  note a = query_case_answers [OF c]
  show ?thesis
  proof (cases en)
    case (Fell i)
    then consider "es = rs @ ds" | r' qs where
        "findTargetNode E own (trans_id t) (target t) [\<lparr>Addr = Some src, ID = i\<rparr>] = (r', qs)" "es = rs @ qs @ ds"
      using assms c by (auto simp: OnQuery_def Let_def simp del: findTargetNode.simps split: sum.splits bool.splits prod.splits)
    then show ?thesis
    proof cases
      case 1
      then show ?thesis using that [of rs "[]" ds] a by auto
    next
      case (2 r' qs)
      then show ?thesis using that [of rs qs ds] a findTargetNode_asks [OF 2(1)] by auto
    qed
  qed (use assms c a that [of rs "[]" ds] in \<open>auto simp: OnQuery_def\<close>)
qed

section \<open>The whole\<close>

record 'f world =
  wdisp :: dispatcher
  sybil :: "'f sybilTransaction"
  jobs :: "argv list"

text \<open>What can be seen of it: the datagrams that arrive and the effects.\<close>

datatype observed = Arrived UDPAddr bytes | Did effect

definition drop_job :: "nat \<Rightarrow> 'f world \<Rightarrow> 'f world" where
  "drop_job i w = w\<lparr>jobs := take i (jobs w) @ drop (Suc i) (jobs w)\<rparr>"

text \<open>
  The transaction is box 0 of the dispatcher. A query is answered in the worker; a response is loaded
  by it (\<open>load\<close>), keeps the loop alive (\<open>alive\<close>) and is passed to the transaction (\<open>answer\<close>); a panic
  there ends the worker. \<open>Remove\<close> is what \<open>Crawl\<close> defers to its end.
\<close>

inductive world_step :: "env \<Rightarrow> 'f bloom \<Rightarrow> (string \<Rightarrow> UDPAddr option) \<Rightarrow> bytes \<Rightarrow> 'f world \<Rightarrow> observed list \<Rightarrow> 'f world \<Rightarrow> bool"
  for E B resolve own where
  arrive: "job_of E (Received src datagram) = Some c \<Longrightarrow>
    world_step E B resolve own w [Arrived src datagram] (w\<lparr>jobs := jobs w @ [spawned c]\<rparr>)"
| ignore: "job_of E (Received src datagram) = None \<Longrightarrow> world_step E B resolve own w [Arrived src datagram] w"
| query: "i < length (jobs w) \<Longrightarrow> argv_call (jobs w ! i) = DisposeQuery src tid q args \<Longrightarrow>
    OnQuery E B rand own crawl src tid q args (sybil w) = (r, es) \<Longrightarrow>
    world_step E B resolve own w (map Did es) (drop_job i w)"
| load: "i < length (jobs w) \<Longrightarrow> argv_call (jobs w ! i) = DisposeResponse src tid resp \<Longrightarrow>
    world_step E B resolve own w [] (drop_job i (w\<lparr>wdisp := DisposeResponse_load src tid resp (wdisp w)\<rparr>))"
| alive: "step (wdisp w) [] d \<Longrightarrow> length (calls d) = length (calls (wdisp w)) \<Longrightarrow>
    world_step E B resolve own w [] (w\<lparr>wdisp := d\<rparr>)"
| answer: "step (wdisp w) [Answered 0 (OnResponse src resp) again] d \<Longrightarrow>
    sybil_OnResponse E B own src resp (sybil w) = (Inr again, t, es) \<Longrightarrow>
    world_step E B resolve own w (map Did es) (w\<lparr>wdisp := d, sybil := t\<rparr>)"
| answer_panic: "i < length (calls (wdisp w)) \<Longrightarrow> calls (wdisp w) ! i = Asking 0 (OnResponse src resp) \<Longrightarrow>
    sybil_OnResponse E B own src resp (sybil w) = (Inl a, t, es) \<Longrightarrow>
    world_step E B resolve own w (map Did es) (w\<lparr>wdisp := end_call i (wdisp w), sybil := t\<rparr>)"
| launch: "step (wdisp w) [Launched 0] d \<Longrightarrow> sybil_OnLaunch E resolve own (sybil w) = (None, es) \<Longrightarrow>
    world_step E B resolve own w (map Did es) (w\<lparr>wdisp := d\<rparr>)"
| timeout: "step (wdisp w) [TimedOut 0 again] d \<Longrightarrow> OnTimeout E B rand resolve own (sybil w) = (Inr again, t, es) \<Longrightarrow>
    world_step E B resolve own w (map Did es) (w\<lparr>wdisp := d, sybil := t\<rparr>)"
| minute: "\<not> finish (sybil w) \<Longrightarrow> world_step E B resolve own w [] (w\<lparr>sybil := patrol B rand (sybil w)\<rparr>)"
| stimulate: "world_step E B resolve own w [] (w\<lparr>sybil := Stimulate_sybil B rand (sybil w)\<rparr>)"
| remove: "world_step E B resolve own w [] (w\<lparr>wdisp := Remove (trans_id (sybil w)) (wdisp w)\<rparr>)"
| ended: "step (wdisp w) [Ended 0] d \<Longrightarrow> world_step E B resolve own w [] (w\<lparr>wdisp := d\<rparr>)"
| removed: "step (wdisp w) [Removed tid] d \<Longrightarrow> world_step E B resolve own w [] (w\<lparr>wdisp := d\<rparr>)"
| finished: "step (wdisp w) [OnFinished 0] d \<Longrightarrow> sybil_OnFinish (sybil w) = (r, t) \<Longrightarrow>
    world_step E B resolve own w [] (w\<lparr>wdisp := d, sybil := t\<rparr>)"

inductive world_runs :: "env \<Rightarrow> 'f bloom \<Rightarrow> (string \<Rightarrow> UDPAddr option) \<Rightarrow> bytes \<Rightarrow> 'f world \<Rightarrow> observed list \<Rightarrow> 'f world \<Rightarrow> bool"
  for E B resolve own where
  start: "world_runs E B resolve own w [] w"
| more: "world_runs E B resolve own w tr w1 \<Longrightarrow> world_step E B resolve own w1 es w2 \<Longrightarrow>
    world_runs E B resolve own w (tr @ es) w2"

text \<open>Where \<open>Crawl\<close> starts to serve.\<close>

definition start_of :: "gerror + Host \<times> dispatcher \<times> 'f sybilTransaction \<Rightarrow> 'f world option" where
  "start_of c = (case c of Inl e \<Rightarrow> None | Inr (h, d, t) \<Rightarrow> Some \<lparr>wdisp = d, sybil = t, jobs = []\<rparr>)"

section \<open>What each step brings\<close>

text \<open>
  Every step is one of four: a datagram comes in, a query is answered, the transaction asks others, or
  nothing shows. The jobs and the transaction's ID change accordingly.
\<close>

lemma step_cases:
  assumes "world_step E B resolve own w es w'"
  obtains
    (arrived) src datagram where "es = [Arrived src datagram]" "sybil w' = sybil w"
      "jobs w' = jobs w @ (case job_of E (Received src datagram) of None \<Rightarrow> [] | Some c \<Rightarrow> [spawned c])"
  | (answered) i src tid q args rs qs ds where "es = map Did (rs @ qs @ ds)" "i < length (jobs w)"
      "argv_call (jobs w ! i) = DisposeQuery src tid q args" "w' = drop_job i w" "answers src tid rs"
      "\<forall>e \<in> set qs. asks (trans_id (sybil w)) e" "reports_peer src ds"
      "rs \<noteq> [] \<Longrightarrow> q \<in> {''ping'', ''get_peers'', ''announce_peer''}" "ds \<noteq> [] \<Longrightarrow> q = ''announce_peer''"
  | (asked) qs i where "es = map Did qs" "\<forall>e \<in> set qs. asks (trans_id (sybil w)) e \<or> e = Patrolling"
      "jobs w' = jobs w \<or> (\<forall>src tid q args. argv_call (jobs w ! i) \<noteq> DisposeQuery src tid q args) \<and> i < length (jobs w) \<and>
         jobs w' = take i (jobs w) @ drop (Suc i) (jobs w)"
      "trans_id (sybil w') = trans_id (sybil w)"
  using assms
proof (cases rule: world_step.cases)
  case (arrive src datagram c)
  then show ?thesis using arrived by simp
next
  case (ignore src datagram)
  then show ?thesis using arrived by simp
next
  case (query i src tid q args rand crawl r es')
  from query(5) show ?thesis by (rule OnQuery_answers) (use answered query in blast)
next
  case (load i src tid resp)
  then show ?thesis using asked [of "[]" i] by (simp add: drop_job_def)
next
  case (answer src resp again d t es')
  then show ?thesis
    using asked [of es'] OnResponse_asks [OF answer(4)] sybil_OnResponse_state [OF answer(4)] by auto
next
  case (answer_panic i src resp a t es')
  then show ?thesis
    using asked [of es'] OnResponse_asks [OF answer_panic(5)] sybil_OnResponse_state [OF answer_panic(5)] by auto
next
  case (launch d es')
  then show ?thesis using asked [of es'] OnLaunch_asks [OF launch(4)] by auto
next
  case (timeout again d rand t es')
  moreover have "trans_id t = trans_id (sybil w)"
    using timeout(4) by (auto simp: OnTimeout_def changeTarget_def Let_def split: prod.splits option.splits)
  ultimately show ?thesis using asked [of es'] OnTimeout_asks [OF timeout(4)] by auto
next
  case (finished d r t)
  moreover have "trans_id t = trans_id (sybil w)"
    using finished(4) by (auto simp: sybil_OnFinish_def split: if_splits)
  ultimately show ?thesis using asked [of "[]"] by simp
qed (use asked [of "[]"] in \<open>simp_all add: patrol_def Stimulate_sybil_def changeTarget_def Let_def\<close>)

section \<open>Nothing without a reason\<close>

definition justified :: "env \<Rightarrow> bytes \<Rightarrow> observed list \<Rightarrow> effect \<Rightarrow> bool" where
  "justified E own_tid tr e =
     (case e of
        Patrolling \<Rightarrow> True
      | Sent dst m \<Rightarrow> asks own_tid e \<or>
          (\<exists>src datagram q args. dst = Some src \<and> Y m = ''r'' \<and> Arrived src datagram \<in> set tr \<and>
             q \<in> {''ping'', ''get_peers'', ''announce_peer''} \<and>
             job_of E (Received src datagram) = Some (DisposeQuery src (TransactionID m) q args))
      | Crawled ih ip p \<Rightarrow>
          (\<exists>src datagram tid args. ip = IP src \<and> Arrived src datagram \<in> set tr \<and>
             job_of E (Received src datagram) = Some (DisposeQuery src tid ''announce_peer'' args)))"

lemma justified_more: "justified E own_tid tr e \<Longrightarrow> justified E own_tid (tr @ es) e"
  by (fastforce simp: justified_def split: effect.splits)

definition spawned_from :: "env \<Rightarrow> observed list \<Rightarrow> argv \<Rightarrow> bool" where
  "spawned_from E tr a \<longleftrightarrow> (\<exists>datagram. Arrived (sender (argv_call a)) datagram \<in> set tr \<and>
     job_of E (Received (sender (argv_call a)) datagram) = Some (argv_call a))"

lemma spawned_from_more: "spawned_from E tr a \<Longrightarrow> spawned_from E (tr @ es) a"
  by (auto simp: spawned_from_def)

lemma job_of_sender: "job_of E (Received src datagram) = Some c \<Longrightarrow> sender c = src"
  by (cases "disposeMessage E proxy_dispose src (take 8196 datagram)") (auto simp: job_of_def dest: disposeMessage_call)

lemma answers_justified:
  assumes "argv_call a = DisposeQuery src tid q args" and "spawned_from E tr a"
    and "answers src tid rs" "rs \<noteq> [] \<Longrightarrow> q \<in> {''ping'', ''get_peers'', ''announce_peer''}"
    and "reports_peer src ds" "ds \<noteq> [] \<Longrightarrow> q = ''announce_peer''" and "e \<in> set rs \<union> set ds"
  shows "justified E own_tid tr e"
proof -
  obtain datagram where "Arrived src datagram \<in> set tr" "job_of E (Received src datagram) = Some (DisposeQuery src tid q args)"
    using assms(1,2) by (auto simp: spawned_from_def)
  then show ?thesis using assms(3-7) by (fastforce simp: answers_def reports_peer_def justified_def)
qed

definition reasons :: "env \<Rightarrow> bytes \<Rightarrow> observed list \<Rightarrow> 'f world \<Rightarrow> bool" where
  "reasons E own_tid tr w \<longleftrightarrow> trans_id (sybil w) = own_tid \<and> (\<forall>a \<in> set (jobs w). spawned_from E tr a) \<and>
     (\<forall>e. Did e \<in> set tr \<longrightarrow> justified E own_tid tr e)"

lemma set_without: "set (take i xs @ drop (Suc i) xs) \<subseteq> set xs"
  using set_take_subset set_drop_subset by fastforce

lemma step_reasons:
  assumes "world_step E B resolve own w es w'" and "reasons E own_tid tr w"
  shows "reasons E own_tid (tr @ es) w'"
  using assms(1)
proof (cases rule: step_cases)
  case (arrived src datagram)
  then show ?thesis using assms(2) job_of_sender [of E src datagram]
    by (auto simp: reasons_def spawned_from_more justified_more spawned_from_def split: option.splits)
next
  case (answered i src tid q args rs qs ds)
  have "jobs w ! i \<in> set (jobs w)" using answered(2) by simp
  then have "spawned_from E tr (jobs w ! i)" using assms(2) unfolding reasons_def by blast
  then have "justified E own_tid (tr @ es) e" if "e \<in> set rs \<union> set ds" for e
    using answers_justified [OF answered(3) _ answered(5,8,7,9) that] justified_more by blast
  moreover have "justified E own_tid (tr @ es) e" if "e \<in> set qs" for e
    using answered(6) that assms(2) by (auto simp: reasons_def justified_def split: effect.splits)
  ultimately show ?thesis
    using assms(2) answered(1,4) set_without [of i "jobs w"]
    by (auto simp: reasons_def drop_job_def spawned_from_more justified_more)
next
  case (asked qs i)
  have "justified E own_tid (tr @ es) e" if "e \<in> set qs" for e
    using asked(2) that assms(2) by (auto simp: reasons_def justified_def split: effect.splits)
  moreover have "set (jobs w') \<subseteq> set (jobs w)" using asked(3) set_without [of i "jobs w"] by auto
  ultimately show ?thesis
    using assms(2) asked(1,4) by (auto simp: reasons_def spawned_from_more justified_more)
qed

lemma runs_reasons: "world_runs E B resolve own w tr w' \<Longrightarrow> reasons E own_tid [] w \<Longrightarrow> reasons E own_tid tr w'"
  by (induction rule: world_runs.induct) (auto intro: step_reasons)

section \<open>No amplification\<close>

definition response_to :: "UDPAddr \<Rightarrow> observed \<Rightarrow> bool" where
  "response_to a o1 = (case o1 of Did (Sent (Some b) m) \<Rightarrow> b = a \<and> Y m = ''r'' | _ \<Rightarrow> False)"

definition arrived_from :: "UDPAddr \<Rightarrow> observed \<Rightarrow> bool" where
  "arrived_from a o1 = (case o1 of Arrived b datagram \<Rightarrow> b = a | _ \<Rightarrow> False)"

definition query_from :: "UDPAddr \<Rightarrow> argv \<Rightarrow> bool" where
  "query_from a j = (case argv_call j of DisposeQuery b tid q args \<Rightarrow> b = a | _ \<Rightarrow> False)"

definition tally :: "('a \<Rightarrow> bool) \<Rightarrow> 'a list \<Rightarrow> nat" where
  "tally P xs = length (filter P xs)"

lemma tally_simps [simp]: "tally P [] = 0" "tally P (x # xs) = (if P x then 1 else 0) + tally P xs"
  "tally P (xs @ ys) = tally P xs + tally P ys"
  by (simp_all add: tally_def)

lemma tally_without: "i < length xs \<Longrightarrow> tally P (take i xs @ drop (Suc i) xs) + (if P (xs ! i) then 1 else 0) = tally P xs"
  by (subst (3) id_take_nth_drop [of i xs]) simp_all

lemma tally_zero: "tally P xs = 0 \<longleftrightarrow> (\<forall>x \<in> set xs. \<not> P x)"
  by (simp add: tally_def filter_empty_conv)

lemma asked_no_response:
  assumes "\<forall>e \<in> set qs. asks tid e \<or> e = Patrolling"
  shows "tally (response_to a) (map Did qs) = 0" "tally (arrived_from a) (map Did qs) = 0"
  using assms by (force simp: tally_zero response_to_def arrived_from_def asks_def split: effect.splits option.splits)+

definition balanced :: "UDPAddr \<Rightarrow> observed list \<Rightarrow> 'f world \<Rightarrow> bool" where
  "balanced a tr w \<longleftrightarrow> tally (response_to a) tr + tally (query_from a) (jobs w) \<le> tally (arrived_from a) tr"

lemma answers_count:
  assumes "answers src tid rs"
  shows "tally (response_to a) (map Did rs) \<le> (if src = a then 1 else 0)" "tally (arrived_from a) (map Did rs) = 0"
  using assms by (auto simp: answers_def response_to_def arrived_from_def)

lemma reports_count:
  assumes "reports_peer src ds"
  shows "tally (response_to a) (map Did ds) = 0" "tally (arrived_from a) (map Did ds) = 0"
  using assms by (auto simp: reports_peer_def response_to_def arrived_from_def)

lemma step_balanced:
  assumes "world_step E B resolve own w es w'" and "balanced a tr w"
  shows "balanced a (tr @ es) w'"
  using assms(1)
proof (cases rule: step_cases)
  case (arrived src datagram)
  then show ?thesis using assms(2) job_of_sender [of E src datagram]
    by (auto simp: balanced_def response_to_def arrived_from_def query_from_def split: option.splits dispose_call.splits)
next
  case (answered i src tid q args rs qs ds)
  have "query_from a (jobs w ! i) = (src = a)" using answered(3) by (simp add: query_from_def)
  then have "tally (query_from a) (jobs w') + (if src = a then 1 else 0) = tally (query_from a) (jobs w)"
    using tally_without [OF answered(2), of "query_from a"] answered(4) by (simp add: drop_job_def)
  moreover have "\<forall>e \<in> set qs. asks (trans_id (sybil w)) e \<or> e = Patrolling" using answered(6) by blast
  note asked_no_response [OF this, of a] reports_count [OF answered(7), of a] answers_count [OF answered(5), of a]
  ultimately show ?thesis using assms(2) answered(1) by (simp add: balanced_def)
next
  case (asked qs i)
  have "tally (query_from a) (jobs w') \<le> tally (query_from a) (jobs w)"
    using asked(3) tally_without [of i "jobs w" "query_from a"] by auto
  then show ?thesis using assms(2) asked(1) asked_no_response [OF asked(2), of a] by (simp add: balanced_def)
qed

lemma runs_balanced: "world_runs E B resolve own w tr w' \<Longrightarrow> balanced a [] w \<Longrightarrow> balanced a tr w'"
  by (induction rule: world_runs.induct) (auto intro: step_balanced)

section \<open>The channel of the transaction is closed once\<close>

lemma step_finished:
  assumes "step d es d'" and "b < length (boxes d)" and "OnFinished b \<notin> set es"
  shows "b < length (boxes d') \<and> (phase_of d' b = Finished) = (phase_of d b = Finished)"
  using assms
  by (induction rule: step.induct)
    (auto simp: Add_def newTransactionBox_def nth_append Remove_def DisposeResponse_load_def DisposeError_load_def
      removeSelf_def keepAlive_def end_box_def split: if_splits option.splits)

definition closes_once :: "'f world \<Rightarrow> bool" where
  "closes_once w \<longleftrightarrow> 0 < length (boxes (wdisp w)) \<and> finish (sybil w) = (phase_of (wdisp w) 0 = Finished)"

lemma Finishing_open: "closes_once w \<Longrightarrow> step (wdisp w) [OnFinished 0] d \<Longrightarrow> sybil_OnFinish (sybil w) = (None, sybil w\<lparr>finish := True\<rparr>)"
  by (auto simp: closes_once_def sybil_OnFinish_def dest!: step_OnFinished)

lemma step_closes_once:
  assumes "world_step E B resolve own w es w'" and "closes_once w"
  shows "closes_once w'"
  using assms
proof (cases rule: world_step.cases)
  case (answer src resp again d t es')
  moreover have "finish t = finish (sybil w)" using sybil_OnResponse_state [OF answer(4)] by auto
  ultimately show ?thesis using assms(2) step_finished [OF answer(3), of 0] by (simp add: closes_once_def)
next
  case (answer_panic i src resp a t es')
  moreover have "finish t = finish (sybil w)" using sybil_OnResponse_state [OF answer_panic(5)] by auto
  ultimately show ?thesis using assms(2) by (simp add: closes_once_def)
next
  case (timeout again d rand t es')
  moreover have "finish t = finish (sybil w)"
    using timeout(4) by (auto simp: OnTimeout_def changeTarget_def Let_def split: prod.splits option.splits)
  ultimately show ?thesis using assms(2) step_finished [OF timeout(3), of 0] by (simp add: closes_once_def)
next
  case (finished d r t)
  have "t = sybil w\<lparr>finish := True\<rparr>" using Finishing_open [OF assms(2) finished(3)] finished(4) by simp
  moreover have "phase_of d 0 = Finished" using step_OnFinished [OF finished(3)] by simp
  moreover have "length (boxes (wdisp w)) \<le> length (boxes d)" using step_forward [OF finished(3)] by simp
  ultimately show ?thesis using assms(2) finished(2) by (auto simp: closes_once_def)
next
  case (alive d)
  then show ?thesis using assms(2) step_finished [OF alive(3), of 0] by (simp add: closes_once_def)
next
  case (launch d es')
  then show ?thesis using assms(2) step_finished [OF launch(3), of 0] by (simp add: closes_once_def)
next
  case (ended d)
  then show ?thesis using assms(2) step_finished [OF ended(3), of 0] by (simp add: closes_once_def)
next
  case (removed tid d)
  then show ?thesis using assms(2) step_finished [OF removed(3), of 0] by (simp add: closes_once_def)
qed (auto simp: closes_once_def drop_job_def DisposeResponse_load_def Remove_def patrol_def Stimulate_sybil_def
    changeTarget_def Let_def split: option.splits)

lemma runs_closes_once: "world_runs E B resolve own w tr w' \<Longrightarrow> closes_once w \<Longrightarrow> closes_once w'"
  by (induction rule: world_runs.induct) (auto intro: step_closes_once)

lemma start_ok:
  assumes "start_of (Crawl_start B rand1 rand2 rand3 new_host c) = Some w"
  shows "reasons E (trans_id (sybil w)) [] w" "balanced a [] w" "closes_once w"
proof -
  obtain t where "w = \<lparr>wdisp = NewTransactionDispatcher\<lparr>transactions := [trans_id t \<mapsto> 0], boxes := [newTransactionBox (trans_id t)]\<rparr>,
      sybil = t, jobs = []\<rparr>" "finish t = False"
    using assms
    by (auto simp: start_of_def Crawl_start_def Add_def NewTransactionDispatcher_def newSybilTransaction_def Let_def
        split: sum.splits if_splits)
  then show "reasons E (trans_id (sybil w)) [] w" "balanced a [] w" "closes_once w"
    by (simp_all add: reasons_def balanced_def closes_once_def newTransactionBox_def)
qed

end
