(* ===== verification/Dht_Serving.thy ===== *)
theory Dht_Serving
  imports Dht_Host
begin

text \<open>
  What \<open>Serv\<close> makes of a network: the kinds of datagrams that arrive, as other hosts form them, and the
  jobs they are expected to lead to.
\<close>

datatype arrival =
    Asks UDPAddr bytes bytes "bval option"
  | Answers UDPAddr bytes "bval option"
  | Fails UDPAddr bytes KRPCErr
  | Unknown UDPAddr bytes bytes       \<comment> \<open>a message of a type there is not\<close>
  | Noise UDPAddr bval                \<comment> \<open>an encoding that is no dictionary\<close>
  | Broken                            \<comment> \<open>the read fails\<close>

fun datagram :: "arrival \<Rightarrow> bytes" where
  "datagram (Asks src tid q a) = benc (BDict (message_dict tid ''q'' q a None None))"
| "datagram (Answers src tid r) = benc (BDict (message_dict tid ''r'' [] None r None))"
| "datagram (Fails src tid e) = benc (BDict (message_dict tid ''e'' [] None None (Some e)))"
| "datagram (Unknown src tid y) = benc (BDict (message_dict tid y [] None None None))"
| "datagram (Noise src b) = benc b"
| "datagram Broken = []"

fun as_round :: "arrival \<Rightarrow> round" where
  "as_round (Asks src tid q a) = Received src (datagram (Asks src tid q a))"
| "as_round (Answers src tid r) = Received src (datagram (Answers src tid r))"
| "as_round (Fails src tid e) = Received src (datagram (Fails src tid e))"
| "as_round (Unknown src tid y) = Received src (datagram (Unknown src tid y))"
| "as_round (Noise src b) = Received src (datagram (Noise src b))"
| "as_round Broken = ReadFailed"

fun arrival_ok :: "arrival \<Rightarrow> bool" where
  "arrival_ok (Asks src tid q a) \<longleftrightarrow> len_ok tid \<and> len_ok q \<and> pred_option bval_ok a"
| "arrival_ok (Answers src tid r) \<longleftrightarrow> len_ok tid \<and> pred_option bval_ok r"
| "arrival_ok (Fails src tid e) \<longleftrightarrow> len_ok tid \<and> bval_ok (kerr_bval e)"
| "arrival_ok (Unknown src tid y) \<longleftrightarrow> len_ok tid \<and> len_ok y \<and> y \<noteq> ''q'' \<and> y \<noteq> ''r''"
| "arrival_ok (Noise src b) \<longleftrightarrow> bval_ok b \<and> (\<nexists>kvs. b = BDict kvs)"
| "arrival_ok Broken \<longleftrightarrow> True"

text \<open>A query and a response are one job each, with what they carry; everything else is none.\<close>

fun expected :: "arrival \<Rightarrow> dispose_call list" where
  "expected (Asks src tid q a) = [DisposeQuery src tid q (map_option benc a)]"
| "expected (Answers src tid r) = [DisposeResponse src tid (map_option benc r)]"
| "expected a = []"

lemma dispose_noise:
  assumes "bval_ok b" and "\<nexists>kvs. b = BDict kvs"
  shows "snd (disposeMessage btlet_env disposer addr (benc b)) = None"
proof -
  have "assign btlet_env b message_type (zero message_type) = None"
    using assms(2)
    by (cases b) (simp_all add: message_type_def through.simps assign_at_def assign_int_def assign_str_def assign_list_def
        assign_seq_def no_methods_def)
  then have "fst (unmarshal_var btlet_env (benc b) message_type (zero message_type)) \<noteq> None"
    using unmarshal_var_assign [OF btlet_env_ok(2) assms(1) wf_message(1,3), of "[]"] by simp
  then show ?thesis by (auto simp: disposeMessage_def split: prod.split option.split)
qed

lemma dispose_message_dict:
  assumes "len_ok tid" "len_ok y" "len_ok q" "pred_option bval_ok a" "pred_option bval_ok r"
    "pred_option (\<lambda>k. bval_ok (kerr_bval k)) e"
  shows "snd (disposeMessage btlet_env disposer addr (benc (BDict (message_dict tid y q a r e)))) =
    (if y = ''q'' then Some (DisposeQuery addr tid q (map_option benc a))
     else if y = ''r'' then Some (DisposeResponse addr tid (map_option benc r)) else None)"
  using dispose_datagram [OF message_dict_ok [OF assms] message_dict_get, of disposer addr "[]"]
  by (simp add: Let_def del: benc.simps)

lemma arrival_job:
  assumes "arrival_ok a" and "length (datagram a) \<le> 8196"
  shows "job_of btlet_env (as_round a) = (case expected a of [] \<Rightarrow> None | c # cs \<Rightarrow> Some c)"
  using assms
  by (cases a)
    (auto simp: job_of_def dispose_message_dict dispose_noise len_ok_def simp del: benc.simps)

lemma as_round_not_cancelled [simp]: "Cancelled \<notin> set (map as_round as)"
proof -
  have "as_round a \<noteq> Cancelled" for a by (cases a) simp_all
  then show ?thesis by (metis (no_types, lifting) imageE list.set_map)
qed

lemma arrivals_jobs:
  "\<forall>a \<in> set as. arrival_ok a \<and> length (datagram a) \<le> 8196 \<Longrightarrow>
    List.map_filter (job_of btlet_env) (map as_round as) = concat (map expected as)"
proof (induction as)
  case (Cons a as)
  have "expected a = [] \<or> (\<exists>c. expected a = [c])" by (cases a) simp_all
  then show ?case using Cons arrival_job [of a] by (auto simp: List.map_filter_simps)
qed (simp add: List.map_filter_simps)

lemma Serv_arrivals:
  assumes "\<forall>a \<in> set as. arrival_ok a \<and> length (datagram a) \<le> 8196"
  shows "Serv btlet_env (map as_round as) = (False, concat (map expected as))"
    and "Serv btlet_env (map as_round as @ Cancelled # rs) = (True, concat (map expected as))"
  using Serv_returns [of btlet_env "map as_round as"] Serv_jobs [OF as_round_not_cancelled, of btlet_env as]
    arrivals_jobs [OF assms] Serv_cancelled [of btlet_env "map as_round as" rs]
  by (metis as_round_not_cancelled prod.collapse)+

end
