(* ===== verification/Dht_Fairness.thy ===== *)
theory Dht_Fairness
  imports Dht_Registry
begin

text \<open>
  Progress of the dispatcher: what must happen to a box whose end has been asked for, in an infinite
  execution in which its goroutines are scheduled.
\<close>

section \<open>Executions\<close>

definition execution :: "(nat \<Rightarrow> dispatcher) \<Rightarrow> (nat \<Rightarrow> event list) \<Rightarrow> bool" where
  "execution f ev \<longleftrightarrow> (\<forall>n. step (f n) (ev n) (f (Suc n)))"

text \<open>Weak fairness: what stays possible from some point on happens at some later one.\<close>

definition weakly_fair :: "(nat \<Rightarrow> bool) \<Rightarrow> (nat \<Rightarrow> bool) \<Rightarrow> bool" where
  "weakly_fair possible happens \<longleftrightarrow> (\<forall>n. (\<forall>m \<ge> n. possible m) \<longrightarrow> (\<exists>m \<ge> n. happens m))"

text \<open>
  The scheduler is fair to a box: to the meeting of its loop with a goroutine in \<open>done\<close>, and to its
  goroutine before \<open>rmself\<close> and before \<open>OnFinish\<close>. Nothing is asked about its timer.
\<close>

definition box_scheduled :: "nat \<Rightarrow> (nat \<Rightarrow> dispatcher) \<Rightarrow> (nat \<Rightarrow> event list) \<Rightarrow> bool" where
  "box_scheduled b f ev \<longleftrightarrow>
     weakly_fair (\<lambda>n. phase_of (f n) b = Waiting \<and> Ending b \<in> set (calls (f n))) (\<lambda>n. ev n = [Ended b]) \<and>
     weakly_fair (\<lambda>n. phase_of (f n) b = Leaving) (\<lambda>n. phase_of (f n) b = Leaving \<and> phase_of (f (Suc n)) b = Finishing) \<and>
     weakly_fair (\<lambda>n. phase_of (f n) b = Finishing) (\<lambda>n. ev n = [OnFinished b])"

text \<open>One step of a proof of progress: a state that is only left for the next one is left.\<close>

lemma weakly_fair_leads:
  assumes "weakly_fair P happens" and "P n"
    and "\<And>m. n \<le> m \<Longrightarrow> P m \<Longrightarrow> P (Suc m) \<or> Z m"
    and "\<And>m. n \<le> m \<Longrightarrow> P m \<Longrightarrow> happens m \<Longrightarrow> Z m"
  shows "\<exists>k \<ge> n. (\<forall>m. n \<le> m \<and> m \<le> k \<longrightarrow> P m) \<and> Z k"
proof -
  have "\<exists>k \<ge> n. P k \<and> Z k"
  proof (rule ccontr)
    assume no: "\<not> ?thesis"
    have "P m" if "n \<le> m" for m
      using that
    proof (induction m rule: dec_induct)
      case (step m)
      then show ?case using assms(3) no by blast
    qed (rule assms(2))
    then show False using assms(1,4) no unfolding weakly_fair_def by blast
  qed
  define k where "k = (LEAST k. n \<le> k \<and> P k \<and> Z k)"
  have k: "n \<le> k" "Z k"
    using \<open>\<exists>k \<ge> n. P k \<and> Z k\<close> LeastI_ex [of "\<lambda>k. n \<le> k \<and> P k \<and> Z k"] by (auto simp: k_def)
  have "P m" if "n \<le> m" "m \<le> k" for m
    using that
  proof (induction m rule: dec_induct)
    case (step m)
    then have "\<not> Z m" using not_less_Least [of m "\<lambda>k. n \<le> k \<and> P k \<and> Z k"] by (auto simp: k_def)
    then show ?case using step assms(3) by auto
  qed (rule assms(2))
  with k show ?thesis by blast
qed

section \<open>The phase of a box, step by step\<close>

lemma step_phase:
  assumes "step d es d'" and "b < length (boxes d)"
  shows "phase_of d' b = phase_of d b \<or> (phase_of d b = Launching \<and> phase_of d' b = Waiting) \<or>
    (phase_of d b = Waiting \<and> phase_of d' b = Leaving \<and> es \<in> {[Ended b], [TimedOut b False]}) \<or>
    (phase_of d b = Leaving \<and> phase_of d' b = Finishing) \<or> (phase_of d b = Finishing \<and> phase_of d' b = Finished)"
  using assms
  by (induction rule: step.induct)
    (auto simp: Add_def Remove_def DisposeResponse_load_def DisposeError_load_def removeSelf_def end_box_def nth_append
      split: option.splits if_splits)

lemma step_Ended: "step d [Ended b] d' \<Longrightarrow> b < length (boxes d) \<Longrightarrow> phase_of d b = Waiting \<and> phase_of d' b = Leaving"
  by (erule step_EndedE) (auto simp: end_box_def split: if_splits)

text \<open>No goroutine in \<open>done\<close> is lost: one returns only when its box takes the end.\<close>

lemma in_count: "x \<in> set xs \<longleftrightarrow> 0 < count_list xs x"
  by (metis count_list_0_iff not_gr_zero)

lemma step_done:
  "step d es d' \<Longrightarrow> Ending b \<in> set (calls d) \<Longrightarrow> es \<noteq> [Ended b] \<Longrightarrow> Ending b \<in> set (calls d')"
proof (induction rule: step.induct)
  case (keep i d b' m)
  then show ?case using count_set_call [of i d "Ending b" "Asking b' m"] by (auto simp: in_count)
next
  case (answer i d b' m r)
  have "calls d ! i \<noteq> Ending b" using answer.hyps(2) by simp
  from count_set_call [OF answer.hyps(1) this, of "Ending b'"] count_end_call [OF answer.hyps(1) this] answer.prems(1)
  show ?case unfolding in_count by (cases r) (simp_all del: boxes_calls)
next
  case (ending i d b' p)
  then show ?case using count_end_call [of i "set_phase b' p d" "Ending b"] by (simp add: in_count) linarith
qed (auto simp: Add_def Remove_def DisposeResponse_load_def DisposeError_load_def removeSelf_def
    split: option.split if_splits)

section \<open>Executions in which the end has been asked for\<close>

lemma execution_runs: "execution f ev \<Longrightarrow> runs (f n) (concat (map ev [n..<n + k])) (f (n + k))"
proof (induction k)
  case (Suc k)
  then have "step (f (n + k)) (ev (n + k)) (f (Suc (n + k)))" by (simp add: execution_def)
  then show ?case using runs.snoc [OF Suc.IH [OF Suc.prems]] by simp
qed (simp add: runs.refl)

lemma execution_boxes:
  assumes "execution f ev" and "b < length (boxes (f 0))"
  shows "b < length (boxes (f n))" and "box_id (boxes (f n) ! b) = box_id (boxes (f 0) ! b)"
proof -
  have "b < length (boxes (f n)) \<and> box_id (boxes (f n) ! b) = box_id (boxes (f 0) ! b)"
  proof (induction n)
    case (Suc n)
    have "step (f n) (ev n) (f (Suc n))" using assms(1) by (simp add: execution_def)
    then show ?case using step_forward Suc by fastforce
  qed (simp add: assms(2))
  then show "b < length (boxes (f n))" "box_id (boxes (f n) ! b) = box_id (boxes (f 0) ! b)" by simp_all
qed

lemma execution_done:
  assumes "execution f ev" and "Ending b \<in> set (calls (f 0))" and "\<And>j. j < n \<Longrightarrow> ev j \<noteq> [Ended b]"
  shows "Ending b \<in> set (calls (f n))"
  using assms(3)
proof (induction n)
  case (Suc n)
  have "step (f n) (ev n) (f (Suc n))" using assms(1) by (simp add: execution_def)
  then show ?case using step_done Suc by simp
qed (rule assms(2))

lemma execution_left:
  assumes "execution f ev" and "b < length (boxes (f 0))" and "left_loop (phase_of (f n) b)" and "n \<le> m"
  shows "phase_of (f n) b \<le> phase_of (f m) b" and "ev m \<noteq> [Ended b]"
proof -
  show le: "phase_of (f n) b \<le> phase_of (f m) b"
    using runs_forward [OF execution_runs [OF assms(1), of n "m - n"] execution_boxes(1) [OF assms(1,2)]] assms(4) by simp
  have "step (f m) (ev m) (f (Suc m))" using assms(1) by (simp add: execution_def)
  then show "ev m \<noteq> [Ended b]"
    using step_Ended [of "f m" b "f (Suc m)"] execution_boxes(1) [OF assms(1,2)] le assms(3)
    by (auto simp: active_order)
qed

lemma box_ends:
  assumes "execution f ev" and "box_scheduled b f ev" and "registered (f 0)"
    and "b < length (boxes (f 0))" and "phase_of (f 0) b = Waiting" and "Ending b \<in> set (calls (f 0))"
  shows "\<exists>k m. k < m \<and> (\<forall>j \<le> k. phase_of (f j) b = Waiting) \<and>
    (ev k = [Ended b] \<or> ev k = [TimedOut b False] \<and> (\<forall>j. Ending b \<in> set (calls (f j)))) \<and>
    (\<forall>j \<ge> m. phase_of (f j) b = Finished \<and> transactions (f j) (box_id (boxes (f 0) ! b)) \<noteq> Some b)"
proof -
  have st: "step (f n) (ev n) (f (Suc n))" for n using assms(1) by (simp add: execution_def)
  note ph = step_phase [OF st execution_boxes(1) [OF assms(1,4)]]
  note fair = assms(2) [unfolded box_scheduled_def]
  have left: "\<exists>k \<ge> 0. (\<forall>m. 0 \<le> m \<and> m \<le> k \<longrightarrow> phase_of (f m) b = Waiting \<and> Ending b \<in> set (calls (f m))) \<and>
      (phase_of (f (Suc k)) b = Leaving \<and> ev k \<in> {[Ended b], [TimedOut b False]})"
    using ph step_done [OF st] step_Ended [OF _ execution_boxes(1) [OF assms(1,4)]] st assms(5,6)
    by (intro weakly_fair_leads [OF fair [THEN conjunct1]]) (metis insertCI phase.distinct)+
  then obtain k where k: "\<And>j. j \<le> k \<Longrightarrow> phase_of (f j) b = Waiting" "phase_of (f (Suc k)) b = Leaving"
      "ev k \<in> {[Ended b], [TimedOut b False]}"
    by blast
  have "\<exists>l \<ge> Suc k. (\<forall>m. Suc k \<le> m \<and> m \<le> l \<longrightarrow> phase_of (f m) b = Leaving) \<and> phase_of (f (Suc l)) b = Finishing"
    using ph k(2) by (intro weakly_fair_leads [OF fair [THEN conjunct2, THEN conjunct1]]) (metis phase.distinct)+
  then obtain l where l: "Suc k \<le> l" "phase_of (f (Suc l)) b = Finishing" by blast
  have "\<exists>m \<ge> Suc l. (\<forall>j. Suc l \<le> j \<and> j \<le> m \<longrightarrow> phase_of (f j) b = Finishing) \<and> phase_of (f (Suc m)) b = Finished"
    using ph l(2) st step_OnFinished
    by (intro weakly_fair_leads [OF fair [THEN conjunct2, THEN conjunct2]]) (metis phase.distinct)+
  then obtain m where m: "Suc l \<le> m" "phase_of (f (Suc m)) b = Finished" by blast
  have over: "phase_of (f j) b = Finished \<and> transactions (f j) (box_id (boxes (f 0) ! b)) \<noteq> Some b" if "Suc m \<le> j" for j
  proof -
    have "left_loop (phase_of (f (Suc m)) b)" using m(2) by (simp add: left_loop_def)
    then have "Finished \<le> phase_of (f j) b" using execution_left(1) [OF assms(1,4) _ that] m(2) by simp
    then have "phase_of (f j) b = Finished" by (cases "phase_of (f j) b") (simp_all add: less_eq_phase_def)
    moreover have "registered (f j)"
      using runs_registered [OF execution_runs [OF assms(1), of 0 j] assms(3)] by simp
    ultimately show ?thesis by (auto simp: registered_def)
  qed
  have "Ending b \<in> set (calls (f j))" if "ev k = [TimedOut b False]" for j
  proof (rule execution_done [OF assms(1,6)])
    fix i
    show "ev i \<noteq> [Ended b]"
    proof (cases "Suc k \<le> i")
      case True
      then show ?thesis using execution_left(2) [OF assms(1,4), of "Suc k" i] k(2) by (simp add: left_loop_def)
    next
      case False
      show ?thesis
      proof
        assume e: "ev i = [Ended b]"
        then have "i < k" using False that by (cases "i = k") auto
        then have "phase_of (f (Suc i)) b = Waiting" using k(1) by simp
        then show False using step_Ended [of "f i" b "f (Suc i)"] st [of i] e execution_boxes(1) [OF assms(1,4)] by simp
      qed
    qed
  qed
  then show ?thesis
    using k over l(1) m(1) by (intro exI [of _ k] exI [of _ "Suc m"]) auto
qed

end
