(* ===== verification/Dht_Filter.thy ===== *)
theory Dht_Filter
  imports Dht_Crawl_Spec
begin

text \<open>
  The filter of nodes when several workers are in \<open>AddNode\<close> at once. \<open>AddNode\<close> (\<open>dht/crawler.go\<close>) gives
  the lock back before its first access, so the accesses of its callers interleave with each other and
  with those of a \<open>Reset\<close>, which holds the lock between its own two. A call is at one of four places.
\<close>

datatype adding =
    Between string    \<comment> \<open>after \<open>AddString\<close>, before \<open>TestAndAddString\<close>\<close>
  | Missed            \<comment> \<open>the key was not there: before the load of \<open>amount++\<close>\<close>
  | Counting nat      \<comment> \<open>between the load and the store\<close>
  | Through

record 'f filter_state =
  nodes :: "'f nodeFilter"
  adders :: "adding list"    \<comment> \<open>the calls of \<open>AddNode\<close> so far, by number\<close>
  resetting :: bool          \<comment> \<open>whether a \<open>Reset\<close> holds the lock\<close>

datatype access = Begun nat string | Tested nat bool | Counted nat | Cleared

definition set_adder :: "nat \<Rightarrow> adding \<Rightarrow> 'f nodeFilter \<Rightarrow> 'f filter_state \<Rightarrow> 'f filter_state" where
  "set_adder g a flt s = s\<lparr>nodes := flt, adders := (adders s)[g := a]\<rparr>"

text \<open>\<open>amount++\<close> is a load and a store; two calls may load the same amount.\<close>

inductive filter_step :: "'f bloom \<Rightarrow> 'f filter_state \<Rightarrow> access list \<Rightarrow> 'f filter_state \<Rightarrow> bool" for B where
  add: "filter_step B s [Begun (length (adders s)) key]
    (s\<lparr>nodes := AddNode_add B key (nodes s), adders := adders s @ [Between key]\<rparr>)"
| test: "g < length (adders s) \<Longrightarrow> adders s ! g = Between key \<Longrightarrow> AddNode_test B key (nodes s) = (present, flt) \<Longrightarrow>
    filter_step B s [Tested g present] (set_adder g (if present then Through else Missed) flt s)"
| load: "g < length (adders s) \<Longrightarrow> adders s ! g = Missed \<Longrightarrow>
    filter_step B s [] (set_adder g (Counting (amount (nodes s))) (nodes s) s)"
| store: "g < length (adders s) \<Longrightarrow> adders s ! g = Counting n \<Longrightarrow>
    filter_step B s [Counted g] (set_adder g Through ((nodes s)\<lparr>amount := n + 1\<rparr>) s)"
| clear: "\<not> resetting s \<Longrightarrow> filter_step B s [Cleared] (s\<lparr>nodes := Reset_core B (nodes s), resetting := True\<rparr>)"
| zero: "resetting s \<Longrightarrow> filter_step B s [] (s\<lparr>nodes := Reset_amount (nodes s), resetting := False\<rparr>)"

inductive filter_runs :: "'f bloom \<Rightarrow> 'f filter_state \<Rightarrow> access list \<Rightarrow> 'f filter_state \<Rightarrow> bool" for B s0 where
  start: "filter_runs B s0 [] s0"
| more: "filter_runs B s0 tr s \<Longrightarrow> filter_step B s es s' \<Longrightarrow> filter_runs B s0 (tr @ es) s'"

definition filter_start :: "'f bloom \<Rightarrow> nat \<Rightarrow> 'f filter_state" where
  "filter_start B n = \<lparr>nodes = newNodeFilter B n, adders = [], resetting = False\<rparr>"

text \<open>
  A call of \<open>AddNode\<close> is overtaken when the filter is cleared after it has added its key and before it
  tests for it.
\<close>

fun overtaken_in :: "nat set \<Rightarrow> access list \<Rightarrow> nat set" where
  "overtaken_in open [] = {}"
| "overtaken_in open (Begun g key # tr) = overtaken_in (insert g open) tr"
| "overtaken_in open (Tested g present # tr) = overtaken_in (open - {g}) tr"
| "overtaken_in open (Counted g # tr) = overtaken_in open tr"
| "overtaken_in open (Cleared # tr) = open \<union> overtaken_in open tr"

fun open_after :: "nat set \<Rightarrow> access list \<Rightarrow> nat set" where
  "open_after open [] = open"
| "open_after open (Begun g key # tr) = open_after (insert g open) tr"
| "open_after open (Tested g present # tr) = open_after (open - {g}) tr"
| "open_after open (e # tr) = open_after open tr"

abbreviation overtaken :: "access list \<Rightarrow> nat set" where
  "overtaken tr \<equiv> overtaken_in {} tr"

lemma overtaken_append: "overtaken_in op (tr @ tr') = overtaken_in op tr \<union> overtaken_in (open_after op tr) tr'"
  by (induction op tr rule: overtaken_in.induct) auto

lemma open_append: "open_after op (tr @ tr') = open_after (open_after op tr) tr'"
  by (induction op tr rule: open_after.induct) auto

section \<open>What is counted was overtaken\<close>

text \<open>
  The open calls are those between their halves. One whose key is gone was overtaken, and so was one
  that found its key missing. The amount, and what a call has loaded of it, is at most the number of the
  calls that have counted.
\<close>

abbreviation counted :: "access list \<Rightarrow> nat set" where
  "counted tr \<equiv> {g. Counted g \<in> set tr}"

fun place_ok :: "'f bloom \<Rightarrow> access list \<Rightarrow> 'f nodeFilter \<Rightarrow> nat \<Rightarrow> adding \<Rightarrow> bool" where
  "place_ok B tr flt g (Between key) \<longleftrightarrow> (g \<in> overtaken tr \<or> TestString B (core flt) key) \<and> g \<notin> counted tr"
| "place_ok B tr flt g Missed \<longleftrightarrow> g \<in> overtaken tr \<and> g \<notin> counted tr"
| "place_ok B tr flt g (Counting n) \<longleftrightarrow> g \<in> overtaken tr \<and> g \<notin> counted tr \<and> n \<le> card (counted tr)"
| "place_ok B tr flt g Through \<longleftrightarrow> g \<in> counted tr \<longrightarrow> g \<in> overtaken tr"

definition open_calls :: "'f filter_state \<Rightarrow> nat set" where
  "open_calls s = {g. g < length (adders s) \<and> (\<exists>key. adders s ! g = Between key)}"

definition filter_ok :: "'f bloom \<Rightarrow> access list \<Rightarrow> 'f filter_state \<Rightarrow> bool" where
  "filter_ok B tr s \<longleftrightarrow>
     open_after {} tr = open_calls s \<and> overtaken tr \<subseteq> {..<length (adders s)} \<and> counted tr \<subseteq> {..<length (adders s)} \<and>
     (\<forall>g < length (adders s). place_ok B tr (nodes s) g (adders s ! g)) \<and> amount (nodes s) \<le> card (counted tr)"

text \<open>What holds of a call stays when keys are added and calls are overtaken or counted.\<close>

lemma place_ok_mono:
  assumes "place_ok B tr flt g a" and "overtaken tr \<subseteq> overtaken tr'" and "counted tr \<subseteq> counted tr'" "finite (counted tr')"
    and "g \<notin> counted tr' - counted tr"
    and "\<And>key. a = Between key \<Longrightarrow> TestString B (core flt) key \<Longrightarrow> g \<in> overtaken tr' \<or> TestString B (core flt') key"
  shows "place_ok B tr' flt' g a"
  using assms card_mono [OF assms(4,3)] by (cases a) auto

lemma open_calls_set:
  "g < length (adders s) \<Longrightarrow> \<nexists>key. a = Between key \<Longrightarrow> open_calls (set_adder g a flt s) = open_calls s - {g}"
  by (auto simp: open_calls_def set_adder_def nth_list_update split: if_splits)

lemma filter_ok_set:
  assumes "filter_ok B tr s" and "g < length (adders s)" and "\<nexists>key. a = Between key"
    and "open_after {} (tr @ es) = open_calls s - {g}" "overtaken (tr @ es) = overtaken tr"
    and "counted es \<subseteq> {g}" and "place_ok B (tr @ es) flt g a" and "amount flt \<le> card (counted (tr @ es))"
    and "\<And>key. TestString B (core (nodes s)) key \<Longrightarrow> TestString B (core flt) key"
  shows "filter_ok B (tr @ es) (set_adder g a flt s)"
proof -
  have ok: "counted tr \<subseteq> {..<length (adders s)}" "\<forall>h < length (adders s). place_ok B tr (nodes s) h (adders s ! h)"
      "overtaken tr \<subseteq> {..<length (adders s)}"
    using assms(1) by (simp_all add: filter_ok_def)
  have c: "counted (tr @ es) \<subseteq> {..<length (adders s)}" using ok(1) assms(2,6) by auto
  then have fin: "finite (counted (tr @ es))" by (rule finite_subset) simp
  have "place_ok B (tr @ es) flt h (adders s ! h)" if "h < length (adders s)" "h \<noteq> g" for h
    using ok(2) that assms(5,6,9) by (intro place_ok_mono [OF _ _ _ fin, of B tr "nodes s"]) auto
  then have "\<forall>h < length (adders s). place_ok B (tr @ es) flt h ((adders s)[g := a] ! h)"
    using assms(2,7) by (auto simp: nth_list_update)
  then show ?thesis
    using c ok(3) assms(4,5,8) open_calls_set [OF assms(2,3), of flt]
    by (simp add: filter_ok_def, simp add: set_adder_def)
qed

lemma filter_step_ok:
  assumes "bloom_ok B"
  shows "filter_step B s es s' \<Longrightarrow> filter_ok B tr s \<Longrightarrow> filter_ok B (tr @ es) s'"
proof (induction rule: filter_step.induct)
  case (add s key)
  let ?n = "length (adders s)"
  have fin: "finite (counted (tr @ [Begun ?n key]))"
    using add by (auto simp: filter_ok_def intro: finite_subset [of _ "{..<?n}"])
  have new: "overtaken (tr @ [Begun ?n key]) = overtaken tr" "counted (tr @ [Begun ?n key]) = counted tr"
    by (auto simp: overtaken_append)
  have "place_ok B (tr @ [Begun ?n key]) (AddNode_add B key (nodes s)) h (adders s ! h)" if "h < ?n" for h
    using add that assms new
    by (intro place_ok_mono [OF _ _ _ fin, of B tr "nodes s"]) (auto simp: filter_ok_def AddNode_add_def bloom_ok_def)
  moreover have "place_ok B (tr @ [Begun ?n key]) (AddNode_add B key (nodes s)) ?n (Between key)"
    using add assms new by (auto simp: filter_ok_def AddNode_add_def bloom_ok_def)
  moreover have "open_after {} (tr @ [Begun ?n key]) = insert ?n (open_calls s)"
    using add by (simp add: open_append filter_ok_def)
  moreover have "open_calls (s\<lparr>nodes := AddNode_add B key (nodes s), adders := adders s @ [Between key]\<rparr>) = insert ?n (open_calls s)"
    by (auto simp: open_calls_def nth_append less_Suc_eq)
  ultimately show ?case
    using add new by (auto simp: filter_ok_def nth_append less_Suc_eq AddNode_add_def)
next
  case (test g s key present flt)
  have flt: "flt = (nodes s)\<lparr>core := AddString B (core (nodes s)) key\<rparr>" "present = TestString B (core (nodes s)) key"
    using test.hyps(3) assms by (auto simp: AddNode_test_def bloom_ok_def)
  have ok: "place_ok B tr (nodes s) g (Between key)" using test by (auto simp: filter_ok_def)
  have new: "overtaken (tr @ [Tested g present]) = overtaken tr" "counted (tr @ [Tested g present]) = counted tr"
    by (auto simp: overtaken_append)
  show ?case
  proof (rule filter_ok_set [OF test.prems test.hyps(1)])
    show "place_ok B (tr @ [Tested g present]) flt g (if present then Through else Missed)"
      using ok flt(2) new by auto
  qed (use test assms flt new in \<open>auto simp: open_append filter_ok_def bloom_ok_def\<close>)
next
  case (load g s)
  have ok: "place_ok B tr (nodes s) g Missed" using load by (auto simp: filter_ok_def)
  have shut: "g \<notin> open_calls s" using load by (simp add: open_calls_def)
  show ?case
    using filter_ok_set [OF load.prems load.hyps(1), of "Counting (amount (nodes s))" "[]" "nodes s"] ok shut load.prems
    by (simp add: filter_ok_def)
next
  case (store g s n)
  have ok: "place_ok B tr (nodes s) g (Counting n)" using store by (auto simp: filter_ok_def)
  have shut: "g \<notin> open_calls s" using store by (simp add: open_calls_def)
  have fin: "finite (counted tr)" using store.prems by (auto simp: filter_ok_def intro: finite_subset)
  have new: "overtaken (tr @ [Counted g]) = overtaken tr" "counted (tr @ [Counted g]) = insert g (counted tr)"
    by (auto simp: overtaken_append)
  show ?case
  proof (rule filter_ok_set [OF store.prems store.hyps(1)])
    show "amount ((nodes s)\<lparr>amount := n + 1\<rparr>) \<le> card (counted (tr @ [Counted g]))"
      unfolding new using ok fin by simp
  qed (use store ok shut new in \<open>auto simp: open_append filter_ok_def\<close>)
next
  case (clear s)
  have new: "overtaken (tr @ [Cleared]) = overtaken tr \<union> open_calls s" "counted (tr @ [Cleared]) = counted tr"
    using clear by (auto simp: overtaken_append filter_ok_def)
  have fin: "finite (counted (tr @ [Cleared]))" using clear by (auto simp: filter_ok_def intro: finite_subset)
  have "place_ok B (tr @ [Cleared]) (Reset_core B (nodes s)) h (adders s ! h)" if "h < length (adders s)" for h
    using clear that new by (intro place_ok_mono [OF _ _ _ fin, of B tr "nodes s"]) (auto simp: filter_ok_def open_calls_def)
  then show ?case
    using clear new by (auto simp: filter_ok_def open_append open_calls_def Reset_core_def)
next
  case (zero s)
  have "place_ok B tr (Reset_amount (nodes s)) h a = place_ok B tr (nodes s) h a" for h a
    by (cases a) (simp_all add: Reset_amount_def)
  then show ?case using zero by (simp add: filter_ok_def open_calls_def, simp add: Reset_amount_def)
qed

lemma filter_runs_ok:
  assumes "bloom_ok B"
  shows "filter_runs B (filter_start B n) tr s \<Longrightarrow> filter_ok B tr s \<and> cap (nodes s) = n"
proof (induction rule: filter_runs.induct)
  case start
  show ?case by (simp add: filter_ok_def filter_start_def newNodeFilter_def open_calls_def)
next
  case (more tr s es s')
  have "cap (nodes s') = cap (nodes s)"
    using more.hyps(2) by cases (auto simp: set_adder_def filter_defs split: prod.splits)
  then show ?case using filter_step_ok [OF assms more.hyps(2)] more.IH by simp
qed

text \<open>The amount is at most the number of the calls that a \<open>Reset\<close> has overtaken.\<close>

lemma amount_overtaken:
  assumes "bloom_ok B" and "filter_runs B (filter_start B n) tr s"
  shows "amount (nodes s) \<le> card (overtaken tr) \<and> cap (nodes s) = n"
proof -
  have ok: "filter_ok B tr s" "cap (nodes s) = n" using filter_runs_ok [OF assms] by simp_all
  have "g \<in> overtaken tr" if "g \<in> counted tr" for g
  proof -
    have "place_ok B tr (nodes s) g (adders s ! g)" using ok(1) that by (auto simp: filter_ok_def)
    then show ?thesis using that by (cases "adders s ! g") auto
  qed
  then have "card (counted tr) \<le> card (overtaken tr)"
    using ok(1) by (intro card_mono) (auto simp: filter_ok_def intro: finite_subset)
  then show ?thesis using ok by (simp add: filter_ok_def)
qed

end
