(* ===== verification/Dht_Properties.thy ===== *)
theory Dht_Properties
  imports Dht_System Dht_Serving Dht_Fairness Dht_Filter
begin

text \<open>
  What package \<open>dht\<close> guarantees, and where it does not: messages on the wire, the dispatcher of
  transactions under every interleaving, and the crawler from the datagram to the callback.
\<close>

text \<open>An address for the examples.\<close>

definition loopback :: UDPAddr where
  "loopback = \<lparr>IP = net_IPv4 CHR 0x7F CHR 0x00 CHR 0x00 CHR 0x01, Port = 6881\<rparr>"

section \<open>Messages\<close>

text \<open>
  C10. What one host sends is what another dispatches. A message of any shape the protocol has, with
  queries, arguments, a body or an error, is written by \<open>SendMessage\<close> as one dictionary; a host that
  receives those bytes calls its disposer exactly when it is a query or a response, with the same
  transaction ID, name and body, verbatim.
\<close>

theorem message_on_the_wire:
  assumes "len_ok tid" "len_ok y" "len_ok q" "pred_option bval_ok a" "pred_option bval_ok r"
    "pred_option (\<lambda>k. bval_ok (kerr_bval k)) e"
  shows "\<exists>datagram. SendMessage btlet_env buffer_put [] (message_with tid y q a r e) = (None, datagram) \<and>
    disposeMessage btlet_env disposer addr datagram =
      (let call = (if y = ''q'' then Some (DisposeQuery addr tid q (map_option benc a))
                   else if y = ''r'' then Some (DisposeResponse addr tid (map_option benc r))
                   else None)
       in (Option.bind call (\<lambda>c. map_option Err (disposer c)), call))"
proof -
  let ?kvs = "message_dict tid y q a r e"
  have "bval_ok (BDict ?kvs)" using assms by (rule message_dict_ok)
  from dispose_datagram [OF this message_dict_get, of disposer addr "[]"] show ?thesis
    by (simp add: SendMessage_wire buffer_put_def del: benc.simps)
qed

theorem message_on_the_wire_witness:
  "\<exists>datagram. SendMessage btlet_env buffer_put []
      (message_with ''aa'' ''q'' ''ping'' (Some (BDict [(''id'', BStr ''x'')])) None None) = (None, datagram) \<and>
    snd (disposeMessage btlet_env (\<lambda>_. None) loopback datagram) =
      Some (DisposeQuery loopback ''aa'' ''ping'' (Some (benc (BDict [(''id'', BStr ''x'')]))))"
  using message_on_the_wire [of "''aa''" "''q''" "''ping''" "Some (BDict [(''id'', BStr ''x'')])" None None "\<lambda>_. None" loopback]
  by (auto simp: len_ok_def Let_def simp del: benc.simps)

text \<open>
  C20. No datagram makes the host panic, and the decoding of each ends: whatever arrives,
  \<open>disposeMessage\<close> returns, with an error of the codec or with what the disposer returned.
\<close>

theorem any_datagram_returns:
  "(\<forall>msg. fst (disposeMessage btlet_env disposer addr data) \<noteq> Some (Panic msg)) \<and>
   fst (disposeMessage btlet_env disposer addr data) \<noteq> Some OutOfFuel"
  using disposeMessage_safe by blast

text \<open>
  C21. The node lists of the protocol: \<open>unpackNodes\<close> reads any list in compact form, 26 bytes a node,
  back to the nodes with their IDs, addresses and ports. \<open>PackNodes\<close> is not the inverse: it leaves the
  IDs out, so \<open>unpackNodes\<close> refuses what it made, unless the number of nodes happens to be a multiple
  of 13.
\<close>

theorem compact_nodes_read:
  assumes "\<forall>c \<in> set cs. contact_ok c"
  shows "unpackNodes (concat (map compact cs)) = Inr (map contact_node cs) \<and>
    (PackNodes nds = Inr s \<and> \<not> 13 dvd length nds \<longrightarrow> (\<exists>e. unpackNodes s = Inl e))"
  using unpackNodes_compact [OF assms] pack_unpack by blast

theorem compact_nodes_read_witness:
  "unpackNodes (compact \<lparr>c_id = replicate 20 CHR ''x'', c_ip = (CHR 0x7F, CHR 0x00, CHR 0x00, CHR 0x01), c_port = 6881\<rparr>) =
     Inr [\<lparr>Addr = Some \<lparr>IP = net_IPv4 CHR 0x7F CHR 0x00 CHR 0x00 CHR 0x01, Port = 6881\<rparr>, ID = replicate 20 CHR ''x''\<rparr>] \<and>
   (\<exists>s e. PackNodes [Some \<lparr>Addr = Some \<lparr>IP = ''abcd'', Port = 1\<rparr>, ID = []\<rparr>] = Inr s \<and> unpackNodes s = Inl e)"
proof -
  let ?c = "\<lparr>c_id = replicate 20 CHR ''x'', c_ip = (CHR 0x7F, CHR 0x00, CHR 0x00, CHR 0x01), c_port = 6881\<rparr>"
  let ?nds = "[Some \<lparr>Addr = Some \<lparr>IP = ''abcd'', Port = 1\<rparr>, ID = []\<rparr>]"
  obtain s where s: "PackNodes ?nds = Inr s"
    by (auto simp: PackNodes_def EncodeCompactIPPortInfo_def Let_def)
  have "\<forall>c \<in> set [?c]. contact_ok c" by (simp add: contact_ok_def)
  from compact_nodes_read [OF this, of ?nds s] s show ?thesis by (simp add: contact_node_def)
qed

section \<open>The dispatcher\<close>

text \<open>
  C12. The dispatcher refines a registry of running transactions. Under every interleaving of the
  goroutines, the map holds exactly the boxes that have not removed themselves, each under its own ID;
  an \<open>Add\<close> succeeds exactly when its ID is free; launches, timeouts and ends happen to running
  transactions only, removals once, \<open>OnFinish\<close> afterwards; and the phase of a box never goes back.
\<close>

theorem dispatcher_map:
  assumes "runs NewTransactionDispatcher tr d" and "runs d tr' d'"
  shows "(transactions d tid = Some b) =
      (b < length (boxes d) \<and> box_id (boxes d ! b) = tid \<and> active (phase_of d b)) \<and>
    allow_all tr new_registry = Some (registry_of d) \<and>
    (\<forall>c < length (boxes d). phase_of d c \<le> phase_of d' c)"
proof (intro conjI)
  show "(transactions d tid = Some b) = (b < length (boxes d) \<and> box_id (boxes d ! b) = tid \<and> active (phase_of d b))"
    using runs_registered [OF assms(1) registered_new] unfolding registered_def by blast
  show "allow_all tr new_registry = Some (registry_of d)"
    using runs_allowed [OF assms(1) registered_new calls_ok_new] by simp
  show "\<forall>c < length (boxes d). phase_of d c \<le> phase_of d' c"
    using runs_forward [OF assms(2)] by blast
qed

definition one_added :: dispatcher where
  "one_added = \<lparr>transactions = [''ab'' \<mapsto> 0], boxes = [\<lparr>box_id = ''ab'', phase = Launching\<rparr>], calls = []\<rparr>"

lemma one_added_runs: "runs NewTransactionDispatcher [Added ''ab'' True] one_added"
  by (rule runs_step, rule step.add)
    (simp add: Add_def NewTransactionDispatcher_def newTransactionBox_def one_added_def)

theorem dispatcher_map_witness:
  "(transactions one_added ''ab'' = Some 0) =
    (0 < length (boxes one_added) \<and> box_id (boxes one_added ! 0) = ''ab'' \<and> active (phase_of one_added 0)) \<and>
   allow_all [Added ''ab'' True] new_registry = Some (registry_of one_added)"
  using dispatcher_map [OF one_added_runs runs.refl, of "''ab''" 0] by blast

text \<open>
  C15. The life of a transaction: whatever else happens, its \<open>OnLaunch\<close> is called once and before
  everything else its loop does, then \<open>OnTimeout\<close> any number of times, and when its loop has ended
  there was one reason, an \<open>OnTimeout\<close> that said so or the channel \<open>end\<close>, and one \<open>OnFinish\<close>, last.
\<close>

theorem transaction_lifecycle:
  assumes "runs NewTransactionDispatcher tr d" and "b < length (boxes d)"
  shows "lifecycle b (phase_of d b) (history b tr)"
  using runs_lived [OF assms(1) registered_new calls_ok_new lived_new] assms(2) by (simp add: lived_def)

theorem transaction_lifecycle_witness: "lifecycle 0 Launching (history 0 [Added ''ab'' True])"
  using transaction_lifecycle [OF one_added_runs, of 0] by (simp add: one_added_def)

text \<open>
  C22. A transaction whose end has been asked for ends. Take any infinite execution from a reachable
  state in which a box waits and a goroutine is in its \<open>done\<close> (a \<open>Remove\<close>, or a message after which the
  transaction wants no more), whatever else runs, as long as the scheduler is fair to the box. Then the
  box leaves its loop for good, its goroutine calls \<open>OnFinish\<close>, and it is out of the map. It left because
  it took the end; or its timer came first and \<open>OnTimeout\<close> said stop, and then every goroutine in \<open>done\<close>
  is still there at all times.
\<close>

theorem waiting_box_ends:
  assumes "runs NewTransactionDispatcher tr (f 0)" and "execution f ev" and "box_scheduled b f ev"
    and "b < length (boxes (f 0))" and "phase_of (f 0) b = Waiting" and "Ending b \<in> set (calls (f 0))"
  shows "\<exists>k m. k < m \<and> (\<forall>j \<le> k. phase_of (f j) b = Waiting) \<and>
    (ev k = [Ended b] \<or> ev k = [TimedOut b False] \<and> (\<forall>j. Ending b \<in> set (calls (f j)))) \<and>
    (\<forall>j \<ge> m. phase_of (f j) b = Finished \<and> transactions (f j) (box_id (boxes (f 0) ! b)) \<noteq> Some b)"
  using box_ends [OF assms(2,3) runs_registered [OF assms(1) registered_new] assms(4-6)] .

definition one_ending :: dispatcher where
  "one_ending = \<lparr>transactions = [''ab'' \<mapsto> 0], boxes = [\<lparr>box_id = ''ab'', phase = Waiting\<rparr>], calls = [Ending 0]\<rparr>"

lemma one_ending_runs: "runs NewTransactionDispatcher [Added ''ab'' True, Launched 0] one_ending"
proof -
  let ?d = "set_phase 0 Waiting one_added"
  have "step one_added [Launched 0] ?d" by (rule step.launch) (simp_all add: one_added_def)
  moreover have "Remove ''ab'' ?d = one_ending"
    by (simp add: one_ending_def one_added_def Remove_def set_phase_def)
  then have "step ?d [] one_ending" using step.remove [of ?d "''ab''"] by simp
  ultimately show ?thesis using runs.snoc [OF runs.snoc [OF one_added_runs]] by force
qed

text \<open>An execution: the end, the removal, \<open>OnFinish\<close>, and then calls of \<open>Remove\<close> that find nothing.\<close>

definition with_box :: "phase \<Rightarrow> dispatcher" where
  "with_box p = \<lparr>transactions = (if active p then [''ab'' \<mapsto> 0] else (\<lambda>_. None)),
     boxes = [\<lparr>box_id = ''ab'', phase = p\<rparr>], calls = []\<rparr>"

fun ending_run :: "nat \<Rightarrow> dispatcher" where
  "ending_run 0 = one_ending"
| "ending_run (Suc 0) = with_box Leaving"
| "ending_run (Suc (Suc 0)) = with_box Finishing"
| "ending_run n = with_box Finished"

fun ending_events :: "nat \<Rightarrow> event list" where
  "ending_events 0 = [Ended 0]"
| "ending_events (Suc 0) = [Removed ''ab'']"
| "ending_events (Suc (Suc 0)) = [OnFinished 0]"
| "ending_events n = []"

lemma ending_run_execution: "execution ending_run ending_events"
  unfolding execution_def
proof
  fix n
  show "step (ending_run n) (ending_events n) (ending_run (Suc n))"
  proof (induction n rule: ending_run.induct)
    case 1
    have "with_box Leaving = end_call 0 (set_phase 0 Leaving one_ending)"
      by (simp add: with_box_def one_ending_def set_phase_def end_call_def)
    then show ?case using step.ending [of 0 one_ending 0 Leaving] by (simp add: one_ending_def end_box_def)
  next
    case 2
    have "with_box Finishing = set_phase 0 Finishing (removeSelf 0 (with_box Leaving))"
      by (auto simp: with_box_def set_phase_def removeSelf_def)
    then show ?case using step.rmself [of 0 "with_box Leaving"] by (simp add: with_box_def)
  next
    case 3
    show ?case using step.finish [of 0 "with_box Finishing"] by (simp add: with_box_def set_phase_def)
  next
    case (4 v)
    have "Remove [] (with_box Finished) = with_box Finished" by (simp add: Remove_def with_box_def)
    then show ?case using step.remove [of "with_box Finished" "[]"] by simp
  qed
qed

lemma ending_run_later: "3 \<le> n \<Longrightarrow> ending_run n = with_box Finished"
  by (induction n rule: ending_run.induct) simp_all

lemma ending_run_scheduled: "box_scheduled 0 ending_run ending_events"
proof -
  have over: "weakly_fair P A" if "\<And>m. 3 \<le> m \<Longrightarrow> \<not> P m" for P A
    unfolding weakly_fair_def using that by (meson nat_le_linear)
  show ?thesis
    unfolding box_scheduled_def by (intro conjI over) (simp_all add: ending_run_later with_box_def)
qed

theorem waiting_box_ends_witness:
  "\<exists>k m. k < m \<and> (ending_events k = [Ended 0] \<or> ending_events k = [TimedOut 0 False]) \<and>
    (\<forall>j \<ge> m. phase_of (ending_run j) 0 = Finished \<and> transactions (ending_run j) ''ab'' \<noteq> Some 0)"
proof -
  have init: "runs NewTransactionDispatcher [Added ''ab'' True, Launched 0] (ending_run 0)" "0 < length (boxes (ending_run 0))"
      "phase_of (ending_run 0) 0 = Waiting" "Ending 0 \<in> set (calls (ending_run 0))" "box_id (boxes (ending_run 0) ! 0) = ''ab''"
    using one_ending_runs by (simp_all add: one_ending_def)
  show ?thesis
    using waiting_box_ends [OF init(1) ending_run_execution ending_run_scheduled init(2-4)] unfolding init(5) by blast
qed

text \<open>
  C23. A goroutine that comes too late waits for ever: once the loop of a box has been left, whoever
  is inside its \<open>done\<close> stays there, in every continuation. (Two calls of \<open>Remove\<close>, or a \<open>Remove\<close>
  beside a timeout, are enough.)
\<close>

theorem late_done_blocks:
  assumes "b < length (boxes d)" and "left_loop (phase_of d b)" and "Ending b \<in> set (calls d)" and "runs d tr d'"
  shows "Ending b \<in> set (calls d')"
  using runs_stuck [OF assms(4,1,2)] assms(3) by (metis count_list_0_iff le_zero_eq)

definition both_removed :: dispatcher where
  "both_removed = \<lparr>transactions = [''ab'' \<mapsto> 0], boxes = [\<lparr>box_id = ''ab'', phase = Leaving\<rparr>], calls = [Ending 0]\<rparr>"

lemma two_removals:
  "runs NewTransactionDispatcher [Added ''ab'' True, Launched 0, Ended 0] both_removed"
proof -
  let ?d2 = "set_phase 0 Waiting one_added"
  have "step one_added [Launched 0] ?d2" by (rule step.launch) (simp_all add: one_added_def)
  moreover have "step ?d2 [] (Remove ''ab'' ?d2)" by (rule step.remove)
  moreover have "step (Remove ''ab'' ?d2) [] (Remove ''ab'' (Remove ''ab'' ?d2))" by (rule step.remove)
  moreover have "step (Remove ''ab'' (Remove ''ab'' ?d2)) [Ended 0] both_removed"
  proof -
    have "end_call 0 (set_phase 0 Leaving (Remove ''ab'' (Remove ''ab'' ?d2))) = both_removed"
      by (simp add: both_removed_def one_added_def Remove_def set_phase_def end_call_def)
    moreover have "step (Remove ''ab'' (Remove ''ab'' ?d2)) [Ended 0]
        (end_call 0 (set_phase 0 Leaving (Remove ''ab'' (Remove ''ab'' ?d2))))"
      by (rule step.ending) (simp_all add: one_added_def Remove_def set_phase_def end_box_def)
    ultimately show ?thesis by simp
  qed
  ultimately show ?thesis
    using runs.snoc [OF runs.snoc [OF runs.snoc [OF runs.snoc [OF one_added_runs]]]] by force
qed

definition removed_once :: dispatcher where
  "removed_once = \<lparr>transactions = (\<lambda>_. None), boxes = [\<lparr>box_id = ''ab'', phase = Finishing\<rparr>], calls = [Ending 0]\<rparr>"

lemma removal_goes_on: "runs both_removed [Removed ''ab''] removed_once"
proof (rule runs_step)
  have "step both_removed [Removed (box_id (boxes both_removed ! 0))] (set_phase 0 Finishing (removeSelf 0 both_removed))"
    by (rule step.rmself) (simp_all add: both_removed_def)
  moreover have "set_phase 0 Finishing (removeSelf 0 both_removed) = removed_once"
    by (auto simp: both_removed_def removed_once_def removeSelf_def set_phase_def)
  ultimately show "step both_removed [Removed ''ab''] removed_once" by (simp add: both_removed_def)
qed

theorem late_done_blocks_witness:
  "runs NewTransactionDispatcher [Added ''ab'' True, Launched 0, Ended 0] both_removed \<and>
   runs both_removed [Removed ''ab''] removed_once \<and> Ending 0 \<in> set (calls removed_once)"
  using two_removals removal_goes_on late_done_blocks [OF _ _ _ removal_goes_on, of 0]
  by (simp add: both_removed_def left_loop_def)

section \<open>The host\<close>

text \<open>
  C24. Serving: of whatever arrives, in any order and number, every query and every response becomes one
  job, with the sender's address and the transaction ID, name and body it carries, in the order of
  arrival; errors of other nodes, messages of unknown types, encodings that are no dictionaries and
  failed reads become none and do not end the loop. \<open>Serv\<close> returns exactly when the context is done at
  the head of a round, and reads nothing after that.
\<close>

theorem serving:
  assumes "\<forall>a \<in> set as. arrival_ok a \<and> length (datagram a) \<le> 8196"
  shows "Serv btlet_env (map as_round as) = (False, concat (map expected as)) \<and>
    Serv btlet_env (map as_round as @ Cancelled # rs) = (True, concat (map expected as))"
  using Serv_arrivals [OF assms] by simp

theorem serving_witness:
  "Serv btlet_env (map as_round [Broken, Asks loopback ''aa'' ''ping'' (Some (BDict [(''id'', BStr ''x'')])), Noise loopback (BInt 7),
      Fails loopback ''bb'' (201, ''no''), Answers loopback ''cc'' (Some (BDict []))] @ Cancelled # [ReadFailed]) =
    (True, [DisposeQuery loopback ''aa'' ''ping'' (Some (benc (BDict [(''id'', BStr ''x'')]))),
            DisposeResponse loopback ''cc'' (Some (benc (BDict [])))])"
proof -
  let ?as = "[Broken, Asks loopback ''aa'' ''ping'' (Some (BDict [(''id'', BStr ''x'')])), Noise loopback (BInt 7),
      Fails loopback ''bb'' (201, ''no''), Answers loopback ''cc'' (Some (BDict []))]"
  have "\<forall>a \<in> set ?as. arrival_ok a \<and> length (datagram a) \<le> 8196"
    by (simp add: message_dict_def kerr_bval_def len_ok_def bstr_def show_int_def show_nat.simps)
  from serving [OF this, of "[ReadFailed]"] show ?thesis
    by (simp del: benc.simps as_round.simps append.simps)
qed

section \<open>The crawler\<close>

lemma sybil_id_close:
  assumes "length dst = 20" and "length own = 20"
  shows "\<exists>i. makeID dst own = Inr i \<and> length i = 20 \<and> 120 \<le> common_prefix (bits dst) (bits i)"
  using makeID_ok [of dst own] sybil_prefix [OF assms] assms by auto

text \<open>
  C11. From the datagram to the callback: an \<open>announce_peer\<close> that fits the buffer, with an ID, an info
  hash, a port and a token, whatever else is in its dictionaries, becomes a job; running it answers
  the sender under the same transaction ID, asks it for nodes if it is new, and reports the info hash
  with the sender's address and the announced port, once.
\<close>

theorem announce_reported:
  assumes "bval_ok (BDict kvs)" and "length (benc (BDict kvs)) \<le> 8196"
    and "map_of kvs ''t'' = Some (BStr tid)" "map_of kvs ''y'' = Some (BStr ''q'')"
    "map_of kvs ''q'' = Some (BStr ''announce_peer'')" "map_of kvs ''a'' = Some (BDict akvs)"
    "map_of kvs ''e'' = map_option kerr_bval e"
    and "map_of akvs ''id'' = Some (BStr i)" and "map_of akvs ''info_hash'' = Some (BStr ih)"
    and "map_of akvs ''port'' = Some (BInt p)" and "map_of akvs ''token'' = Some (BStr tok)"
    and "15 \<le> length own" and "id_ok i"
  shows "\<exists>job. job_of btlet_env (Received src (benc (BDict kvs))) = Some job \<and>
    sybil_dispose btlet_env B rand own True disp t job =
      (None, t, Sent (Some src) (pong tid (sybil_id i own)) # ask_back B own src i t @ [Crawled ih (IP src) p])"
  using assms by (rule announce_to_callback)

definition set_bloom :: "string set bloom" where
  "set_bloom = \<lparr>NewWithEstimates = (\<lambda>n. {}), AddString = (\<lambda>f k. insert k f), TestString = (\<lambda>f k. k \<in> f),
     TestAndAddString = (\<lambda>f k. (k \<in> f, insert k f)), ClearAll = (\<lambda>f. {})\<rparr>"

lemma set_bloom_ok: "bloom_ok set_bloom"
  by (auto simp: bloom_ok_def set_bloom_def)

definition own_id :: bytes where
  "own_id = replicate 20 CHR ''o''"

definition sample :: "string set sybilTransaction" where
  "sample = newSybilTransaction set_bloom (\<lambda>n. replicate n CHR ''t'') (\<lambda>n. replicate n CHR ''g'') []"

definition sample_args :: "(bytes \<times> bval) list" where
  "sample_args = [(''id'', BStr (replicate 20 CHR ''p'')), (''info_hash'', BStr ''hash''), (''port'', BInt 6881), (''token'', BStr ''k'')]"

definition sample_query :: "bytes \<Rightarrow> (bytes \<times> bval) list" where
  "sample_query q = [(''a'', BDict sample_args), (''q'', BStr q), (''t'', BStr ''aa''), (''y'', BStr ''q'')]"

lemma sample_args_ok: "bval_ok (BDict sample_args)" "bval_ok (BDict (sample_query ''announce_peer''))"
  by (simp_all add: sample_args_def sample_query_def len_ok_def)

theorem announce_reported_witness:
  "\<exists>job. job_of btlet_env (Received loopback (benc (BDict (sample_query ''announce_peer'')))) = Some job \<and>
    sybil_dispose btlet_env set_bloom (\<lambda>n. []) own_id True NewTransactionDispatcher sample job =
      (None, sample, Sent (Some loopback) (pong ''aa'' (sybil_id (replicate 20 CHR ''p'') own_id)) #
         ask_back set_bloom own_id loopback (replicate 20 CHR ''p'') sample @ [Crawled ''hash'' (IP loopback) 6881])"
proof (rule announce_reported)
  show "length (benc (BDict (sample_query ''announce_peer''))) \<le> 8196"
    by (simp add: sample_query_def sample_args_def bstr_def show_int_def show_nat.simps)
qed (simp_all add: sample_args_ok sample_query_def own_id_def id_ok_def, simp_all add: sample_args_def len_ok_def)

text \<open>
  C26. The answers to queries: a \<open>ping\<close> and a \<open>get_peers\<close> are answered under their transaction ID with
  an ID close to the asker's, the latter with an empty list of nodes and a fresh token; a \<open>find_node\<close>
  and a query the crawler does not know are not. Each makes it ask the sender for nodes if it is new.
\<close>

theorem queries_answered:
  assumes "15 \<le> length own" and "id_ok i"
  shows "(bval_ok (BDict kvs) \<and> map_of kvs ''id'' = Some (BStr i) \<longrightarrow>
      OnQuery btlet_env B rand own crawl src tid ''ping'' (Some (benc (BDict kvs))) t =
        (None, Sent (Some src) (pong tid (sybil_id i own)) # ask_back B own src i t)) \<and>
    (bval_ok (BDict kvs) \<and> map_of kvs ''id'' = Some (BStr i) \<and> map_of kvs ''info_hash'' = Some (BStr ih) \<and>
        RandomString rand 20 \<noteq> [] \<longrightarrow>
      OnQuery btlet_env B rand own crawl src tid ''get_peers'' (Some (benc (BDict kvs))) t =
        (None, Sent (Some src) (peers_reply tid (sybil_id i own) (RandomString rand 20)) # ask_back B own src i t)) \<and>
    (q \<notin> {''ping'', ''get_peers'', ''announce_peer''} \<longrightarrow>
      OnQuery btlet_env B rand own crawl src tid q args t = (None, ask_back B own src [] t))"
  by (simp add: OnQuery_ping [OF _ _ assms] OnQuery_get_peers [OF _ _ _ assms] OnQuery_other [OF _ assms(1)]
    del: benc.simps bval_ok.simps)

lemma sample_args_get:
  "map_of sample_args ''id'' = Some (BStr (replicate 20 CHR ''p''))" "map_of sample_args ''info_hash'' = Some (BStr ''hash'')"
  by (simp_all add: sample_args_def)

theorem queries_answered_witness:
  "OnQuery btlet_env set_bloom (\<lambda>n. []) own_id False loopback ''aa'' ''ping''
        (Some (benc (BDict [(''id'', BStr (replicate 20 CHR ''p''))]))) sample =
      (None, Sent (Some loopback) (pong ''aa'' (sybil_id (replicate 20 CHR ''p'') own_id)) #
        ask_back set_bloom own_id loopback (replicate 20 CHR ''p'') sample) \<and>
   OnQuery btlet_env set_bloom (\<lambda>n. replicate n CHR ''t'') own_id False loopback ''aa'' ''get_peers'' (Some (benc (BDict sample_args))) sample =
      (None, Sent (Some loopback) (peers_reply ''aa'' (sybil_id (replicate 20 CHR ''p'') own_id) (replicate 20 CHR ''t'')) #
        ask_back set_bloom own_id loopback (replicate 20 CHR ''p'') sample)"
proof -
  have own: "15 \<le> length own_id" "id_ok (replicate 20 CHR ''p'')" by (simp_all add: own_id_def id_ok_def)
  have "bval_ok (BDict [(''id'', BStr (replicate 20 CHR ''p''))])" by (simp add: len_ok_def)
  then show ?thesis
    using queries_answered [OF own, THEN conjunct1, of "[(''id'', BStr (replicate 20 CHR ''p''))]" set_bloom "\<lambda>n. []" False loopback "''aa''" sample]
      queries_answered [OF own, THEN conjunct2, THEN conjunct1, of sample_args "''hash''" "\<lambda>n. replicate n CHR ''t''" set_bloom False loopback "''aa''" sample]
    by (simp add: sample_args_ok(1) sample_args_get RandomString_def del: benc.simps bval_ok.simps)
qed

text \<open>
  C27. The ID the crawler answers with is one of 20 bytes that is close to the other node's, whatever the
  crawler's own ID is: they have the first 120 bits in common. But a query whose ID has one to fourteen
  bytes makes the crawler panic in the worker, \<open>makeID\<close> slices out of range. Exactly these lengths do.
\<close>

theorem short_id_panics:
  assumes "bval_ok (BDict kvs)" and "map_of kvs ''id'' = Some (BStr i)" and "15 \<le> length own"
  shows "(\<exists>msg. fst (OnQuery btlet_env B rand own crawl src tid ''ping'' (Some (benc (BDict kvs))) t) = Some (Panic msg)) =
      (0 < length i \<and> length i < 15) \<and>
    (length i = 20 \<and> length own = 20 \<longrightarrow>
      (\<exists>j. makeID i own = Inr j \<and> length j = 20 \<and> 120 \<le> common_prefix (bits i) (bits j)))"
  using OnQuery_short_id [OF assms, where B = B and rand = rand and crawl = crawl and src = src and tid = tid and t = t]
    OnQuery_ping [OF assms, where B = B and rand = rand and crawl = crawl and src = src and tid = tid and t = t]
    sybil_id_close [of i own]
  by (cases "id_ok i") (auto simp: id_ok_def simp del: benc.simps)

theorem short_id_panics_witness:
  "(\<exists>msg. fst (OnQuery btlet_env set_bloom (\<lambda>n. []) own_id False loopback ''aa'' ''ping''
      (Some (benc (BDict [(''id'', BStr ''short'')]))) sample) = Some (Panic msg)) \<and>
   (\<exists>j. makeID (replicate 20 CHR ''a'') own_id = Inr j \<and> length j = 20 \<and>
      120 \<le> common_prefix (bits (replicate 20 CHR ''a'')) (bits j))"
proof -
  have i: "bval_ok (BDict [(''id'', BStr (replicate 20 CHR ''a''))])" "map_of [(''id'', BStr (replicate 20 CHR ''a''))] ''id'' = Some (BStr (replicate 20 CHR ''a''))"
      "15 \<le> length own_id" "length (replicate 20 CHR ''a'') = 20 \<and> length own_id = 20"
    by (simp_all add: len_ok_def own_id_def)
  have "\<exists>j. makeID (replicate 20 CHR ''a'') own_id = Inr j \<and> length j = 20 \<and>
      120 \<le> common_prefix (bits (replicate 20 CHR ''a'')) (bits j)"
    using short_id_panics [OF i(1-3), THEN conjunct2] i(4) by blast
  then show ?thesis
    using short_id_panics [of "[(''id'', BStr ''short'')]" "''short''" own_id] by (simp add: len_ok_def own_id_def)
qed

text \<open>
  C28. Responses: of the nodes a response lists, the crawler asks exactly those that its filter does not
  know, the sender included by now, each once, in the order of the list and under its own transaction
  ID and current target.
\<close>

theorem response_asks_new_nodes:
  assumes "bval_ok (BDict kvs)" and "map_of kvs ''id'' = Some (BStr i)"
    and "map_of kvs ''nodes'' = Some (BStr (concat (map compact cs)))" and "\<forall>c \<in> set cs. contact_ok c"
    and "map_of kvs ''token'' = map_option BStr tok" and "map_of kvs ''values'' = map_option (\<lambda>ss. BList (map BStr ss)) vals"
    and "15 \<le> length own" and "t1 = t\<lparr>filt := snd (AddNode B \<lparr>Addr = Some src, ID = i\<rparr> (filt t))\<rparr>"
  shows "sybil_OnResponse btlet_env B own src (Some (benc (BDict kvs))) t =
    (Inr True, t1, map (\<lambda>nd. Sent (Addr nd) (find_node_msg (trans_id t) (sybil_id (ID nd) own) (target t)))
       (filter (\<lambda>nd. Check B (Some nd) (filt t1) = Inr True) (map contact_node cs)))"
  using assms by (rule OnResponse_contacts)

definition sample_nodes :: "(bytes \<times> bval) list" where
  "sample_nodes = [(''id'', BStr own_id), (''nodes'', BStr [])]"

lemma sample_nodes_ok:
  "bval_ok (BDict sample_nodes)" "map_of sample_nodes ''id'' = Some (BStr own_id)" "map_of sample_nodes ''nodes'' = Some (BStr [])"
  "map_of sample_nodes ''token'' = None" "map_of sample_nodes ''values'' = None" "length own_id = 20"
  by (simp_all add: sample_nodes_def len_ok_def own_id_def)

theorem response_asks_new_nodes_witness:
  "fst (sybil_OnResponse btlet_env set_bloom own_id loopback
     (Some (benc (BDict sample_nodes))) sample) = Inr True"
  using response_asks_new_nodes [where kvs = sample_nodes and i = own_id and cs = "[]" and tok = None and vals = None and own = own_id
      and t = sample and B = set_bloom and src = loopback, OF sample_nodes_ok(1) _ _ _ _ _ _ HOL.refl]
  by (simp add: sample_nodes_ok(2-6) own_id_def del: benc.simps)

text \<open>
  The filter remembers: a node that answered is not asked again until the next reset, whatever it
  queries and however often it responds.
\<close>

lemma answered_not_asked:
  assumes "bloom_ok B" and "sybil_OnResponse E B own src resp t = (Inr True, t1, es)" and "filt t1 \<noteq> filt t"
  shows "ask_back B own src i t1 = [] \<and> Check B (Some \<lparr>Addr = Some src, ID = i\<rparr>) (filt t1) = Inr False"
proof -
  obtain j where "filt t1 = snd (AddNode B \<lparr>Addr = Some src, ID = j\<rparr> (filt t))"
    using sybil_OnResponse_state [OF assms(2)] assms(3) by auto
  then have "TestString B (core (filt t1)) (addr_key src)"
    using AddNode_known(4) [OF assms(1), of "\<lparr>Addr = Some src, ID = j\<rparr>" src] by simp
  then show ?thesis by (simp add: ask_back_def Check_def)
qed

lemma answered_not_asked_witness:
  "\<exists>t1 es. sybil_OnResponse btlet_env set_bloom own_id loopback
     (Some (benc (BDict sample_nodes))) sample = (Inr True, t1, es) \<and>
   ask_back set_bloom own_id loopback own_id t1 = []"
proof -
  let ?t1 = "sample\<lparr>filt := snd (AddNode set_bloom \<lparr>Addr = Some loopback, ID = own_id\<rparr> (filt sample))\<rparr>"
  have r: "sybil_OnResponse btlet_env set_bloom own_id loopback
     (Some (benc (BDict sample_nodes))) sample = (Inr True, ?t1, [])"
    using OnResponse_contacts [where kvs = sample_nodes and i = own_id and cs = "[]" and tok = None and vals = None and own = own_id
        and t = sample and B = set_bloom and src = loopback, OF sample_nodes_ok(1) _ _ _ _ _ _ HOL.refl]
    by (simp add: sample_nodes_ok(2-6) own_id_def del: benc.simps)
  have "filt ?t1 \<noteq> filt sample"
    by (simp add: filter_defs set_bloom_def sample_def newSybilTransaction_def newNodeFilter_def)
  then show ?thesis using answered_not_asked [OF set_bloom_ok r] r by blast
qed





section \<open>The crawler as a whole\<close>

text \<open>
  C13. The crawler does nothing without a reason. Under every interleaving of datagrams, workers, the
  dispatcher's goroutines, timers and stimulation: every response it sends goes to the sender of a
  \<open>ping\<close>, \<open>get_peers\<close> or \<open>announce_peer\<close> that arrived, under its transaction ID; whatever else it sends
  is a \<open>find_node\<close> under its own ID; every peer it reports has announced itself from that address; no
  address gets more responses than datagrams came from it; and the transaction's channel is closed
  exactly when it has finished, so never twice.
\<close>

theorem crawler_reasons:
  assumes "start_of (Crawl_start B rand1 rand2 rand3 new_host c) = Some w0"
    and "world_runs E B resolve own w0 tr w"
  shows "(\<forall>e. Did e \<in> set tr \<longrightarrow> justified E (trans_id (sybil w0)) tr e) \<and>
    tally (response_to a) tr \<le> tally (arrived_from a) tr \<and>
    finish (sybil w) = (phase_of (wdisp w) 0 = Finished)"
  using runs_reasons [OF assms(2) start_ok(1) [OF assms(1)]] runs_balanced [OF assms(2) start_ok(2) [OF assms(1)], of a]
    runs_closes_once [OF assms(2) start_ok(3) [OF assms(1)]]
  by (auto simp: reasons_def balanced_def closes_once_def)

definition crawl_world :: "string set world" where
  "crawl_world = \<lparr>wdisp = NewTransactionDispatcher\<lparr>transactions := [''tt'' \<mapsto> 0], boxes := [newTransactionBox ''tt'']\<rparr>,
     sybil = sample, jobs = []\<rparr>"

lemma crawl_world_start:
  "start_of (Crawl_start set_bloom (\<lambda>n. []) (\<lambda>n. replicate n CHR ''t'') (\<lambda>n. replicate n CHR ''g'')
     (Inr \<lparr>maxWorkers = 0\<rparr>) \<lparr>host = [], nodeID = own_id, crawler_workers = 1\<rparr>) = Some crawl_world"
  by (simp add: start_of_def Crawl_start_def Add_def NewTransactionDispatcher_def sample_def newSybilTransaction_def
      RandomString_def crawl_world_def numeral_2_eq_2)

lemma announce_run:
  "\<exists>es w. world_runs btlet_env set_bloom (\<lambda>h. None) own_id crawl_world
      (Arrived loopback (benc (BDict (sample_query ''announce_peer''))) # map Did es) w \<and>
    Crawled ''hash'' (IP loopback) 6881 \<in> set es"
proof -
  let ?data = "benc (BDict (sample_query ''announce_peer''))"
  have len: "length ?data \<le> 8196"
    by (simp add: sample_query_def sample_args_def bstr_def show_int_def show_nat.simps)
  obtain job es where job: "job_of btlet_env (Received loopback ?data) = Some job"
      "sybil_dispose btlet_env set_bloom (\<lambda>n. []) own_id True NewTransactionDispatcher sample job = (None, sample, es)"
      "Crawled ''hash'' (IP loopback) 6881 \<in> set es"
    using announce_to_callback [OF sample_args_ok(2) len, of "''aa''" sample_args None "replicate 20 CHR ''p''" "''hash''" 6881 "''k''"
        own_id loopback set_bloom "\<lambda>n. []" NewTransactionDispatcher sample]
    by (force simp: sample_query_def sample_args_def own_id_def id_ok_def)
  obtain src tid q args r where q: "job = DisposeQuery src tid q args"
      "OnQuery btlet_env set_bloom (\<lambda>n. []) own_id True src tid q args sample = (r, es)"
    using job(2,3) by (auto simp: sybil_dispose_def NewTransactionDispatcher_def split: dispose_call.splits prod.splits)
  let ?w = "crawl_world\<lparr>jobs := jobs crawl_world @ [spawned job]\<rparr>"
  have "world_step btlet_env set_bloom (\<lambda>h. None) own_id ?w (map Did es) (drop_job 0 ?w)"
    by (rule world_step.query [where src = src and tid = tid and q = q and args = args and rand = "\<lambda>n. []" and crawl = True])
      (use q in \<open>simp_all add: crawl_world_def\<close>)
  then have "world_runs btlet_env set_bloom (\<lambda>h. None) own_id crawl_world (([] @ [Arrived loopback ?data]) @ map Did es) (drop_job 0 ?w)"
    by (rule world_runs.more [OF world_runs.more [OF world_runs.start world_step.arrive [OF job(1)]]])
  then show ?thesis using job(3) by auto
qed

theorem crawler_reasons_witness:
  "\<exists>tr. Did (Crawled ''hash'' (IP loopback) 6881) \<in> set tr \<and> tally (response_to loopback) tr \<le> tally (arrived_from loopback) tr \<and>
    justified btlet_env (trans_id (sybil crawl_world)) tr (Crawled ''hash'' (IP loopback) 6881)"
proof -
  obtain es w where r: "world_runs btlet_env set_bloom (\<lambda>h. None) own_id crawl_world
      (Arrived loopback (benc (BDict (sample_query ''announce_peer''))) # map Did es) w"
    "Crawled ''hash'' (IP loopback) 6881 \<in> set es"
    using announce_run by blast
  have "Did (Crawled ''hash'' (IP loopback) 6881) \<in> set (Arrived loopback (benc (BDict (sample_query ''announce_peer''))) # map Did es)"
    using r(2) by simp
  with crawler_reasons [OF crawl_world_start r(1), of loopback] show ?thesis by blast
qed

end
