(* ===== verification/Btsniffer.thy ===== *)
theory Btsniffer
  imports Bt_Metadata Sniffer "HOL-Library.Multiset"
begin

text \<open>
  The example program, \<open>example/btsniffer/btsniffer.go\<close>: a pipeline that turns metadata into outlines
  and sends them through a channel to \<open>main\<close>, which prints them. \<open>DisposeMeta\<close> runs in the goroutines
  of the spider, so any number of them may wait for the channel; \<open>main\<close> is the one receiver.
\<close>

section \<open>Outlines\<close>

record outline_file =
  path :: bytes
  file_size :: "64 word"

record metaOutline =
  link :: string
  title :: bytes
  total_size :: "64 word"
  files :: "outline_file list"

definition empty_outline :: metaOutline where
  "empty_outline = \<lparr>link = [], title = [], total_size = 0, files = []\<rparr>"

definition mo_SetName :: "bytes \<Rightarrow> metaOutline \<Rightarrow> metaOutline" where
  "mo_SetName name mo = mo\<lparr>title := name\<rparr>"

definition magnet :: "bytes \<Rightarrow> string" where
  "magnet hash = ''magnet:?xt=urn:btih:'' @ hex hash"

definition mo_SetHash :: "bytes \<Rightarrow> metaOutline \<Rightarrow> metaOutline" where
  "mo_SetHash hash mo = mo\<lparr>link := magnet hash\<rparr>"

text \<open>The sum of the sizes wraps around.\<close>

definition mo_AddFile :: "bytes \<Rightarrow> 64 word \<Rightarrow> metaOutline \<Rightarrow> metaOutline" where
  "mo_AddFile p n mo = mo\<lparr>files := files mo @ [\<lparr>path = p, file_size = n\<rparr>], total_size := total_size mo + n\<rparr>"

text \<open>The methods of the outline, as \<open>FillOutline\<close> calls them.\<close>

fun outline_method :: "outline_call \<Rightarrow> metaOutline \<Rightarrow> metaOutline" where
  "outline_method (SetName name) = mo_SetName name"
| "outline_method (AddFile p n) = mo_AddFile p (word_of_int n)"

section \<open>The pipeline\<close>

definition SimplePipeline_Has :: "bytes \<Rightarrow> bool" where
  "SimplePipeline_Has ih = False"

text \<open>
  \<open>DisposeMeta\<close> up to the send: how it ended, and the outline it sends, if any. An error of
  \<open>FillOutline\<close> makes it return, a panic ends its goroutine.
\<close>

definition SimplePipeline_DisposeMeta :: "env \<Rightarrow> bytes \<Rightarrow> bytes \<Rightarrow> abort option \<times> metaOutline option" where
  "SimplePipeline_DisposeMeta E hash meta =
     (case FillOutline E meta of
        (Some (Err e), calls) \<Rightarrow> (None, None)
      | (Some a, calls) \<Rightarrow> (Some a, None)
      | (None, calls) \<Rightarrow> (None, Some (mo_SetHash hash (fold outline_method calls empty_outline))))"

text \<open>
  The channel with its buffer, the goroutines that wait to send, and what \<open>main\<close> has received and
  written so far.
\<close>

record SimplePipeline =
  ch_cap :: nat
  ch_buf :: "metaOutline list"
  senders :: "metaOutline list"
  shown :: "metaOutline list"
  total :: nat
  stdout :: string

definition NewSimplePipelineWithBuf :: "nat \<Rightarrow> SimplePipeline" where
  "NewSimplePipelineWithBuf bufSize =
     \<lparr>ch_cap = bufSize, ch_buf = [], senders = [], shown = [], total = 0, stdout = ''Start crawl ...'' @ [CHR 0x0A]\<rparr>"

definition NewSimplePipeline :: SimplePipeline where
  "NewSimplePipeline = NewSimplePipelineWithBuf 0"

text \<open>The pipeline of \<open>main\<close>.\<close>

definition main_pipeline :: SimplePipeline where
  "main_pipeline = NewSimplePipelineWithBuf 512"

text \<open>What \<open>main\<close> writes for one outline, the \<open>n\<close>th.\<close>

definition println :: "string list \<Rightarrow> string" where
  "println ws = join_with '' '' ws @ [CHR 0x0A]"

definition report :: "nat \<Rightarrow> metaOutline \<Rightarrow> string" where
  "report n mo =
     [CHR 0x0D] @ println [replicate 61 CHR ''-''] @ println [link mo] @
     println [''Title:'', title mo] @ println [''Size:'', show_nat (unat (total_size mo))] @
     concat (map (\<lambda>f. println [''-'', path f]) (files mo)) @
     ''Have already sniff '' @ show_nat n @ '' torrents.''"

text \<open>One round of the loop of \<open>main\<close>.\<close>

definition show_one :: "metaOutline \<Rightarrow> SimplePipeline \<Rightarrow> SimplePipeline" where
  "show_one mo p = p\<lparr>shown := shown p @ [mo], total := total p + 1, stdout := stdout p @ report (total p + 1) mo\<rparr>"

definition drop_sender :: "nat \<Rightarrow> SimplePipeline \<Rightarrow> SimplePipeline" where
  "drop_sender i p = p\<lparr>senders := take i (senders p) @ drop (Suc i) (senders p)\<rparr>"

text \<open>
  The steps, with what is visible of them: a call of \<open>DisposeMeta\<close>, an outline that enters the
  channel. A send needs room in the buffer; a receiver that waits at an empty buffer takes the outline
  from a sender directly, which is the only way through a channel without a buffer.
\<close>

datatype pipe_event = Disposing bytes bytes | Entered metaOutline

inductive pipe_step :: "env \<Rightarrow> SimplePipeline \<Rightarrow> pipe_event list \<Rightarrow> SimplePipeline \<Rightarrow> bool" for E where
  dispose: "SimplePipeline_DisposeMeta E hash meta = (r, Some mo) \<Longrightarrow>
    pipe_step E p [Disposing hash meta] (p\<lparr>senders := senders p @ [mo]\<rparr>)"
| no_outline: "SimplePipeline_DisposeMeta E hash meta = (r, None) \<Longrightarrow> pipe_step E p [Disposing hash meta] p"
| send: "i < length (senders p) \<Longrightarrow> length (ch_buf p) < ch_cap p \<Longrightarrow>
    pipe_step E p [Entered (senders p ! i)] (drop_sender i (p\<lparr>ch_buf := ch_buf p @ [senders p ! i]\<rparr>))"
| receive: "ch_buf p = mo # mos \<Longrightarrow> pipe_step E p [] (show_one mo (p\<lparr>ch_buf := mos\<rparr>))"
| handoff: "i < length (senders p) \<Longrightarrow> ch_buf p = [] \<Longrightarrow>
    pipe_step E p [Entered (senders p ! i)] (show_one (senders p ! i) (drop_sender i p))"

inductive pipe_runs :: "env \<Rightarrow> SimplePipeline \<Rightarrow> pipe_event list \<Rightarrow> SimplePipeline \<Rightarrow> bool" for E where
  start: "pipe_runs E p [] p"
| more: "pipe_runs E p tr p1 \<Longrightarrow> pipe_step E p1 es p2 \<Longrightarrow> pipe_runs E p (tr @ es) p2"

section \<open>The channel is a queue\<close>

text \<open>The outlines the trace asks to send, and those that have entered the channel, in their orders.\<close>

fun disposed :: "env \<Rightarrow> pipe_event \<Rightarrow> metaOutline option" where
  "disposed E (Disposing hash meta) = snd (SimplePipeline_DisposeMeta E hash meta)"
| "disposed E (Entered mo) = None"

fun entered :: "pipe_event \<Rightarrow> metaOutline option" where
  "entered (Disposing hash meta) = None"
| "entered (Entered mo) = Some mo"

definition queue_ok :: "env \<Rightarrow> nat \<Rightarrow> pipe_event list \<Rightarrow> SimplePipeline \<Rightarrow> bool" where
  "queue_ok E n tr p \<longleftrightarrow>
     ch_cap p = n \<and> length (ch_buf p) \<le> n \<and> total p = length (shown p) \<and>
     shown p @ ch_buf p = List.map_filter entered tr \<and>
     mset (List.map_filter (disposed E) tr) = mset (shown p) + mset (ch_buf p) + mset (senders p)"

lemma map_filter_snoc: "List.map_filter f (xs @ [x]) = List.map_filter f xs @ (case f x of None \<Rightarrow> [] | Some y \<Rightarrow> [y])"
  by (simp add: List.map_filter_def split: option.split)

lemma mset_without: "i < length xs \<Longrightarrow> add_mset (xs ! i) (mset (take i xs @ drop (Suc i) xs)) = mset xs"
  by (subst (3) id_take_nth_drop [of i xs]) simp_all

lemma pipe_step_queue: "pipe_step E p es p' \<Longrightarrow> queue_ok E n tr p \<Longrightarrow> queue_ok E n (tr @ es) p'"
proof (induction rule: pipe_step.induct)
  case (send i p)
  then show ?case using mset_without [of i "senders p"]
    by (simp add: queue_ok_def drop_sender_def map_filter_snoc)
next
  case (handoff i p)
  then show ?case using mset_without [of i "senders p"]
    by (simp add: queue_ok_def drop_sender_def show_one_def map_filter_snoc)
qed (auto simp: queue_ok_def show_one_def map_filter_snoc)

lemma pipe_runs_queue: "pipe_runs E p tr p' \<Longrightarrow> queue_ok E n [] p \<Longrightarrow> queue_ok E n tr p'"
  by (induction rule: pipe_runs.induct) (auto intro: pipe_step_queue)

lemma queue_new: "queue_ok E n [] (NewSimplePipelineWithBuf n)"
  by (simp add: queue_ok_def NewSimplePipelineWithBuf_def List.map_filter_def)

text \<open>So every outline shown was made by some call of \<open>DisposeMeta\<close>.\<close>

lemma shown_disposed:
  assumes "queue_ok E n tr p" and "mo \<in> set (shown p)"
  obtains hash meta r where "Disposing hash meta \<in> set tr" "SimplePipeline_DisposeMeta E hash meta = (r, Some mo)"
proof -
  have "mo \<in># mset (List.map_filter (disposed E) tr)" using assms by (simp add: queue_ok_def)
  then obtain e where e: "e \<in> set tr" "disposed E e = Some mo" by (auto simp: set_map_filter)
  show ?thesis
  proof (cases e)
    case (Disposing hash meta)
    then show ?thesis using e that [of hash meta] by (metis disposed.simps(1) prod.collapse)
  next
    case (Entered mo')
    then show ?thesis using e by simp
  qed
qed

text \<open>What has been written is the reports of what was shown, in order and numbered.\<close>

definition reports :: "metaOutline list \<Rightarrow> string" where
  "reports mos = ''Start crawl ...'' @ [CHR 0x0A] @ concat (map (\<lambda>i. report (i + 1) (mos ! i)) [0..<length mos])"

lemma reports_snoc: "reports (mos @ [mo]) = reports mos @ report (length mos + 1) mo"
proof -
  have "map (\<lambda>i. report (i + 1) ((mos @ [mo]) ! i)) [0..<length mos] = map (\<lambda>i. report (i + 1) (mos ! i)) [0..<length mos]"
    by (rule map_cong) (auto simp: nth_append)
  then show ?thesis by (simp add: reports_def del: map_eq_conv)
qed

lemma pipe_step_stdout:
  "pipe_step E p es p' \<Longrightarrow> total p = length (shown p) \<Longrightarrow> stdout p = reports (shown p) \<Longrightarrow>
    total p' = length (shown p') \<and> stdout p' = reports (shown p')"
  by (induction rule: pipe_step.induct) (simp_all add: show_one_def drop_sender_def reports_snoc)

lemma pipe_runs_stdout:
  "pipe_runs E p tr p' \<Longrightarrow> total p = length (shown p) \<Longrightarrow> stdout p = reports (shown p) \<Longrightarrow>
    total p' = length (shown p') \<and> stdout p' = reports (shown p')"
  by (induction rule: pipe_runs.induct) (auto dest: pipe_step_stdout)

lemma stdout_new: "stdout (NewSimplePipelineWithBuf n) = reports (shown (NewSimplePipelineWithBuf n))"
  by (simp add: NewSimplePipelineWithBuf_def reports_def)

section \<open>Outlines of torrents\<close>

lemma fold_files:
  "fold outline_method (map (\<lambda>(p, n). AddFile p n) fs) mo =
    mo\<lparr>files := files mo @ map (\<lambda>(p, n). \<lparr>path = p, file_size = word_of_int n\<rparr>) fs,
       total_size := total_size mo + word_of_int (sum_list (map snd fs))\<rparr>"
  by (induction fs arbitrary: mo) (auto simp: mo_AddFile_def ac_simps)

lemma DisposeMeta_calls:
  "FillOutline E meta = (None, calls) \<Longrightarrow>
    SimplePipeline_DisposeMeta E hash meta = (None, Some (mo_SetHash hash (fold outline_method calls empty_outline)))"
  by (simp add: SimplePipeline_DisposeMeta_def)

lemma DisposeMeta_link: "SimplePipeline_DisposeMeta E hash meta = (r, Some mo) \<Longrightarrow> r = None \<and> link mo = magnet hash"
  by (auto simp: SimplePipeline_DisposeMeta_def mo_SetHash_def split: prod.splits option.splits abort.splits)

lemma DisposeMeta_single:
  assumes "env_safe E" and "bval_ok (single_file name n pl pcs)" and "0 \<le> n" and "0 \<le> pl"
  shows "SimplePipeline_DisposeMeta E hash (benc (single_file name n pl pcs) @ rest) =
    (None, Some \<lparr>link = magnet hash, title = name, total_size = word_of_int n,
       files = [\<lparr>path = name, file_size = word_of_int n\<rparr>]\<rparr>)"
  using DisposeMeta_calls [OF FillOutline_single [OF assms]]
  by (simp add: mo_SetName_def mo_SetHash_def mo_AddFile_def empty_outline_def)

lemma DisposeMeta_multi:
  assumes "env_safe E" and "bval_ok (multi_file name fs pl pcs)" and "fs \<noteq> []"
    and "\<forall>f \<in> set fs. 0 \<le> snd f" and "0 \<le> pl"
  shows "SimplePipeline_DisposeMeta E hash (benc (multi_file name fs pl pcs) @ rest) =
    (None, Some \<lparr>link = magnet hash, title = name, total_size = word_of_int (sum_list (map snd fs)),
       files = map (\<lambda>(ps, n). \<lparr>path = join_path ps, file_size = word_of_int n\<rparr>) fs\<rparr>)"
proof -
  let ?fs = "map (\<lambda>(ps, n). (join_path ps, n)) fs"
  have "map (\<lambda>(ps, n). AddFile (join_path ps) n) fs = map (\<lambda>(p, n). AddFile p n) ?fs" by auto
  moreover have "sum_list (map snd ?fs) = sum_list (map snd fs)" by (simp add: case_prod_beta o_def)
  moreover have "map (\<lambda>(p, n). \<lparr>path = p, file_size = word_of_int n\<rparr>) ?fs =
      (map (\<lambda>(ps, n). \<lparr>path = join_path ps, file_size = word_of_int n\<rparr>) fs :: outline_file list)" by auto
  ultimately show ?thesis
    using DisposeMeta_calls [OF FillOutline_multi [OF assms], where hash = hash and rest1 = rest]
    by (simp only: fold_simps outline_method.simps fold_files mo_SetHash_def empty_outline_def)
      (simp add: mo_SetName_def)
qed

lemma DisposeMeta_neither:
  assumes "env_safe E" and "bval_ok (no_file name pl pcs)" and "0 \<le> pl"
  shows "\<exists>msg. SimplePipeline_DisposeMeta E hash (benc (no_file name pl pcs) @ rest) = (Some (Panic msg), None)"
  using FillOutline_neither [OF assms, of rest] by (auto simp: SimplePipeline_DisposeMeta_def)

end
