(* ===== verification/Btsniffer_Properties.thy ===== *)
theory Btsniffer_Properties
  imports Btsniffer Bt_Properties
begin

text \<open>What the example program guarantees: its channel, and what it prints.\<close>

text \<open>
  C38. The channel between the goroutines of the spider and \<open>main\<close> is a bounded queue: under every
  interleaving the buffer never exceeds its capacity, outlines are shown in the order they entered,
  none is lost or doubled between the calls of \<open>DisposeMeta\<close> and the screen, and the number printed
  last is the number of outlines shown.
\<close>

theorem channel_is_queue:
  assumes "pipe_runs E (NewSimplePipelineWithBuf n) tr p"
  shows "length (ch_buf p) \<le> n \<and> shown p @ ch_buf p = List.map_filter entered tr \<and>
    mset (List.map_filter (disposed E) tr) = mset (shown p) + mset (ch_buf p) + mset (senders p) \<and>
    total p = length (shown p) \<and> stdout p = reports (shown p)"
proof -
  have "queue_ok E n tr p" using assms queue_new by (rule pipe_runs_queue)
  moreover have "stdout p = reports (shown p)"
    using pipe_runs_stdout [OF assms _ stdout_new] by (simp add: NewSimplePipelineWithBuf_def)
  ultimately show ?thesis by (simp add: queue_ok_def)
qed

definition small_meta :: bytes where
  "small_meta = benc (single_file ''a.txt'' 7 16 ''h'')"

definition small_outline :: "bytes \<Rightarrow> metaOutline" where
  "small_outline hash = \<lparr>link = magnet hash, title = ''a.txt'', total_size = 7, files = [\<lparr>path = ''a.txt'', file_size = 7\<rparr>]\<rparr>"

lemma small_disposed: "SimplePipeline_DisposeMeta bencode_env hash small_meta = (None, Some (small_outline hash))"
  using DisposeMeta_single [OF bencode_env_ok(2), of "''a.txt''" 7 16 "''h''" hash "[]"]
  by (simp add: small_meta_def small_outline_def single_file_def len_ok_def del: benc.simps)

lemma small_run:
  "\<exists>p. pipe_runs bencode_env NewSimplePipeline [Disposing hash small_meta, Entered (small_outline hash)] p \<and>
    shown p = [small_outline hash]"
proof -
  let ?p = "NewSimplePipeline\<lparr>senders := senders NewSimplePipeline @ [small_outline hash]\<rparr>"
  have "pipe_runs bencode_env NewSimplePipeline ([] @ [Disposing hash small_meta]) ?p"
    by (rule pipe_runs.more [OF pipe_runs.start]) (rule pipe_step.dispose [OF small_disposed])
  moreover have "pipe_step bencode_env ?p [Entered (senders ?p ! 0)] (show_one (senders ?p ! 0) (drop_sender 0 ?p))"
    by (rule pipe_step.handoff) (simp_all add: NewSimplePipeline_def NewSimplePipelineWithBuf_def)
  ultimately have "pipe_runs bencode_env NewSimplePipeline (([] @ [Disposing hash small_meta]) @ [Entered (senders ?p ! 0)])
      (show_one (senders ?p ! 0) (drop_sender 0 ?p))"
    by (rule pipe_runs.more)
  then show ?thesis
    by (intro exI conjI) (auto simp: NewSimplePipeline_def NewSimplePipelineWithBuf_def show_one_def drop_sender_def)
qed

theorem channel_is_queue_witness:
  "\<exists>p. pipe_runs bencode_env (NewSimplePipelineWithBuf 0) [Disposing ''ih'' small_meta, Entered (small_outline ''ih'')] p \<and>
    total p = 1 \<and> stdout p = reports [small_outline ''ih'']"
proof -
  obtain p where p: "pipe_runs bencode_env (NewSimplePipelineWithBuf 0) [Disposing ''ih'' small_meta, Entered (small_outline ''ih'')] p"
      "shown p = [small_outline ''ih'']"
    using small_run [of "''ih''"] by (auto simp: NewSimplePipeline_def)
  with channel_is_queue [OF p(1)] show ?thesis by (intro exI [of _ p]) simp
qed

text \<open>
  C14. From the peer to the screen: when every call of \<open>DisposeMeta\<close> comes from the callback of
  \<open>Spider.Run\<close>, whatever the peers sent, each outline that is shown carries the magnet link of the
  hash of the metadata it was made from.
\<close>

theorem shown_links:
  fixes sha1 :: "bytes \<Rightarrow> bytes"
  assumes "pipe_runs E (NewSimplePipelineWithBuf n) tr p"
    and "\<forall>ih meta. Disposing ih meta \<in> set tr \<longrightarrow>
      (\<exists>(put :: 'w put) ctx dialled rand_id. DisposeMeta ih meta \<in> set (Run_callback E sha1 put ctx SimplePipeline_Has dialled rand_id ih))"
    and "mo \<in> set (shown p)"
  shows "\<exists>meta. link mo = ''magnet:?xt=urn:btih:'' @ hex (sha1 meta) \<and>
    SimplePipeline_DisposeMeta E (sha1 meta) meta = (None, Some mo)"
proof -
  have "queue_ok E n tr p" using assms(1) queue_new by (rule pipe_runs_queue)
  then obtain ih meta r where m: "Disposing ih meta \<in> set tr" "SimplePipeline_DisposeMeta E ih meta = (r, Some mo)"
    using assms(3) by (rule shown_disposed)
  then obtain put :: "'w put" and ctx dialled rand_id
    where c: "DisposeMeta ih meta \<in> set (Run_callback E sha1 put ctx SimplePipeline_Has dialled rand_id ih)"
    using assms(2) by blast
  have "sha1 meta = ih"
    using c Run_callback_ok [of sha1 E put ctx SimplePipeline_Has dialled rand_id ih]
    by (auto simp: list_all_iff call_ok_def)
  then show ?thesis using m(2) DisposeMeta_link [OF m(2)] by (auto simp: magnet_def)
qed

definition small_conn :: "bytes conn" where
  "small_conn = \<lparr>conn_out = [], conn_in = \<lparr>avail = greeting (hash20 []) (replicate 20 CHR ''p'') (SetExtReserved 0) @
     message (peer_hello 3 5) @ concat (map (\<lambda>i. message (peer_piece [small_meta] i)) [0]) @ [], closing = EOF\<rparr>, closed = False\<rparr>"

lemma small_fetched:
  "Run_callback bencode_env hash20 buffer_put (\<lambda>i. None) SimplePipeline_Has (Inr small_conn) [] (hash20 []) =
    [DisposeMeta (hash20 []) small_meta]"
proof -
  have "small_meta \<noteq> []" "\<forall>i < length [small_meta]. length (peer_piece [small_meta] i) \<le> 99999"
    by (simp_all add: small_meta_def single_file_def peer_piece_def piece_dict_def bstr_def show_int_def show_nat.simps data_msg_def)
  then have "fst (FetchMetadata bencode_env hash20 buffer_put (\<lambda>i. None) (hash20 []) (Inr small_conn) []) = Inr small_meta"
    using FetchMetadata_honest [OF buffer_reliable, of "\<lambda>i. None" 3 "[small_meta]" 5 hash20 "hash20 []" "[0]"
        "replicate 20 CHR ''p''" "SetExtReserved 0" small_conn "[]" "[]"] honest_sizes(2) honest_parts
    by (simp add: hash20_def small_conn_def lessThan_Suc)
  then show ?thesis by (simp add: Run_callback_def SimplePipeline_Has_def split_beta split: sum.split)
qed

theorem shown_links_witness:
  "\<exists>meta. link (small_outline (hash20 [])) = ''magnet:?xt=urn:btih:'' @ hex (hash20 meta) \<and>
    SimplePipeline_DisposeMeta bencode_env (hash20 meta) meta = (None, Some (small_outline (hash20 [])))"
proof -
  let ?tr = "[Disposing (hash20 []) small_meta, Entered (small_outline (hash20 []))]"
  obtain p where p: "pipe_runs bencode_env (NewSimplePipelineWithBuf 0) ?tr p" "shown p = [small_outline (hash20 [])]"
    using small_run [of "hash20 []"] by (auto simp: NewSimplePipeline_def)
  have "\<forall>ih meta. Disposing ih meta \<in> set ?tr \<longrightarrow> (\<exists>(put :: bytes put) ctx dialled rand_id.
      DisposeMeta ih meta \<in> set (Run_callback bencode_env hash20 put ctx SimplePipeline_Has dialled rand_id ih))"
  proof (intro allI impI)
    fix ih meta assume "Disposing ih meta \<in> set ?tr"
    then have "DisposeMeta ih meta \<in> set (Run_callback bencode_env hash20 buffer_put (\<lambda>i. None) SimplePipeline_Has
        (Inr small_conn) [] ih)"
      using small_fetched by simp
    then show "\<exists>(put :: bytes put) ctx dialled rand_id.
        DisposeMeta ih meta \<in> set (Run_callback bencode_env hash20 put ctx SimplePipeline_Has dialled rand_id ih)" by blast
  qed
  from shown_links [OF p(1) this] p(2) show ?thesis by simp
qed

text \<open>
  C39. What the example shows of a torrent: the name as its title and the file for metadata of one
  file; all files under their joined paths for several, with the sum of their lengths modulo 2 to the
  64; the goroutine of metadata with neither panics.
\<close>

theorem torrent_outline:
  assumes "env_safe E" and "0 \<le> pl"
  shows "(bval_ok (single_file name n pl pcs) \<and> 0 \<le> n \<longrightarrow>
      SimplePipeline_DisposeMeta E hash (benc (single_file name n pl pcs) @ rest) =
        (None, Some \<lparr>link = magnet hash, title = name, total_size = word_of_int n,
           files = [\<lparr>path = name, file_size = word_of_int n\<rparr>]\<rparr>)) \<and>
    (bval_ok (multi_file name fs pl pcs) \<and> fs \<noteq> [] \<and> (\<forall>f \<in> set fs. 0 \<le> snd f) \<longrightarrow>
      SimplePipeline_DisposeMeta E hash (benc (multi_file name fs pl pcs) @ rest) =
        (None, Some \<lparr>link = magnet hash, title = name, total_size = word_of_int (sum_list (map snd fs)),
           files = map (\<lambda>(ps, n). \<lparr>path = join_path ps, file_size = word_of_int n\<rparr>) fs\<rparr>)) \<and>
    (bval_ok (no_file name pl pcs) \<longrightarrow>
      (\<exists>msg. SimplePipeline_DisposeMeta E hash (benc (no_file name pl pcs) @ rest) = (Some (Panic msg), None)))"
  using DisposeMeta_single [OF assms(1) _ _ assms(2)] DisposeMeta_multi [OF assms(1) _ _ _ assms(2)]
    DisposeMeta_neither [OF assms(1) _ assms(2)]
  by (simp del: benc.simps bval_ok.simps)

theorem torrent_outline_witness:
  "\<exists>mo. SimplePipeline_DisposeMeta bencode_env ''ih'' (benc (multi_file ''dir'' [([''x''], 2 ^ 63 - 1), ([''z''], 2)] 16 ''h'') @ []) =
      (None, Some mo) \<and> unat (total_size mo) = 2 ^ 63 + 1"
proof -
  let ?fs = "[([''x''], 2 ^ 63 - 1), ([''z''], 2 :: int)]"
  have "bval_ok (multi_file ''dir'' ?fs 16 ''h'')" "?fs \<noteq> []" "\<forall>f \<in> set ?fs. 0 \<le> snd f"
    by (simp_all add: multi_file_def file_entry_def len_ok_def)
  moreover have "(0 :: int) \<le> 16" by simp
  ultimately have "\<exists>mo. SimplePipeline_DisposeMeta bencode_env ''ih'' (benc (multi_file ''dir'' ?fs 16 ''h'') @ []) = (None, Some mo) \<and>
      total_size mo = word_of_int (sum_list (map snd ?fs))"
    using torrent_outline [OF bencode_env_ok(2) \<open>0 \<le> 16\<close>, THEN conjunct2, THEN conjunct1, of "''dir''" ?fs "''h''" "''ih''" "[]"]
    by (simp del: benc.simps bval_ok.simps)
  moreover have "unat (word_of_int (sum_list (map snd ?fs)) :: 64 word) = 2 ^ 63 + 1"
    by simp
  ultimately show ?thesis by fastforce
qed

end
