(* ===== verification/Spec2Isabelle.thy ===== *)
theory Spec2Isabelle
  imports Bencode_Properties Bt_Properties Dht_Properties Btsniffer_Properties
begin

text \<open>
  btlet sniffs torrents: a crawler joins the BitTorrent DHT under many identities, collects the info
  hashes other nodes announce, and a spider fetches the metadata of each from the peer that announced
  it. This is a model of the whole of it, translated from the Go sources, with what makes it correct.

  \<^bold>\<open>The parts.\<close> Everything on the wire is bencode (package \<open>bencode\<close>). The DHT (package \<open>dht\<close>) is a UDP
  host that decodes each datagram and spawns a job for it; the jobs run a disposer, which gives queries
  to the crawler's transaction and responses to the dispatcher of transactions. The crawler's callback
  is the spider (\<open>sniffer.go\<close>), which dials the peer (\<open>bt/stream.go\<close>), speaks the peer wire
  (\<open>bt/peerwire.go\<close>) with the extension protocol (\<open>bt/extension.go\<close>), fetches the metadata
  (\<open>bt/fetchmeta.go\<close>) and tracker lists (\<open>bt/tex.go\<close>), and hands them to a pipeline. The example
  program (\<open>example/btsniffer\<close>) is such a pipeline.

  \<^bold>\<open>Shared.\<close> \<open>Btlet_Prelude\<close> has bytes, big-endian integers, Go maps as association lists and the
  collections of hints; \<open>Go_Values\<close> the types and values \<open>bencode\<close> sees through \<open>reflect\<close>, with structs,
  tags, pointers (a pointer owns what it points to), interfaces and the methods of user types as the
  parameter \<open>env\<close>; \<open>Strconv\<close>, \<open>Go_Io\<close> and \<open>Go_Net\<close> what is used of Go's library: numbers as text, readers
  (what will arrive, and the error after it) and writers (an operation on a writer state), and
  addresses as text. An abort is an error, a panic or the end of the fuel, so that every way a function
  can end is a value.

  \<^bold>\<open>Package bencode.\<close>
  \<^item> \<open>Bencode_Reader\<close>: the state of \<open>Decoder\<close> and its verbatim readers (\<open>readValueInto\<close> and below).
    \<open>Bencode_Spec\<close>: the format, \<open>bval\<close> and \<open>benc\<close>; the readers take exactly one encoding.
  \<^item> \<open>Bencode_Tags\<close>: \<open>tags.go\<close>. \<open>Bencode_Decode\<close>: \<open>Decode\<close>, \<open>decodeInt\<close>, \<open>decodeString\<close>, \<open>decodeList\<close>,
    \<open>decodeDict\<close>, \<open>wrapStruct2Map\<close>. \<open>Decode_Facts\<close> shows that it counts its bytes and ends, \<open>Decode_Types\<close>
    that the target keeps its type, \<open>Decode_Spec\<close> that on valid input it is the function \<open>assign\<close>.
  \<^item> \<open>Bencode_Encode\<close>: \<open>Encode\<close>, \<open>readStruct\<close>, \<open>isEmptyValue\<close>. \<open>Encode_Spec\<close>: it writes \<open>benc\<close> of the
    abstract value \<open>to_bval\<close>.
  \<^item> \<open>Bencode_Codec\<close>, \<open>Bencode_Structs\<close>: both together, the order of keys and the round trips; structs as
    the repository uses them. \<open>Bencode_Raw\<close>: \<open>raw.go\<close>. \<open>Bencode_Properties\<close>: the properties.

  \<^bold>\<open>Packages tools and bt, and the spider.\<close>
  \<^item> \<open>Tools\<close>: \<open>tools.go\<close>, \<open>rw.go\<close>. \<open>Bt_Peerwire\<close>: messages. \<open>Bt_Stream\<close>: the handshake.
  \<^item> \<open>Bt_Extension\<close>: the center (\<open>ExtProtocol\<close>) over a store of objects with a table of methods; the
    locales \<open>keeps\<close>, \<open>extension\<close> and \<open>ending\<close> are what it relies on, interpreted on both extensions and on
    their sum. \<open>Bt_Handshake\<close>, \<open>Bt_Numbers\<close>: the handshake between two centers. \<open>Bt_Settle\<close>: which
    extensions are in the list along a whole conversation, and the way from a number to its slot.
  \<^item> \<open>Bt_Fetchmeta\<close>, \<open>Bt_Fetch_Spec\<close>: \<open>FetchMetaExt\<close>, \<open>FetchMetadata\<close>, its safety and an honest peer's run.
    \<open>Bt_Fetch_Ends\<close>: how its loop ends, by the context or by what a peer sends that is of no use.
    \<open>Bt_Tex\<close>, \<open>Bt_Trackers\<close>: tracker exchange and its two ends. \<open>Bt_Metadata\<close>: \<open>FillOutline\<close>.
  \<^item> \<open>Sniffer\<close>: \<open>Spider\<close> and \<open>metaTrackFetcher\<close>; the calls made on the pipeline are a list.
    \<open>Bt_Properties\<close>: the properties.
  \<^item> \<open>Btsniffer\<close>: the example's outlines and its channel as a step relation over the goroutines that
    wait to send and the one that receives; \<open>Btsniffer_Properties\<close>: from the peer to the screen.

  \<^bold>\<open>Package dht.\<close>
  \<^item> \<open>Dht_Nodes\<close>: \<open>util.go\<close>. \<open>Dht_Krpc\<close>: messages and errors of \<open>krpc.go\<close>, \<open>SendMessage\<close>,
    \<open>disposeMessage\<close>. \<open>Dht_Messages\<close>, \<open>Dht_Bodies\<close>: they survive the wire.
  \<^item> \<open>Dht_Dispatcher\<close>: \<open>TransactionDispatcher\<close> and \<open>transactionBox\<close> as a step relation over the goroutines
    of the boxes and those inside \<open>Remove\<close> and \<open>Dispose\<close>; a send and its receive are one step.
    \<open>Dht_Registry\<close>: the phases of a box as a linear order, and the abstract registry it refines.
    \<open>Dht_Fairness\<close>: infinite executions under a fair scheduler, in which a box ends.
  \<^item> \<open>Dht_Host\<close>: \<open>Serv\<close> and the proxy. \<open>Dht_Crawler\<close>: \<open>SybilCrawler\<close>, \<open>sybilTransaction\<close>, \<open>nodeFilter\<close>,
    whose methods return the list of their effects. \<open>Dht_Crawl_Spec\<close>: what each method does.
    \<open>Dht_Filter\<close>: the filter when several workers are in \<open>AddNode\<close> at once. \<open>Dht_Serving\<close>: what arrives at
    a host, as encodings, and the jobs expected of it.
  \<^item> \<open>Dht_System\<close>: datagrams, jobs, dispatcher and transaction in one step relation, in which the
    dispatcher's steps call the transaction's methods. \<open>Dht_Properties\<close>: the properties.

  \<^bold>\<open>Fuel.\<close> The readers, the decoder and the loops over messages recurse on fuel. Each round or level
  consumes at least one byte, so the length of the input and one more is enough, and that is what the
  top-level definitions start with; the properties named after termination show that the fuel never
  runs out, for any input. A stream is its bytes and the error after them; for the loop of
  \<open>FetchMetadata\<close> on a stream that never ends, \<open>n\<close> rounds look at no more than \<open>n * 100003\<close> bytes, and
  the context decides how many rounds there are.

  \<^bold>\<open>Parameters.\<close> SHA-1, random strings, the clock, name resolution, listening and dialling, the operations
  of a \<open>net.Conn\<close>, contexts (whether they are done at each look), the bloom filter (with what its
  documentation promises, where a property needs it), and the worker pool, which runs each job it is
  given at some time.

  \<^bold>\<open>Not modelled.\<close> The length of time (a timer may fire in any round), memory limits, data races inside
  one method (methods of one object run one after the other, goroutines interleave between them; but for
  \<open>AddNode\<close> of the filter, which runs unlocked, \<open>Dht_Filter\<close> has its accesses as steps of their own), the
  local address of a host, and the parts of \<open>encode.go\<close> that only serve Go's \<open>sort\<close> package. Floating
  point numbers, channels and functions, which the codec refuses, are one opaque value.
\<close>

end
